(* ===== verification/PyFloat.thy ===== *)
theory PyFloat
  imports Complex_Main "HOL-Library.Log_Nat"
begin

text \<open>
  The numbers of the Python programs. A float is an IEEE double: the rational it stands
  for, or one of the special values (the sign of zero is not kept). Every operation
  rounds its exact result to the nearest double, ties to even, with 53 bits of
  precision and the smallest exponent \<open>-1074\<close>.
\<close>

section \<open>Rounding\<close>

definition round_even :: "rat \<Rightarrow> int" where
  "round_even y =
     (let f = \<lfloor>y\<rfloor>; r = y - of_int f in
      if r < 1 / 2 then f else if 1 / 2 < r then f + 1 else if even f then f else f + 1)"

definition binexp :: "rat \<Rightarrow> int" where
  "binexp x =
     (let (n, d) = quotient_of x; k = bitlen n - bitlen d in if 2 powi k \<le> x then k else k - 1)"

definition ulp_exp :: "rat \<Rightarrow> int" where
  "ulp_exp x = max (binexp \<bar>x\<bar> - 52) (- 1074)"

definition fl :: "rat \<Rightarrow> rat" where
  "fl x = (if x = 0 then 0 else of_int (round_even (x / 2 powi ulp_exp x)) * 2 powi ulp_exp x)"

lemma round_even_error: "\<bar>of_int (round_even y) - y\<bar> \<le> 1 / 2"
proof -
  have "of_int \<lfloor>y\<rfloor> \<le> y" "y < of_int \<lfloor>y\<rfloor> + 1" by linarith+
  then show ?thesis by (auto simp: round_even_def Let_def abs_le_iff)
qed

lemma round_even_mono: "x \<le> y \<Longrightarrow> round_even x \<le> round_even y"
proof -
  assume xy: "x \<le> y"
  then have f: "\<lfloor>x\<rfloor> \<le> \<lfloor>y\<rfloor>" by (rule floor_mono)
  show ?thesis
  proof (cases "\<lfloor>x\<rfloor> = \<lfloor>y\<rfloor>")
    case True
    then show ?thesis using xy by (auto simp: round_even_def Let_def)
  next
    case False
    with f have "\<lfloor>x\<rfloor> + 1 \<le> \<lfloor>y\<rfloor>" by simp
    then show ?thesis by (auto simp: round_even_def Let_def)
  qed
qed

lemma round_even_of_int [simp]: "round_even (of_int n) = n"
  by (simp add: round_even_def)

lemma binexp_bounds:
  assumes "0 < x"
  shows "2 powi binexp x \<le> x" "x < 2 powi (binexp x + 1)"
proof -
  obtain n d where q: "quotient_of x = (n, d)" by force
  from quotient_of_denom_pos [OF q] have d: "0 < d" .
  from quotient_of_div [OF q] have x: "x = of_int n / of_int d" .
  with assms d have n: "0 < n" by (simp add: zero_less_divide_iff)
  have pw: "2 powi (bitlen m - 1) \<le> (of_int m :: rat)" "(of_int m :: rat) < 2 powi bitlen m" if m: "0 < m" for m
  proof -
    from bitlen_bounds [of m] m have b: "2 ^ nat (bitlen m - 1) \<le> m" "m < 2 ^ nat (bitlen m)" by auto
    have p: "0 < bitlen m" using b(2) m by (cases "0 < bitlen m") auto
    have "(2 :: rat) powi (bitlen m - 1) = of_int (2 ^ nat (bitlen m - 1))" 
      using p by (simp add: power_int_def)
    also have "\<dots> \<le> of_int m" using b(1) by (subst of_int_le_iff)
    finally show "2 powi (bitlen m - 1) \<le> (of_int m :: rat)" .
    have "of_int m < (of_int (2 ^ nat (bitlen m)) :: rat)" using b(2) by (subst of_int_less_iff)
    also have "\<dots> = 2 powi bitlen m" using p by (simp add: power_int_def)
    finally show "(of_int m :: rat) < 2 powi bitlen m" .
  qed
  let ?k = "bitlen n - bitlen d"
  have dp: "0 < (of_int d :: rat)" using d by simp
  have up: "x < 2 powi (?k + 1)"
  proof -
    have "x < 2 powi bitlen n / of_int d" unfolding x using pw(2) [OF n] dp by (simp add: divide_strict_right_mono)
    also have "\<dots> \<le> 2 powi bitlen n / 2 powi (bitlen d - 1)"
      using pw(1) [OF d] d by (intro divide_left_mono) auto
    also have "\<dots> = 2 powi (?k + 1)" by (simp add: power_int_diff power_int_add)
    finally show ?thesis .
  qed
  have lo: "2 powi (?k - 1) \<le> x"
  proof -
    have "2 powi (?k - 1) = 2 powi (bitlen n - 1) / (2 powi bitlen d :: rat)" by (simp add: power_int_diff)
    also have "\<dots> \<le> of_int n / 2 powi bitlen d" using pw(1) [OF n] by (simp add: divide_right_mono)
    also have "\<dots> \<le> of_int n / of_int d" using pw(2) [OF d] n dp by (intro divide_left_mono) auto
    finally show ?thesis by (simp add: x)
  qed
  show "2 powi binexp x \<le> x" "x < 2 powi (binexp x + 1)"
    using up lo by (auto simp: binexp_def q Let_def)
qed

lemma binexp_le: "0 < x \<Longrightarrow> x < 2 powi (k + 1) \<Longrightarrow> binexp x \<le> k"
proof (rule ccontr)
  assume x: "0 < x" "x < 2 powi (k + 1)" and "\<not> binexp x \<le> k"
  then have "(2 :: rat) powi (k + 1) \<le> 2 powi binexp x" by (intro power_int_increasing) auto
  with binexp_bounds(1) [OF x(1)] x(2) show False by simp
qed

lemma binexp_mono: "0 < x \<Longrightarrow> x \<le> y \<Longrightarrow> binexp x \<le> binexp y"
  using binexp_bounds(2) [of y] by (intro binexp_le) auto

lemma fl_0 [simp]: "fl 0 = 0" by (simp add: fl_def)

lemma round_even_minus: "round_even (- y) = - round_even y"
proof (cases "y = of_int \<lfloor>y\<rfloor>")
  case True
  then show ?thesis by (metis of_int_minus round_even_of_int)
next
  case False
  then have "of_int \<lfloor>y\<rfloor> < y" using of_int_floor_le [of y] by linarith
  then have "\<lfloor>- y\<rfloor> = - \<lfloor>y\<rfloor> - 1" by (intro floor_unique) (auto, linarith)
  then show ?thesis by (auto simp: round_even_def Let_def)
qed

lemma fl_minus: "fl (- x) = - fl x"
  by (simp add: fl_def ulp_exp_def round_even_minus)

lemma ulp_error: "x \<noteq> 0 \<Longrightarrow> \<bar>fl x - x\<bar> \<le> 2 powi ulp_exp x / 2"
proof -
  assume x: "x \<noteq> 0"
  let ?u = "2 powi ulp_exp x :: rat"
  have u: "0 < ?u" by simp
  have "fl x - x = (of_int (round_even (x / ?u)) - x / ?u) * ?u" using x u by (simp add: fl_def field_simps)
  then have "\<bar>fl x - x\<bar> = \<bar>of_int (round_even (x / ?u)) - x / ?u\<bar> * ?u" using u by (simp add: abs_mult)
  also have "\<dots> \<le> 1 / 2 * ?u" using u by (intro mult_right_mono round_even_error) auto
  finally show ?thesis by simp
qed

lemma fl_error: "\<bar>fl x - x\<bar> \<le> \<bar>x\<bar> / 2 ^ 53 + 1 / 2 ^ 53"
proof (cases "x = 0")
  case False
  have "(2 :: rat) powi ulp_exp x / 2 \<le> \<bar>x\<bar> / 2 ^ 53 + 1 / 2 ^ 53"
  proof (cases "binexp \<bar>x\<bar> - 52 \<le> - 1074")
    case True
    then have "ulp_exp x = - 1074" by (simp add: ulp_exp_def)
    then have "(2 :: rat) powi ulp_exp x \<le> 2 powi (- 52)" by (intro power_int_increasing) auto
    also have "\<dots> = 2 / 2 ^ 53" by (simp add: power_int_def power_one_over)
    finally have "(2 :: rat) powi ulp_exp x / 2 \<le> 1 / 2 ^ 53" by simp
    moreover have "0 \<le> \<bar>x\<bar> / 2 ^ 53" by simp
    ultimately show ?thesis by linarith
  next
    case f: False
    then have "ulp_exp x = binexp \<bar>x\<bar> - 52" by (simp add: ulp_exp_def)
    then have "(2 :: rat) powi ulp_exp x / 2 = 2 powi binexp \<bar>x\<bar> / 2 ^ 53"
      by (simp add: power_int_diff)
    also have "\<dots> \<le> \<bar>x\<bar> / 2 ^ 53" using binexp_bounds(1) [of "\<bar>x\<bar>"] False by (simp add: divide_right_mono)
    finally show ?thesis by simp
  qed
  with ulp_error [OF False] show ?thesis by linarith
qed simp

lemma fl_exact:
  assumes "\<bar>m\<bar> < 2 ^ 53" "- 1074 \<le> e"
  shows "fl (of_int m * 2 powi e) = of_int m * 2 powi e"
proof (cases "m = 0")
  case False
  let ?x = "of_int m * 2 powi e :: rat"
  have x: "?x \<noteq> 0" "0 < \<bar>?x\<bar>" using False by auto
  have ax: "\<bar>?x\<bar> = of_int \<bar>m\<bar> * 2 powi e" by (simp add: abs_mult)
  have "of_int \<bar>m\<bar> < (of_int (2 ^ 53) :: rat)" using assms(1) by (subst of_int_less_iff)
  then have "\<bar>?x\<bar> < 2 powi (52 + e + 1)" unfolding ax by (simp add: power_int_add)
  from binexp_le [OF x(2) this] have "ulp_exp ?x \<le> e" using assms(2) by (simp add: ulp_exp_def)
  define u k where "u = (2 :: rat) powi ulp_exp ?x" and "k = nat (e - ulp_exp ?x)"
  have u: "u \<noteq> 0" by (simp add: u_def)
  have "(2 :: rat) powi e = 2 ^ k * u" using \<open>ulp_exp ?x \<le> e\<close>
    by (simp add: k_def u_def power_int_add [symmetric] flip: power_int_of_nat)
  then have q: "?x / u = of_int (m * 2 ^ k)" using u by simp
  then have "fl ?x = of_int (m * 2 ^ k) * u" using x(1) unfolding fl_def u_def [symmetric] by (simp only: round_even_of_int) simp
  moreover have "?x = of_int (m * 2 ^ k) * u" using q by (simp only: nonzero_divide_eq_eq [OF u])
  ultimately show ?thesis by (rule trans [OF _ sym])
qed simp

lemma fl_exact_int: "\<bar>m\<bar> < 2 ^ 53 \<Longrightarrow> fl (of_int m) = of_int m"
  using fl_exact [of m 0] by simp

lemma binexp_ulp: "0 < x \<Longrightarrow> x \<le> 2 powi (ulp_exp x + 53)"
proof -
  assume x: "0 < x"
  have "x \<le> 2 powi (binexp x + 1)" using binexp_bounds(2) [OF x] by simp
  also have "\<dots> \<le> 2 powi (ulp_exp x + 53)" using x by (intro power_int_increasing) (auto simp: ulp_exp_def)
  finally show ?thesis .
qed

lemma fl_le_power:
  assumes "0 < x"
  shows "fl x \<le> 2 powi (ulp_exp x + 53)"
proof -
  let ?u = "2 powi ulp_exp x :: rat"
  have "x / ?u \<le> of_int (2 ^ 53)" using binexp_ulp [OF assms] by (simp add: power_int_add field_simps)
  from round_even_mono [OF this] have "round_even (x / ?u) \<le> 2 ^ 53" by (simp only: round_even_of_int)
  then have "(of_int (round_even (x / ?u)) :: rat) \<le> of_int (2 ^ 53)" by (subst of_int_le_iff)
  then have "fl x \<le> of_int (2 ^ 53) * ?u" using assms unfolding fl_def by (simp del: of_int_power add: mult_right_mono)
  then show ?thesis by (simp add: power_int_add mult.commute)
qed

lemma fl_ge_power:
  assumes "0 < x" "ulp_exp x = binexp x - 52"
  shows "2 powi (ulp_exp x + 52) \<le> fl x"
proof -
  let ?u = "2 powi ulp_exp x :: rat"
  have "2 powi (ulp_exp x + 52) \<le> x" using binexp_bounds(1) [OF assms(1)] assms(2) by simp
  then have "of_int (2 ^ 52) \<le> x / ?u" by (simp add: power_int_add field_simps)
  from round_even_mono [OF this] have "2 ^ 52 \<le> round_even (x / ?u)" by (simp only: round_even_of_int)
  then have "(of_int (2 ^ 52) :: rat) \<le> of_int (round_even (x / ?u))" by (subst of_int_le_iff)
  then have "of_int (2 ^ 52) * ?u \<le> fl x" using assms(1) unfolding fl_def by (simp del: of_int_power add: mult_right_mono)
  then show ?thesis by (simp add: power_int_add mult.commute)
qed

lemma fl_mono_pos:
  assumes "0 < x" "x \<le> y"
  shows "fl x \<le> fl y"
proof -
  have y: "0 < y" using assms by simp
  have e: "ulp_exp x \<le> ulp_exp y" using binexp_mono [OF assms] assms(1) y by (auto simp: ulp_exp_def)
  show ?thesis
  proof (cases "ulp_exp x = ulp_exp y")
    case True
    have "round_even (x / 2 powi ulp_exp y) \<le> round_even (y / 2 powi ulp_exp y)"
      using assms(2) by (intro round_even_mono divide_right_mono) auto
    then show ?thesis using assms(1) y True by (simp add: fl_def mult_right_mono)
  next
    case False
    with e have lt: "ulp_exp x + 53 \<le> ulp_exp y + 52" and "ulp_exp y = binexp y - 52"
      using y by (auto simp: ulp_exp_def max_def split: if_splits)
    from lt have "(2 :: rat) powi (ulp_exp x + 53) \<le> 2 powi (ulp_exp y + 52)" by (intro power_int_increasing) auto
    with fl_le_power [OF assms(1)] fl_ge_power [OF y \<open>ulp_exp y = _\<close>] show ?thesis by linarith
  qed
qed

lemma fl_nonneg: "0 \<le> x \<Longrightarrow> 0 \<le> fl x"
proof (cases "x = 0")
  case False
  assume "0 \<le> x"
  then have "of_int 0 \<le> x / 2 powi ulp_exp x" by simp
  from round_even_mono [OF this] have "0 \<le> round_even (x / 2 powi ulp_exp x)" by (simp only: round_even_of_int)
  then show ?thesis by (simp add: fl_def)
qed simp

lemma fl_mono: "x \<le> y \<Longrightarrow> fl x \<le> fl y"
proof -
  assume xy: "x \<le> y"
  consider "0 < x" | "x \<le> 0" "0 \<le> y" | "y < 0" by linarith
  then show ?thesis
  proof cases
    case 1 then show ?thesis using xy by (rule fl_mono_pos)
  next
    case 2
    then show ?thesis using fl_nonneg [of y] fl_nonneg [of "- x"] by (simp add: fl_minus)
  next
    case 3
    then show ?thesis using fl_mono_pos [of "- y" "- x"] xy by (simp add: fl_minus)
  qed
qed

lemma fl_bounds: "of_int a \<le> x \<Longrightarrow> x \<le> of_int b \<Longrightarrow> \<bar>a\<bar> < 2 ^ 53 \<Longrightarrow> \<bar>b\<bar> < 2 ^ 53 \<Longrightarrow>
    of_int a \<le> fl x \<and> fl x \<le> of_int b"
  using fl_mono [of "of_int a" x] fl_mono [of x "of_int b"] by (simp add: fl_exact_int)

section \<open>Floats\<close>

datatype pyfloat = Fin rat | PInf | NInf | NaN

definition pyround :: "rat \<Rightarrow> pyfloat" where
  "pyround x =
     (let y = fl x in if 2 ^ 1024 \<le> y then PInf else if y \<le> - (2 ^ 1024) then NInf else Fin y)"

fun fadd :: "pyfloat \<Rightarrow> pyfloat \<Rightarrow> pyfloat" where
  "fadd (Fin x) (Fin y) = pyround (x + y)"
| "fadd NaN _ = NaN"
| "fadd _ NaN = NaN"
| "fadd (Fin _) b = b"
| "fadd a (Fin _) = a"
| "fadd a b = (if a = b then a else NaN)"

fun fneg :: "pyfloat \<Rightarrow> pyfloat" where
  "fneg (Fin x) = Fin (- x)"
| "fneg PInf = NInf"
| "fneg NInf = PInf"
| "fneg NaN = NaN"

definition fsub :: "pyfloat \<Rightarrow> pyfloat \<Rightarrow> pyfloat" where
  "fsub a b = fadd a (fneg b)"

text \<open>Multiplication and division by a positive constant.\<close>

fun fmul_by :: "pyfloat \<Rightarrow> rat \<Rightarrow> pyfloat" where
  "fmul_by (Fin x) c = pyround (x * c)"
| "fmul_by a c = a"

fun fdiv_by :: "pyfloat \<Rightarrow> rat \<Rightarrow> pyfloat" where
  "fdiv_by (Fin x) c = pyround (x / c)"
| "fdiv_by a c = a"

fun flt :: "pyfloat \<Rightarrow> pyfloat \<Rightarrow> bool" where
  "flt (Fin x) (Fin y) \<longleftrightarrow> x < y"
| "flt NaN _ \<longleftrightarrow> False"
| "flt _ NaN \<longleftrightarrow> False"
| "flt a b \<longleftrightarrow> a \<noteq> b \<and> (a = NInf \<or> b = PInf)"

definition fle :: "pyfloat \<Rightarrow> pyfloat \<Rightarrow> bool" where
  "fle a b \<longleftrightarrow> flt a b \<or> a = b \<and> a \<noteq> NaN"

text \<open>
  The built-in \<open>min(a, b)\<close> and \<open>max(a, b)\<close>, which return the second argument only if it
  is strictly smaller or greater, and \<open>int(x)\<close>, which cuts off the fraction.
\<close>

definition py_min :: "pyfloat \<Rightarrow> pyfloat \<Rightarrow> pyfloat" where
  "py_min a b = (if flt b a then b else a)"

definition py_max :: "pyfloat \<Rightarrow> pyfloat \<Rightarrow> pyfloat" where
  "py_max a b = (if flt a b then b else a)"

definition trunc :: "rat \<Rightarrow> int" where
  "trunc x = (if 0 \<le> x then \<lfloor>x\<rfloor> else \<lceil>x\<rceil>)"

lemma pyround_small: "\<bar>x\<bar> \<le> 2 ^ 60 \<Longrightarrow> pyround x = Fin (fl x)"
proof -
  assume "\<bar>x\<bar> \<le> 2 ^ 60"
  then have x: "- (2 ^ 60) \<le> x" "x \<le> 2 ^ 60" by auto
  have "fl (2 ^ 60) = 2 ^ 60" using fl_exact [of 1 60] by (simp add: power_int_def)
  with fl_mono [OF x(2)] fl_mono [OF x(1)] have "\<bar>fl x\<bar> \<le> 2 ^ 60" by (simp add: fl_minus abs_le_iff)
  also have "(2 ^ 60 :: rat) < 2 ^ 1024" by (rule power_strict_increasing) auto
  finally show ?thesis by (auto simp: pyround_def Let_def abs_less_iff)
qed

lemma fl_near: "\<bar>x\<bar> \<le> 2 ^ 12 \<Longrightarrow> \<bar>fl x - x\<bar> \<le> 1 / 2 ^ 40"
proof -
  assume "\<bar>x\<bar> \<le> 2 ^ 12"
  then have "\<bar>x\<bar> / 2 ^ 53 \<le> 2 ^ 12 / 2 ^ 53" by (rule divide_right_mono) simp
  with fl_error [of x] have "\<bar>fl x - x\<bar> \<le> 2 ^ 12 / 2 ^ 53 + 1 / 2 ^ 53" by linarith
  also have "\<dots> \<le> (1 :: rat) / 2 ^ 40" by simp
  finally show ?thesis .
qed

lemma flt_irrefl [simp]: "\<not> flt a a" by (cases a) auto

lemma flt_trans: "flt a b \<Longrightarrow> flt b c \<Longrightarrow> flt a c"
  by (cases a; cases b; cases c) auto

lemma fle_Fin [simp]: "fle (Fin x) (Fin y) \<longleftrightarrow> x \<le> y" by (auto simp: fle_def)

lemma flt_fle_trans: "flt a b \<Longrightarrow> fle b c \<Longrightarrow> flt a c"
  by (auto simp: fle_def intro: flt_trans)

lemma fle_flt_trans: "fle a b \<Longrightarrow> flt b c \<Longrightarrow> flt a c"
  by (auto simp: fle_def intro: flt_trans)

lemma fle_trans: "fle a b \<Longrightarrow> fle b c \<Longrightarrow> fle a c"
  by (auto simp: fle_def intro: flt_trans)

lemma flt_asym: "flt a b \<Longrightarrow> \<not> fle b a"
  using fle_flt_trans by fastforce

lemma pyround_mono: "x \<le> y \<Longrightarrow> fle (pyround x) (pyround y)"
  using fl_mono [of x y] by (auto simp: pyround_def Let_def fle_def)

lemma fadd_mono: "s \<le> t \<Longrightarrow> x \<le> y \<Longrightarrow> fle (fadd (Fin s) (Fin x)) (fadd (Fin t) (Fin y))"
  by (simp add: pyround_mono)

lemma pyround_not_NaN [simp]: "pyround x \<noteq> NaN" by (simp add: pyround_def Let_def)

end
