(* ===== verification/Prelude.thy ===== *)
theory Prelude
  imports Main "HOL-Library.Word" "HOL-Library.Monad_Syntax"
begin

text \<open>
  Shared ground of the development: the C integer types of the firmware as
  machine words, byte buffers with bounds-checked copies, the outcome of a C
  function that can step outside a buffer, and the generic lemmas on lists and
  words that the component theories rest on.
\<close>

unbundle bit_operations_syntax

type_synonym u8 = "8 word"
type_synonym u16 = "16 word"
type_synonym u32 = "32 word"

type_synonym bytes = "u8 list"

text \<open>
  Facts about bounds-checked buffer accesses (\<open>mem\<close>), about register traces
  (\<open>io\<close>) and about preserved invariants (\<open>inv\<close>) are collected here, so that
  component proofs can refer to them as a group.
\<close>

named_theorems mem_simps
named_theorems io_simps
named_theorems inv_intros

section \<open>C memory: bounds-checked buffers\<close>

text \<open>
  A C function that reads or writes outside a buffer has no defined meaning.
  The model returns \<open>Inl OutOfBounds\<close> there (\<open>Inl NullPointer\<close> where a null
  pointer is followed), and every caller passes it on.
\<close>

datatype fault = OutOfBounds | NullPointer

definition load :: "'a list \<Rightarrow> nat \<Rightarrow> fault + 'a" where
  "load b i = (if i < length b then Inr (b ! i) else Inl OutOfBounds)"

definition store :: "'a list \<Rightarrow> nat \<Rightarrow> 'a \<Rightarrow> fault + 'a list" where
  "store b i v = (if i < length b then Inr (b[i := v]) else Inl OutOfBounds)"

definition memset :: "bytes \<Rightarrow> u8 \<Rightarrow> nat \<Rightarrow> fault + bytes" where
  "memset b v n = (if n \<le> length b then Inr (replicate n v @ drop n b) else Inl OutOfBounds)"

text \<open>\<open>memcpy (&dst[off], src, n)\<close>.\<close>

definition memcpy :: "bytes \<Rightarrow> nat \<Rightarrow> bytes \<Rightarrow> nat \<Rightarrow> fault + bytes" where
  "memcpy dst off src n =
     (if off + n \<le> length dst \<and> n \<le> length src
      then Inr (take off dst @ take n src @ drop (off + n) dst)
      else Inl OutOfBounds)"

text \<open>Sequencing: the first fault ends the computation.\<close>

definition fbind :: "fault + 'a \<Rightarrow> ('a \<Rightarrow> fault + 'b) \<Rightarrow> fault + 'b" where
  "fbind r f = (case r of Inl e \<Rightarrow> Inl e | Inr x \<Rightarrow> f x)"

lemma fbind_Inl [simp]: "fbind (Inl e) f = Inl e"
  by (simp add: fbind_def)

lemma fbind_Inr [simp]: "fbind (Inr x) f = f x"
  by (simp add: fbind_def)

lemma fbind_eq_Inr: "fbind r f = Inr y \<longleftrightarrow> (\<exists>x. r = Inr x \<and> f x = Inr y)"
  by (cases r) auto

lemma fbind_assoc: "fbind (fbind m f) g = fbind m (\<lambda>x. fbind (f x) g)"
  by (cases m) auto

text \<open>Running a function over a list of inputs, up to the first fault.\<close>

fun frun :: "('k \<Rightarrow> 's \<Rightarrow> fault + 's) \<Rightarrow> 'k list \<Rightarrow> 's \<Rightarrow> fault + 's" where
  "frun f [] s = Inr s"
| "frun f (k # ks) s = fbind (f k s) (frun f ks)"

text \<open>
  A function that may also wait forever: \<open>None\<close> if it does, a fault or a result
  otherwise.
\<close>

type_synonym 'a outcome = "(fault + 'a) option"

definition obind :: "'a outcome \<Rightarrow> ('a \<Rightarrow> 'b outcome) \<Rightarrow> 'b outcome" where
  "obind m f = (case m of None \<Rightarrow> None | Some (Inl e) \<Rightarrow> Some (Inl e) | Some (Inr x) \<Rightarrow> f x)"

definition returns :: "'a option \<Rightarrow> 'a outcome" where
  "returns m = map_option Inr m"

lemma obind_simps [simp]:
  "obind None f = None" "obind (Some (Inl e)) f = Some (Inl e)" "obind (Some (Inr x)) f = f x"
  by (simp_all add: obind_def)

lemma obind_eq_Some:
  "obind m f = Some r \<longleftrightarrow>
   (\<exists>e. m = Some (Inl e) \<and> r = Inl e) \<or> (\<exists>x. m = Some (Inr x) \<and> f x = Some r)"
  by (auto simp: obind_def split: option.splits sum.splits)

lemma returns_simps [simp]: "returns None = None" "returns (Some x) = Some (Inr x)"
  by (simp_all add: returns_def)

lemma returns_eq_Some: "returns m = Some r \<longleftrightarrow> (\<exists>x. m = Some x \<and> r = Inr x)"
  by (auto simp: returns_def)

lemma load_in [mem_simps]: "i < length b \<Longrightarrow> load b i = Inr (b ! i)"
  by (simp add: load_def)

lemma store_in [mem_simps]: "i < length b \<Longrightarrow> store b i v = Inr (b[i := v])"
  by (simp add: store_def)

lemma memset_in [mem_simps]:
  "n \<le> length b \<Longrightarrow> memset b v n = Inr (replicate n v @ drop n b)"
  by (simp add: memset_def)

lemma memset_all [mem_simps]: "n = length b \<Longrightarrow> memset b v n = Inr (replicate n v)"
  by (simp add: memset_def)

lemma memcpy_in [mem_simps]:
  "off + n \<le> length dst \<Longrightarrow> n \<le> length src \<Longrightarrow>
   memcpy dst off src n = Inr (take off dst @ take n src @ drop (off + n) dst)"
  by (simp add: memcpy_def)

lemma memcpy_zero [mem_simps]: "off \<le> length dst \<Longrightarrow> memcpy dst off src 0 = Inr dst"
  by (simp add: memcpy_def)

lemma memcpy_fault:
  "memcpy dst off src n = Inl OutOfBounds \<longleftrightarrow> length dst < off + n \<or> length src < n"
  by (auto simp: memcpy_def)

lemma length_store: "store b i v = Inr b' \<Longrightarrow> length b' = length b"
  by (auto simp: store_def split: if_splits)

lemma length_memset: "memset b v n = Inr b' \<Longrightarrow> length b' = length b"
  by (auto simp: memset_def split: if_splits)

lemma length_memcpy: "memcpy dst off src n = Inr b' \<Longrightarrow> length b' = length dst"
  by (auto simp: memcpy_def split: if_splits)

section \<open>Bits and bytes\<close>

text \<open>A byte from its bits, least significant first, as avr-gcc lays out one-bit fields.\<close>

definition byte_of_bits :: "bool list \<Rightarrow> u8" where
  "byte_of_bits bs = horner_sum of_bool 2 bs"

lemma bit_byte_of_bits: "bit (byte_of_bits bs) n \<longleftrightarrow> n < 8 \<and> n < length bs \<and> bs ! n"
  by (simp add: byte_of_bits_def bit_horner_sum_bit_word_iff)

text \<open>Little-endian bytes of a 16-bit value.\<close>

definition le16 :: "u16 \<Rightarrow> bytes" where
  "le16 w = [ucast w, ucast (drop_bit 8 w)]"

definition join16 :: "u8 \<Rightarrow> u8 \<Rightarrow> u16" where
  "join16 hi lo = push_bit 8 (ucast hi) OR ucast lo"

lemma bit_join16:
  "bit (join16 hi lo) n \<longleftrightarrow> (if n < 8 then bit lo n else n < 16 \<and> bit hi (n - 8))"
  by (auto simp: join16_def bit_simps dest: bit_imp_le_length)

lemma join16_le16: "join16 (ucast (drop_bit 8 w)) (ucast w) = w"
  by (rule bit_word_eqI) (auto simp: bit_join16 bit_simps)

lemma le16_join16: "le16 (join16 hi lo) = [lo, hi]"
  by (auto simp: le16_def bit_eq_iff bit_join16 bit_simps dest: bit_imp_le_length)

lemma mask_255: "(0xFF :: u16) = mask 8"
  by (simp add: mask_eq_exp_minus_1)

lemma low_byte [simp]: "ucast (w AND 0xFF :: u16) = (ucast w :: u8)"
  by (rule bit_word_eqI) (auto simp: mask_255 bit_simps)

lemma unat_u8: "unat (b :: u8) < 256"
  by (rule order_less_le_trans [OF unsigned_less]) simp

lemma length_le16 [simp]: "length (le16 w) = 2"
  by (simp add: le16_def)

end
