(* ===== verification/Python.thy ===== *)
theory Python
  imports PyFloat Prelude
begin

text \<open>
  What the Python programs use of their language: exceptions, loops that may not end,
  and operations on texts. Texts are lists of characters with the first 256 code
  points.
\<close>

section \<open>Computations\<close>

text \<open>
  A computation on a state \<open>'s\<close> returns or raises, and keeps the state in both cases;
  \<open>None\<close> is a computation that does not come to an end.
\<close>

datatype pyexc =
    AttributeError | ImportError | IndexError | KeyboardInterrupt | KeyError | OSError | OverflowError
  | RuntimeError | SerialException | SystemExit | TypeError | ValueError

type_synonym ('a, 's) py = "'s \<Rightarrow> ((pyexc + 'a) \<times> 's) option"

definition pret :: "'a \<Rightarrow> ('a, 's) py" where
  "pret x s = Some (Inr x, s)"

definition praise :: "pyexc \<Rightarrow> ('a, 's) py" where
  "praise e s = Some (Inl e, s)"

definition pbind :: "('a, 's) py \<Rightarrow> ('a \<Rightarrow> ('b, 's) py) \<Rightarrow> ('b, 's) py" where
  "pbind m f s =
     (case m s of
        None \<Rightarrow> None
      | Some (Inl e, s) \<Rightarrow> Some (Inl e, s)
      | Some (Inr x, s) \<Rightarrow> f x s)"

definition pget :: "('s \<Rightarrow> 'a) \<Rightarrow> ('a, 's) py" where
  "pget f s = Some (Inr (f s), s)"

definition pmod :: "('s \<Rightarrow> 's) \<Rightarrow> (unit, 's) py" where
  "pmod f s = Some (Inr (), f s)"

text \<open>A value that may be an exception, \<open>if\<close> without \<open>else\<close>, and \<open>try ... except\<close>.\<close>

definition plift :: "pyexc + 'a \<Rightarrow> ('a, 's) py" where
  "plift r s = Some (r, s)"

definition pwhen :: "bool \<Rightarrow> (unit, 's) py \<Rightarrow> (unit, 's) py" where
  "pwhen c m = (if c then m else pret ())"

definition pcatch :: "(pyexc \<Rightarrow> bool) \<Rightarrow> ('a, 's) py \<Rightarrow> ('a, 's) py \<Rightarrow> ('a, 's) py" where
  "pcatch caught m h s =
     (case m s of
        Some (Inl e, s) \<Rightarrow> if caught e then h s else Some (Inl e, s)
      | r \<Rightarrow> r)"

text \<open>What \<open>except Exception\<close> catches, and \<open>try ... finally\<close>.\<close>

definition is_Exception :: "pyexc \<Rightarrow> bool" where
  "is_Exception e \<longleftrightarrow> e \<noteq> SystemExit \<and> e \<noteq> KeyboardInterrupt"

definition pfinally :: "('a, 's) py \<Rightarrow> (unit, 's) py \<Rightarrow> ('a, 's) py" where
  "pfinally m f s =
     (case m s of
        None \<Rightarrow> None
      | Some (r, s) \<Rightarrow>
          (case f s of
             None \<Rightarrow> None
           | Some (Inl e, s) \<Rightarrow> Some (Inl e, s)
           | Some (Inr _, s) \<Rightarrow> Some (r, s)))"

text \<open>Loops: \<open>for\<close> over a list, and \<open>while True\<close> with a body that says whether to go on.\<close>

fun pfor :: "'a list \<Rightarrow> ('a \<Rightarrow> (unit, 's) py) \<Rightarrow> (unit, 's) py" where
  "pfor [] f = pret ()"
| "pfor (x # xs) f = pbind (f x) (\<lambda>_. pfor xs f)"

datatype 'r loop = Continue | Break 'r

partial_function (option) ploop :: "('r loop, 's) py \<Rightarrow> ('r, 's) py" where
  "ploop body s =
     (case body s of
        None \<Rightarrow> None
      | Some (Inl e, s) \<Rightarrow> Some (Inl e, s)
      | Some (Inr (Break r), s) \<Rightarrow> Some (Inr r, s)
      | Some (Inr Continue, s) \<Rightarrow> ploop body s)"

declare ploop.simps [code]

named_theorems py_simps

lemma pret_app [simp, py_simps]: "pret x s = Some (Inr x, s)" by (simp add: pret_def)
lemma praise_app [simp, py_simps]: "praise e s = Some (Inl e, s)" by (simp add: praise_def)
lemma pget_app [simp, py_simps]: "pget f s = Some (Inr (f s), s)" by (simp add: pget_def)
lemma pmod_app [simp, py_simps]: "pmod f s = Some (Inr (), f s)" by (simp add: pmod_def)
lemma plift_app [simp, py_simps]: "plift r s = Some (r, s)" by (simp add: plift_def)

lemma pbind_eq:
  "pbind m f s = Some (r, t) \<longleftrightarrow>
     (\<exists>x u. m s = Some (Inr x, u) \<and> f x u = Some (r, t)) \<or> (\<exists>e. m s = Some (Inl e, t) \<and> r = Inl e)"
  by (auto simp: pbind_def split: option.splits sum.splits)

lemma pbind_Inr: "m s = Some (Inr x, t) \<Longrightarrow> pbind m f s = f x t"
  by (simp add: pbind_def)

lemma pbind_Inl: "m s = Some (Inl e, t) \<Longrightarrow> pbind m f s = Some (Inl e, t)"
  by (simp add: pbind_def)

lemma pbind_pret [simp, py_simps]: "pbind (pret x) f = f x" by (rule ext) (simp add: pbind_def)
lemma pbind_praise [simp, py_simps]: "pbind (praise e) f = praise e" by (rule ext) (simp add: pbind_def)

lemma pbind_assoc: "pbind (pbind m f) g = pbind m (\<lambda>x. pbind (f x) g)"
  by (rule ext) (auto simp: pbind_def split: option.splits sum.splits)

lemma pbind_basic [simp, py_simps]:
  "pbind (pget h) f s = f (h s) s" "pbind (pmod k) g s = g () (k s)"
  by (simp_all add: pbind_def)

text \<open>The state after a computation, whether it returned or raised.\<close>

definition leads :: "('a, 's) py \<Rightarrow> 's \<Rightarrow> 's \<Rightarrow> bool" where
  "leads m s t \<longleftrightarrow> (\<exists>r. m s = Some (r, t))"

lemma leads_pbind:
  "leads (pbind m f) s t \<longleftrightarrow> (\<exists>x u. m s = Some (Inr x, u) \<and> leads (f x) u t) \<or> (\<exists>e. m s = Some (Inl e, t))"
  by (auto simp: leads_def pbind_eq)

text \<open>A computation keeps a predicate on the state.\<close>

definition keeps :: "('s \<Rightarrow> bool) \<Rightarrow> ('a, 's) py \<Rightarrow> bool" where
  "keeps P m \<longleftrightarrow> (\<forall>s r t. P s \<longrightarrow> m s = Some (r, t) \<longrightarrow> P t)"

named_theorems keeps_intros

lemma keepsI: "(\<And>s r t. P s \<Longrightarrow> m s = Some (r, t) \<Longrightarrow> P t) \<Longrightarrow> keeps P m"
  by (auto simp: keeps_def)

lemma keepsD: "keeps P m \<Longrightarrow> P s \<Longrightarrow> m s = Some (r, t) \<Longrightarrow> P t"
  by (auto simp: keeps_def)

lemma keeps_basic [simp, keeps_intros]:
  "keeps P (pret x)" "keeps P (praise e)" "keeps P (pget f)" "keeps P (plift r)"
  by (auto simp: keeps_def)

lemma keeps_pbind [keeps_intros]: "keeps P m \<Longrightarrow> (\<And>x. keeps P (f x)) \<Longrightarrow> keeps P (pbind m f)"
  unfolding keeps_def pbind_eq by blast

lemma keeps_pmod [keeps_intros]: "(\<And>s. P s \<Longrightarrow> P (f s)) \<Longrightarrow> keeps P (pmod f)"
  by (auto simp: keeps_def)

lemma keeps_if [keeps_intros]: "(c \<Longrightarrow> keeps P m) \<Longrightarrow> (\<not> c \<Longrightarrow> keeps P n) \<Longrightarrow> keeps P (if c then m else n)"
  by auto

lemma keeps_pwhen [keeps_intros]: "(c \<Longrightarrow> keeps P m) \<Longrightarrow> keeps P (pwhen c m)"
  by (auto simp: pwhen_def)

lemma keeps_pfor [keeps_intros]: "(\<And>x. x \<in> set xs \<Longrightarrow> keeps P (f x)) \<Longrightarrow> keeps P (pfor xs f)"
  by (induction xs) (auto intro!: keeps_intros)

lemma keeps_pcatch [keeps_intros]: "keeps P m \<Longrightarrow> keeps P h \<Longrightarrow> keeps P (pcatch c m h)"
proof (rule keepsI)
  fix s r t
  assume m: "keeps P m" and h: "keeps P h" and s: "P s" and run: "pcatch c m h s = Some (r, t)"
  then obtain q u where q: "m s = Some (q, u)" by (cases "m s") (auto simp: pcatch_def)
  from keepsD [OF m s q] have "P u" .
  with run q show "P t" by (cases q) (auto simp: pcatch_def dest: keepsD [OF h] split: if_splits)
qed

lemma pfinally_eq:
  "pfinally m f s = Some (r, t) \<longleftrightarrow>
     (\<exists>q u. m s = Some (q, u) \<and>
        ((\<exists>e. f u = Some (Inl e, t) \<and> r = Inl e) \<or> f u = Some (Inr (), t) \<and> r = q))"
  by (auto simp: pfinally_def split: option.splits sum.splits)

lemma keeps_pfinally [keeps_intros]: "keeps P m \<Longrightarrow> keeps P f \<Longrightarrow> keeps P (pfinally m f)"
  unfolding keeps_def pfinally_eq by blast

lemma ploop_rule:
  assumes "ploop body s = Some (r, t)" "P s"
    and "\<And>s t. P s \<Longrightarrow> body s = Some (Inr Continue, t) \<Longrightarrow> P t"
    and "\<And>s x t. P s \<Longrightarrow> body s = Some (Inr (Break x), t) \<Longrightarrow> Q (Inr x) t"
    and "\<And>s e t. P s \<Longrightarrow> body s = Some (Inl e, t) \<Longrightarrow> Q (Inl e) t"
  shows "Q r t"
proof -
  have "b = body \<longrightarrow> P s \<longrightarrow> Q (fst y) (snd y)" if "ploop b s = Some y" for b s y
  proof (rule ploop.raw_induct [OF _ that, where P = "\<lambda>b s y. b = body \<longrightarrow> P s \<longrightarrow> Q (fst y) (snd y)"], intro impI)
    fix lp b s y
    assume IH: "\<And>b s y. lp b s = Some y \<Longrightarrow> b = body \<longrightarrow> P s \<longrightarrow> Q (fst y) (snd y)"
      and run: "(case b s of
        None \<Rightarrow> None
      | Some (Inl e, s) \<Rightarrow> Some (Inl e, s)
      | Some (Inr (Break r), s) \<Rightarrow> Some (Inr r, s)
      | Some (Inr Continue, s) \<Rightarrow> lp b s) = Some y"
      and b: "b = body" and s: "P s"
    show "Q (fst y) (snd y)"
      using run assms(3) [OF s] assms(4,5) [OF s] IH [of body] unfolding b
      by (auto split: option.split_asm sum.split_asm loop.split_asm prod.split_asm)
  qed
  from this [OF assms(1)] assms(2) show ?thesis by simp
qed

lemma keeps_ploop [keeps_intros]: "keeps P body \<Longrightarrow> keeps P (ploop body)"
proof (rule keepsI)
  fix s r t
  assume b: "keeps P body" and "P s" "ploop body s = Some (r, t)"
  from this(3,2) show "P t"
    by (rule ploop_rule [where P = P and Q = "\<lambda>_. P"]) (auto dest: keepsD [OF b])
qed

text \<open>A computation returns, from states with \<open>P\<close>, with a result and a state that satisfy \<open>Q\<close>.\<close>

definition yields :: "('s \<Rightarrow> bool) \<Rightarrow> ('a, 's) py \<Rightarrow> ('a \<Rightarrow> 's \<Rightarrow> bool) \<Rightarrow> bool" where
  "yields P m Q \<longleftrightarrow> (\<forall>s. P s \<longrightarrow> (\<exists>x t. m s = Some (Inr x, t) \<and> Q x t))"

named_theorems yields_intros

lemma yieldsI: "(\<And>s. P s \<Longrightarrow> \<exists>x t. m s = Some (Inr x, t) \<and> Q x t) \<Longrightarrow> yields P m Q"
  by (simp add: yields_def)

lemma yieldsE:
  assumes "yields P m Q" "P s"
  obtains x t where "m s = Some (Inr x, t)" "Q x t"
  using assms unfolding yields_def by blast

lemma yields_pret [yields_intros]: "(\<And>s. P s \<Longrightarrow> Q x s) \<Longrightarrow> yields P (pret x) Q"
  by (simp add: yields_def)

lemma yields_pbind [yields_intros]:
  assumes "yields P m R" "\<And>x. yields (R x) (f x) Q"
  shows "yields P (pbind m f) Q"
proof (rule yieldsI)
  fix s assume "P s"
  with assms(1) obtain x t where m: "m s = Some (Inr x, t)" "R x t" by (rule yieldsE)
  from assms(2) this(2) obtain y u where "f x t = Some (Inr y, u)" "Q y u" by (rule yieldsE)
  with m(1) show "\<exists>y u. pbind m f s = Some (Inr y, u) \<and> Q y u" by (simp add: pbind_Inr)
qed

lemma yields_if [yields_intros]: "(c \<Longrightarrow> yields P m Q) \<Longrightarrow> (\<not> c \<Longrightarrow> yields P n Q) \<Longrightarrow> yields P (if c then m else n) Q"
  by simp

lemma yields_pure: "(\<And>s. P s \<Longrightarrow> C) \<Longrightarrow> (C \<Longrightarrow> yields P m Q) \<Longrightarrow> yields P m Q"
  unfolding yields_def by blast

lemma yields_weaken: "yields P m Q \<Longrightarrow> (\<And>s. P' s \<Longrightarrow> P s) \<Longrightarrow> (\<And>x s. Q x s \<Longrightarrow> Q' x s) \<Longrightarrow> yields P' m Q'"
  unfolding yields_def by blast

section \<open>Texts\<close>

definition char_code :: "char \<Rightarrow> nat" where
  "char_code c = of_char c"

definition is_space :: "char \<Rightarrow> bool" where
  "is_space c \<longleftrightarrow> (let n = char_code c in 9 \<le> n \<and> n \<le> 13 \<or> 28 \<le> n \<and> n \<le> 32 \<or> n = 133 \<or> n = 160)"

definition lower_char :: "char \<Rightarrow> char" where
  "lower_char c =
     (let n = char_code c in
      if 65 \<le> n \<and> n \<le> 90 \<or> 192 \<le> n \<and> n \<le> 222 \<and> n \<noteq> 215 then char_of (n + 32) else c)"

definition lower :: "string \<Rightarrow> string" where
  "lower = map lower_char"

definition strip_if :: "(char \<Rightarrow> bool) \<Rightarrow> string \<Rightarrow> string" where
  "strip_if p s = rev (dropWhile p (rev (dropWhile p s)))"

definition strip :: "string \<Rightarrow> string" where
  "strip = strip_if is_space"

definition startswith :: "string \<Rightarrow> string \<Rightarrow> bool" where
  "startswith p s \<longleftrightarrow> take (length p) s = p"

text \<open>\<open>pat in s\<close>, \<open>s.replace(c, d)\<close> for characters, \<open>s.split()\<close>, \<open>s.split(c)\<close> and \<open>s.split(c, 1)\<close>.\<close>

fun contains :: "string \<Rightarrow> string \<Rightarrow> bool" where
  "contains pat [] \<longleftrightarrow> pat = []"
| "contains pat (c # s) \<longleftrightarrow> startswith pat (c # s) \<or> contains pat s"

definition replace_char :: "char \<Rightarrow> char \<Rightarrow> string \<Rightarrow> string" where
  "replace_char c d = map (\<lambda>x. if x = c then d else x)"

fun split_words :: "string \<Rightarrow> string \<Rightarrow> string list" where
  "split_words w [] = (if w = [] then [] else [w])"
| "split_words w (c # s) =
     (if is_space c then (if w = [] then split_words [] s else w # split_words [] s)
      else split_words (w @ [c]) s)"

definition split_space :: "string \<Rightarrow> string list" where
  "split_space = split_words []"

fun split_on :: "char \<Rightarrow> string \<Rightarrow> string list" where
  "split_on c [] = [[]]"
| "split_on c (x # s) =
     (if x = c then [] # split_on c s
      else case split_on c s of [] \<Rightarrow> [[x]] | w # ws \<Rightarrow> (x # w) # ws)"

definition split_once :: "char \<Rightarrow> string \<Rightarrow> string \<times> string" where
  "split_once c s = (takeWhile (\<lambda>x. x \<noteq> c) s, tl (dropWhile (\<lambda>x. x \<noteq> c) s))"

text \<open>\<open>s.splitlines()\<close>; the separators with code points below 256.\<close>

definition is_line_end :: "char \<Rightarrow> bool" where
  "is_line_end c \<longleftrightarrow> (let n = char_code c in 10 \<le> n \<and> n \<le> 13 \<or> 28 \<le> n \<and> n \<le> 30 \<or> n = 133)"

fun lines_from :: "string \<Rightarrow> string \<Rightarrow> string list" where
  "lines_from w [] = (if w = [] then [] else [w])"
| "lines_from w (c # s) =
     (if is_line_end c
      then w # lines_from [] (if char_code c = 13 \<and> s \<noteq> [] \<and> char_code (hd s) = 10 then tl s else s)
      else lines_from (w @ [c]) s)"

definition splitlines :: "string \<Rightarrow> string list" where
  "splitlines = lines_from []"

section \<open>Numbers in texts\<close>

text \<open>
  Digits with single underscores between them, as \<open>int\<close> and \<open>float\<close> read them: the value
  and the number of digits, with the rest of the text.
\<close>

definition is_digit :: "char \<Rightarrow> bool" where
  "is_digit c \<longleftrightarrow> 48 \<le> char_code c \<and> char_code c \<le> 57"

fun digits :: "int \<Rightarrow> nat \<Rightarrow> string \<Rightarrow> int \<times> nat \<times> string" where
  "digits v n [] = (v, n, [])"
| "digits v n (c # s) =
     (if is_digit c then digits (10 * v + int (char_code c) - 48) (n + 1) s
      else if char_code c = 95 \<and> 0 < n \<and> s \<noteq> [] \<and> is_digit (hd s) then digits v n s
      else (v, n, c # s))"

definition sign :: "string \<Rightarrow> int \<times> string" where
  "sign s = (case s of c # r \<Rightarrow> if char_code c = 45 then (- 1, r) else if char_code c = 43 then (1, r) else (1, s) | [] \<Rightarrow> (1, s))"

definition int_of_str :: "string \<Rightarrow> pyexc + int" where
  "int_of_str s =
     (let (sg, r) = sign (strip s); (v, n, rest) = digits 0 0 r in
      if n = 0 \<or> rest \<noteq> [] then Inl ValueError else Inr (sg * v))"

text \<open>\<open>float(s)\<close>: a decimal number, \<open>inf\<close>, \<open>infinity\<close> or \<open>nan\<close>.\<close>

definition exponent :: "string \<Rightarrow> (int \<times> string) option" where
  "exponent s =
     (case s of
        [] \<Rightarrow> Some (0, [])
      | c # r \<Rightarrow>
          if lower_char c \<noteq> CHR ''e'' then Some (0, s)
          else let (sg, r) = sign r; (v, n, rest) = digits 0 0 r in
               if n = 0 then None else Some (sg * v, rest))"

definition float_of_str :: "string \<Rightarrow> pyexc + pyfloat" where
  "float_of_str s =
     (let (sg, r) = sign (strip s) in
      if lower r = ''inf'' \<or> lower r = ''infinity'' then Inr (if sg < 0 then NInf else PInf)
      else if lower r = ''nan'' then Inr NaN
      else
        let (v, n, rest) = digits 0 0 r;
            (v, m, rest) =
              (case rest of
                 c # r' \<Rightarrow> if c = CHR ''.'' then
                     (if r' \<noteq> [] \<and> is_digit (hd r') then let (w, k, r') = digits v 0 r' in (w, k, r') else (v, 0, r'))
                   else (v, 0, rest)
               | [] \<Rightarrow> (v, 0, rest))
        in if n = 0 \<and> m = 0 then Inl ValueError
           else case exponent rest of
             Some (e, []) \<Rightarrow> Inr (pyround (of_int (sg * v) * 10 powi (e - int m)))
           | _ \<Rightarrow> Inl ValueError)"

end
