(* ===== verification/SocketPad.thy ===== *)
theory SocketPad
  imports Python "HOL-Library.AList"
begin

text \<open>
  The socket backend of the bridge (class \<open>PadSocket\<close> of \<open>xinput2serial.py\<close>): other
  programs, such as the Discord bot, send lines of JSON that press buttons for a while.
  Server threads apply the events, the bridge asks for the state of the pad. The socket
  itself is not modelled: its operations get the bytes received. \<open>json.loads\<close>, the
  decoding of UTF-8 and the text of numbers and containers are parameters. A dict is the
  list of its items in the order of insertion.
\<close>

datatype json =
    JNull | JBool bool | JInt int | JFloat pyfloat | JStr string
  | JList "json list" | JDict "(string \<times> json) list"

definition SOCKET_BUTTONS :: "(string \<times> int) list" where
  "SOCKET_BUTTONS =
     [(''b'', 0), (''a'', 1), (''y'', 2), (''x'', 3), (''l'', 4), (''r'', 5), (''minus'', 6),
      (''select'', 6), (''back'', 6), (''plus'', 7), (''start'', 7), (''lclick'', 9), (''ls'', 9),
      (''rclick'', 10), (''rs'', 10)]"

definition SOCKET_EXTRA_BITS :: "(string \<times> int) list" where
  "SOCKET_EXTRA_BITS =
     [(''home'', push_bit 12 1), (''capture'', push_bit 13 1), (''screenshot'', push_bit 13 1)]"

definition SOCKET_TRIGGER_AXES :: "(string \<times> int) list" where
  "SOCKET_TRIGGER_AXES = [(''zl'', 2), (''lt'', 2), (''zr'', 5), (''rt'', 5)]"

definition SOCKET_DPAD :: "(string \<times> int \<times> int) list" where
  "SOCKET_DPAD =
     [(''up'', 0, 1), (''u'', 0, 1), (''down'', 0, - 1), (''d'', 0, - 1), (''right'', 1, 0),
      (''r'', 1, 0), (''left'', - 1, 0), (''l'', - 1, 0), (''up-right'', 1, 1), (''upright'', 1, 1),
      (''ur'', 1, 1), (''up-left'', - 1, 1), (''upleft'', - 1, 1), (''ul'', - 1, 1),
      (''down-right'', 1, - 1), (''downright'', 1, - 1), (''dr'', 1, - 1), (''down-left'', - 1, - 1),
      (''downleft'', - 1, - 1), (''dl'', - 1, - 1)]"

record socket_pad =
  button_until :: "(int \<times> pyfloat) list"
  extra_until :: "(int \<times> pyfloat) list"
  axis_until :: "(int \<times> pyfloat \<times> pyfloat) list"
  hat_until :: pyfloat
  hat_value :: "int \<times> int"
  active_peers :: int
  total_connections :: int
  total_events :: int
  last_peer :: string
  last_event :: string
  last_event_at :: string
  running :: bool

definition PadSocket_init :: socket_pad where
  "PadSocket_init =
     \<lparr>button_until = [], extra_until = [], axis_until = [], hat_until = Fin 0, hat_value = (0, 0),
      active_peers = 0, total_connections = 0, total_events = 0, last_peer = '''', last_event = '''',
      last_event_at = '''', running = True\<rparr>"

section \<open>The state of the pad\<close>

text \<open>Every call of \<open>time.time()\<close> gives its own value.\<close>

definition socket_expire :: "pyfloat \<Rightarrow> socket_pad \<Rightarrow> socket_pad" where
  "socket_expire now p =
     p\<lparr>button_until := filter (\<lambda>(k, v). flt now v) (button_until p),
       extra_until := filter (\<lambda>(k, v). flt now v) (extra_until p),
       axis_until := filter (\<lambda>(k, v). flt now (snd v)) (axis_until p),
       hat_value := if fle (hat_until p) now then (0, 0) else hat_value p\<rparr>"

definition socket_btn :: "pyfloat \<Rightarrow> pyfloat \<Rightarrow> int \<Rightarrow> socket_pad \<Rightarrow> bool \<times> socket_pad" where
  "socket_btn t1 t2 i p =
     (let p = socket_expire t1 p in
      (flt t2 (case map_of (button_until p) i of Some v \<Rightarrow> v | None \<Rightarrow> Fin 0), p))"

definition socket_extra_buttons :: "pyfloat \<Rightarrow> pyfloat \<Rightarrow> socket_pad \<Rightarrow> int \<times> socket_pad" where
  "socket_extra_buttons t1 t2 p =
     (let p = socket_expire t1 p in
      (fold (\<lambda>(m, until) bits. if flt t2 until then bits OR m else bits) (extra_until p) 0, p))"

definition socket_axis :: "pyfloat \<Rightarrow> pyfloat \<Rightarrow> int \<Rightarrow> socket_pad \<Rightarrow> pyfloat \<times> socket_pad" where
  "socket_axis t1 t2 i p =
     (let p = socket_expire t1 p;
          (v, until) = (case map_of (axis_until p) i of Some e \<Rightarrow> e | None \<Rightarrow> (Fin 0, Fin 0))
      in (if flt t2 until then v else Fin 0, p))"

definition socket_hat :: "pyfloat \<Rightarrow> pyfloat \<Rightarrow> socket_pad \<Rightarrow> (int \<times> int) \<times> socket_pad" where
  "socket_hat t1 t2 p =
     (let p = socket_expire t1 p in (if flt t2 (hat_until p) then hat_value p else (0, 0), p))"

section \<open>Events\<close>

text \<open>Truth, \<open>float\<close>, \<open>str\<close> and iteration of a JSON value.\<close>

fun truthy :: "json \<Rightarrow> bool" where
  "truthy JNull \<longleftrightarrow> False"
| "truthy (JBool b) \<longleftrightarrow> b"
| "truthy (JInt n) \<longleftrightarrow> n \<noteq> 0"
| "truthy (JFloat x) \<longleftrightarrow> x \<noteq> Fin 0"
| "truthy (JStr s) \<longleftrightarrow> s \<noteq> []"
| "truthy (JList xs) \<longleftrightarrow> xs \<noteq> []"
| "truthy (JDict kvs) \<longleftrightarrow> kvs \<noteq> []"

fun py_float :: "json \<Rightarrow> pyexc + pyfloat" where
  "py_float (JBool b) = Inr (Fin (of_bool b))"
| "py_float (JInt n) = (case pyround (of_int n) of Fin x \<Rightarrow> Inr (Fin x) | _ \<Rightarrow> Inl OverflowError)"
| "py_float (JFloat x) = Inr x"
| "py_float (JStr s) = float_of_str s"
| "py_float _ = Inl TypeError"

definition py_str :: "(json \<Rightarrow> string) \<Rightarrow> json \<Rightarrow> string" where
  "py_str repr v = (case v of JStr s \<Rightarrow> s | _ \<Rightarrow> repr v)"

fun py_iter :: "json \<Rightarrow> pyexc + json list" where
  "py_iter (JList xs) = Inr xs"
| "py_iter (JDict kvs) = Inr (map (\<lambda>(k, _). JStr k) kvs)"
| "py_iter (JStr s) = Inr (map (\<lambda>c. JStr [c]) s)"
| "py_iter _ = Inl TypeError"

text \<open>\<open>event.get(key)\<close> and \<open>event.get(key, default)\<close>, which only a dict has.\<close>

fun py_get :: "json \<Rightarrow> string \<Rightarrow> json \<Rightarrow> pyexc + json" where
  "py_get (JDict kvs) k d = Inr (case map_of kvs k of Some v \<Rightarrow> v | None \<Rightarrow> d)"
| "py_get _ k d = Inl AttributeError"

definition clamp_axis :: "json \<Rightarrow> pyexc + pyfloat" where
  "clamp_axis v =
     (case py_float v of
        Inr x \<Rightarrow> Inr (py_max (Fin (- 1)) (py_min (Fin 1) x))
      | Inl e \<Rightarrow> if e = TypeError \<or> e = ValueError then Inr (Fin 0) else Inl e)"

definition apply_command :: "string \<Rightarrow> pyfloat \<Rightarrow> socket_pad \<Rightarrow> socket_pad" where
  "apply_command command until p =
     (let name = replace_char CHR '' '' CHR ''-'' (lower (strip command)) in
      case map_of SOCKET_DPAD name of
        Some d \<Rightarrow> p\<lparr>hat_value := d, hat_until := until\<rparr>
      | None \<Rightarrow>
      case map_of SOCKET_BUTTONS name of
        Some b \<Rightarrow> p\<lparr>button_until := AList.update b until (button_until p)\<rparr>
      | None \<Rightarrow>
      case map_of SOCKET_EXTRA_BITS name of
        Some m \<Rightarrow> p\<lparr>extra_until := AList.update m until (extra_until p)\<rparr>
      | None \<Rightarrow>
      case map_of SOCKET_TRIGGER_AXES name of
        Some a \<Rightarrow> p\<lparr>axis_until := AList.update a (Fin 1, until) (axis_until p)\<rparr>
      | None \<Rightarrow> p)"

text \<open>The commands of an event: three keys with one command, two with a list of them.\<close>

definition single_command :: "(json \<Rightarrow> string) \<Rightarrow> json \<Rightarrow> string \<Rightarrow> (string list, 's) py" where
  "single_command repr event key =
     pbind (plift (py_get event key JNull)) (\<lambda>v.
     pret (if truthy v then [py_str repr v] else []))"

definition many_commands :: "(json \<Rightarrow> string) \<Rightarrow> json \<Rightarrow> string \<Rightarrow> (string list, 's) py" where
  "many_commands repr event key =
     pbind (plift (py_get event key JNull)) (\<lambda>v.
     let values = (if truthy v then v else JList []) in
     case values of
       JStr s \<Rightarrow> pret [s]
     | _ \<Rightarrow> pbind (plift (py_iter values)) (\<lambda>vs. pret (map (py_str repr) vs)))"

definition event_commands :: "(json \<Rightarrow> string) \<Rightarrow> json \<Rightarrow> (string list, 's) py" where
  "event_commands repr event =
     pbind (single_command repr event ''command'') (\<lambda>c1.
     pbind (single_command repr event ''button'') (\<lambda>c2.
     pbind (single_command repr event ''dpad'') (\<lambda>c3.
     pbind (many_commands repr event ''buttons'') (\<lambda>c4.
     pbind (many_commands repr event ''commands'') (\<lambda>c5.
     pret (c1 @ c2 @ c3 @ c4 @ c5))))))"

text \<open>\<open>if isinstance(stick, dict): ...\<close> for one of the sticks, with the numbers of its axes.\<close>

definition set_stick :: "int \<Rightarrow> int \<Rightarrow> json \<Rightarrow> pyfloat \<Rightarrow> (unit, socket_pad) py" where
  "set_stick ax ay stick until =
     (case stick of
        JDict _ \<Rightarrow>
          pbind (plift (py_get stick ''x'' (JInt 0))) (\<lambda>x.
          pbind (plift (clamp_axis x)) (\<lambda>x.
          pbind (pmod (\<lambda>p. p\<lparr>axis_until := AList.update ax (x, until) (axis_until p)\<rparr>)) (\<lambda>_.
          pbind (plift (py_get stick ''y'' (JInt 0))) (\<lambda>y.
          pbind (plift (clamp_axis y)) (\<lambda>y.
          pmod (\<lambda>p. p\<lparr>axis_until := AList.update ay (y, until) (axis_until p)\<rparr>))))))
      | _ \<Rightarrow> pret ())"

definition has_key :: "json \<Rightarrow> string \<Rightarrow> bool" where
  "has_key event k \<longleftrightarrow> (case event of JDict kvs \<Rightarrow> map_of kvs k \<noteq> None | _ \<Rightarrow> False)"

text \<open>The short form with \<open>stick\<close>, \<open>x\<close> and \<open>y\<close> replaces the stick that it names.\<close>

definition event_sticks :: "(json \<Rightarrow> string) \<Rightarrow> json \<Rightarrow> (json \<times> json, 's) py" where
  "event_sticks repr event =
     pbind (plift (py_get event ''left'' JNull)) (\<lambda>left.
     pbind (plift (py_get event ''right'' JNull)) (\<lambda>right.
     pbind (plift (py_get event ''stick'' JNull)) (\<lambda>st.
     if truthy st \<and> (has_key event ''x'' \<or> has_key event ''y'') then
       pbind (plift (py_get event ''x'' (JInt 0))) (\<lambda>x.
       pbind (plift (py_get event ''y'' (JInt 0))) (\<lambda>y.
       let stick = lower (py_str repr st); target = JDict [(''x'', x), (''y'', y)] in
       pret (if stick = ''left'' \<or> stick = ''l'' then (target, right)
             else if stick = ''right'' \<or> stick = ''r'' then (left, target)
             else (left, right))))
     else pret (left, right))))"

definition event_duration :: "json \<Rightarrow> pyexc + pyfloat" where
  "event_duration event =
     (case py_get event ''duration'' (JFloat (pyround (2 / 10))) of
        Inl e \<Rightarrow> Inl e
      | Inr d \<Rightarrow>
          (case py_float d of
             Inl e \<Rightarrow> Inl e
           | Inr x \<Rightarrow> Inr (py_max (pyround (1 / 100)) (py_min x (Fin 5)))))"

definition apply_event :: "(json \<Rightarrow> string) \<Rightarrow> pyfloat \<Rightarrow> json \<Rightarrow> (unit, socket_pad) py" where
  "apply_event repr now event =
     pbind (plift (event_duration event)) (\<lambda>duration.
     let until = fadd now duration in
     pbind (event_commands repr event) (\<lambda>commands.
     pbind (pfor commands (\<lambda>c. pmod (apply_command c until))) (\<lambda>_.
     pbind (event_sticks repr event) (\<lambda>(left, right).
     pbind (set_stick 0 1 left until) (\<lambda>_.
     set_stick 3 4 right until)))))"

section \<open>The server\<close>

text \<open>A new connection, in the loop of \<open>_serve\<close>.\<close>

definition serve_accept :: "string \<Rightarrow> socket_pad \<Rightarrow> socket_pad" where
  "serve_accept peer p =
     p\<lparr>active_peers := active_peers p + 1, total_connections := total_connections p + 1, last_peer := peer\<rparr>"

text \<open>\<open>event.get(k1) or event.get(k2) or ... or "input"\<close>.\<close>

fun first_truthy :: "json \<Rightarrow> string list \<Rightarrow> (json, 's) py" where
  "first_truthy event [] = pret (JStr ''input'')"
| "first_truthy event (k # ks) =
     pbind (plift (py_get event k JNull)) (\<lambda>v. if truthy v then pret v else first_truthy event ks)"

definition handle_line ::
  "(string \<Rightarrow> json option) \<Rightarrow> (json \<Rightarrow> string) \<Rightarrow> (int \<Rightarrow> pyfloat) \<Rightarrow> (int \<Rightarrow> string) \<Rightarrow>
   string \<Rightarrow> string \<Rightarrow> (unit, socket_pad) py" where
  "handle_line loads repr clock stamp peer line =
     (if line = [] then pret () else
      let event = (case loads line of Some e \<Rightarrow> e | None \<Rightarrow> JDict [(''command'', JStr line)]) in
      pbind (pmod (\<lambda>p. p\<lparr>total_events := total_events p + 1, last_peer := peer\<rparr>)) (\<lambda>_.
      pbind (first_truthy event [''command'', ''button'', ''dpad'', ''buttons'', ''commands'']) (\<lambda>v.
      pbind (pmod (\<lambda>p. p\<lparr>last_event := py_str repr v, last_event_at := stamp (total_events p)\<rparr>)) (\<lambda>_.
      pbind (pget total_events) (\<lambda>n.
      apply_event repr (clock n) event)))))"

text \<open>
  \<open>_handle_client\<close>: \<open>chunks\<close> are the results of \<open>conn.recv\<close>, of which an empty one, or no
  further one, ends the connection. The inner loop takes complete lines off the buffer.
\<close>

abbreviation (input) newline :: u8 where "newline \<equiv> 10"

function handle_lines :: "(bytes \<Rightarrow> (unit, 's) py) \<Rightarrow> bytes \<Rightarrow> (bytes, 's) py" where
  "handle_lines h buf =
     (if newline \<in> set buf
      then pbind (h (takeWhile (\<lambda>b. b \<noteq> newline) buf)) (\<lambda>_.
        handle_lines h (tl (dropWhile (\<lambda>b. b \<noteq> newline) buf)))
      else pret buf)"
  by pat_completeness auto

termination handle_lines
proof (relation "measure (\<lambda>(_, buf). length buf)", simp)
  fix buf :: bytes and h :: "bytes \<Rightarrow> (unit, 's) py"
  assume "newline \<in> set buf"
  then have "0 < length buf" by auto
  then have "length (tl (dropWhile (\<lambda>b. b \<noteq> newline) buf)) < length buf"
    using length_dropWhile_le [of "\<lambda>b. b \<noteq> newline" buf] by (simp only: length_tl)
  then show "((h, tl (dropWhile (\<lambda>b. b \<noteq> newline) buf)), (h, buf)) \<in> measure (\<lambda>(_, buf). length buf)" by simp
qed

declare handle_lines.simps [simp del]

fun recv_loop :: "(bytes \<Rightarrow> (unit, 's) py) \<Rightarrow> bytes \<Rightarrow> bytes list \<Rightarrow> (bytes, 's) py" where
  "recv_loop h buf [] = pret buf"
| "recv_loop h buf (chunk # chunks) =
     (if chunk = [] then pret buf
      else pbind (handle_lines h (buf @ chunk)) (\<lambda>buf. recv_loop h buf chunks))"

definition handle_client ::
  "(bytes \<Rightarrow> string) \<Rightarrow> (string \<Rightarrow> (unit, socket_pad) py) \<Rightarrow> bytes list \<Rightarrow> (unit, socket_pad) py" where
  "handle_client decode h chunks p =
     (case recv_loop (\<lambda>line. h (strip (decode line))) [] chunks p of
        None \<Rightarrow> None
      | Some (r, p) \<Rightarrow>
          Some (case r of Inl e \<Rightarrow> Inl e | Inr _ \<Rightarrow> Inr (),
                p\<lparr>active_peers := max 0 (active_peers p - 1)\<rparr>))"

section \<open>What an event can do\<close>

lemma clamp_axis_range:
  assumes "clamp_axis v = Inr y"
  obtains x where "y = Fin x" "- 1 \<le> x" "x \<le> 1"
proof -
  have m: "\<exists>x. py_max (Fin (- 1)) (py_min (Fin 1) f) = Fin x \<and> - 1 \<le> x \<and> x \<le> 1" for f
    by (cases f) (auto simp: py_max_def py_min_def)
  show thesis
  proof (cases "py_float v")
    case (Inl e)
    then have "y = Fin 0" using assms by (auto simp: clamp_axis_def split: if_splits)
    then show thesis using that [of 0] by simp
  next
    case (Inr f)
    then have "y = py_max (Fin (- 1)) (py_min (Fin 1) f)" using assms by (simp add: clamp_axis_def)
    then show thesis using m [of f] that by auto
  qed
qed

lemma event_duration_range:
  assumes "event_duration e = Inr d"
  obtains x where "d = Fin x" "0 < x" "x \<le> 5"
proof -
  have c: "pyround (1 / 100) = Fin (fl (1 / 100))" by (rule pyround_small) simp
  have "fl (of_int 1 * 2 powi (- 7)) \<le> fl (1 / 100 :: rat)" by (rule fl_mono) (simp add: power_int_def power_one_over)
  then have lo: "1 / 128 \<le> fl (1 / 100 :: rat)" by (subst (asm) fl_exact) (simp_all add: power_int_def power_one_over)
  have hi: "fl (1 / 100 :: rat) \<le> 1" using fl_bounds [of 0 "1 / 100" 1] by simp
  have m: "\<exists>x. py_max (Fin (fl (1 / 100))) (py_min f (Fin 5)) = Fin x \<and> 0 < x \<and> x \<le> 5" for f
    using lo hi by (cases f) (auto simp: py_max_def py_min_def)
  from assms obtain f where "d = py_max (Fin (fl (1 / 100))) (py_min f (Fin 5))"
    by (auto simp: event_duration_def c split: sum.splits)
  with m [of f] that show thesis by auto
qed

lemma keeps_commands [keeps_intros]:
  "keeps P (event_commands repr event)" "keeps P (event_sticks repr event)"
  unfolding event_commands_def single_command_def many_commands_def event_sticks_def Let_def
  by (auto intro!: keeps_intros split: json.split)

lemma keeps_lift: "(\<And>x. r = Inr x \<Longrightarrow> keeps P (f x)) \<Longrightarrow> keeps P (pbind (plift r) f)"
  by (cases r) (auto simp: keeps_def pbind_def)

lemma keeps_set_stick:
  assumes "\<And>a x p. P p \<Longrightarrow> a \<in> {ax, ay} \<Longrightarrow> - 1 \<le> x \<Longrightarrow> x \<le> 1 \<Longrightarrow>
      P (p\<lparr>axis_until := AList.update a (Fin x, until) (axis_until p)\<rparr>)"
  shows "keeps P (set_stick ax ay stick until)"
  unfolding set_stick_def
  by (auto intro!: keeps_intros keeps_lift assms split: json.split elim!: clamp_axis_range)

text \<open>
  Whatever the event, the pad changes by commands and by stick positions between -1 and
  1, all of which end at the same time, at most five seconds from now.
\<close>

lemma keeps_apply_event:
  assumes "\<And>c x p. P p \<Longrightarrow> 0 < x \<Longrightarrow> x \<le> 5 \<Longrightarrow> P (apply_command c (fadd now (Fin x)) p)"
    and "\<And>a v x p. P p \<Longrightarrow> 0 < x \<Longrightarrow> x \<le> 5 \<Longrightarrow> a \<in> {0, 1, 3, 4} \<Longrightarrow> - 1 \<le> v \<Longrightarrow> v \<le> 1 \<Longrightarrow>
      P (p\<lparr>axis_until := AList.update a (Fin v, fadd now (Fin x)) (axis_until p)\<rparr>)"
  shows "keeps P (apply_event repr now event)"
  unfolding apply_event_def
proof (rule keeps_lift)
  fix d assume "event_duration event = Inr d"
  then obtain x where d: "d = Fin x" "0 < x" "x \<le> 5" by (rule event_duration_range)
  show "keeps P (let until = fadd now d in
     pbind (event_commands repr event) (\<lambda>commands.
     pbind (pfor commands (\<lambda>c. pmod (apply_command c until))) (\<lambda>_.
     pbind (event_sticks repr event) (\<lambda>(left, right).
     pbind (set_stick 0 1 left until) (\<lambda>_.
     set_stick 3 4 right until)))))"
    unfolding Let_def d(1)
    by (auto intro!: keeps_intros keeps_set_stick assms d split: prod.split)
qed

lemma keeps_first_truthy [keeps_intros]: "keeps P (first_truthy event ks)"
proof (induction ks)
  case (Cons k ks)
  then show ?case unfolding first_truthy.simps by (auto intro!: keeps_intros)
qed (simp only: first_truthy.simps keeps_basic)

lemma keeps_handle_line:
  assumes "\<And>f g h i p. P (p\<lparr>total_events := f, last_peer := g\<rparr>) \<longleftrightarrow> P p"
    and "\<And>f g p. P (p\<lparr>last_event := f, last_event_at := g\<rparr>) \<longleftrightarrow> P p"
    and "\<And>n event. keeps P (apply_event repr (clock n) event)"
  shows "keeps P (handle_line loads repr clock stamp peer line)"
  unfolding handle_line_def Let_def
  by (auto intro!: keeps_intros assms(3) simp: assms(1,2))

section \<open>The invariant of the pad\<close>

text \<open>
  The buttons that can be held have the indices below, without 4, 5 and 8; the extra bits
  are those of HOME and capture, the hat has one of nine positions, and the axes are
  between -1 and 1.
\<close>

definition held_buttons :: "int set" where "held_buttons = {0, 1, 2, 3, 6, 7, 9, 10}"

definition hat_positions :: "(int \<times> int) set" where "hat_positions = {- 1, 0, 1} \<times> {- 1, 0, 1}"

definition wf_pad :: "socket_pad \<Rightarrow> bool" where
  "wf_pad p \<longleftrightarrow>
     fst ` set (button_until p) \<subseteq> held_buttons \<and>
     fst ` set (extra_until p) \<subseteq> {4096, 8192} \<and>
     hat_value p \<in> hat_positions \<and>
     (\<forall>(a, v, u) \<in> set (axis_until p). \<exists>x. v = Fin x \<and> - 1 \<le> x \<and> x \<le> 1)"

lemma in_AList_update: "x \<in> set (AList.update k v al) \<Longrightarrow> x = (k, v) \<or> x \<in> set al"
  by (induction al) (auto split: if_splits)

text \<open>The names \<open>l\<close> and \<open>r\<close> are directions of the D-pad, and never reach the table of buttons.\<close>

lemma SOCKET_names:
  "map_of SOCKET_DPAD n = Some d \<Longrightarrow> d \<in> hat_positions"
  "map_of SOCKET_DPAD n = None \<Longrightarrow> map_of SOCKET_BUTTONS n = Some b \<Longrightarrow> b \<in> held_buttons"
  "map_of SOCKET_EXTRA_BITS n = Some m \<Longrightarrow> m \<in> {4096, 8192}"
  by (auto simp: SOCKET_DPAD_def SOCKET_BUTTONS_def SOCKET_EXTRA_BITS_def hat_positions_def
      held_buttons_def push_bit_eq_mult split: if_splits)

text \<open>The four kinds of commands, and the names that are none.\<close>

lemma apply_command_cases:
  assumes "P p"
    and "\<And>d. d \<in> hat_positions \<Longrightarrow> P (p\<lparr>hat_value := d, hat_until := until\<rparr>)"
    and "\<And>b. b \<in> held_buttons \<Longrightarrow> P (p\<lparr>button_until := AList.update b until (button_until p)\<rparr>)"
    and "\<And>m. m \<in> {4096, 8192} \<Longrightarrow> P (p\<lparr>extra_until := AList.update m until (extra_until p)\<rparr>)"
    and "\<And>a. P (p\<lparr>axis_until := AList.update a (Fin 1, until) (axis_until p)\<rparr>)"
  shows "P (apply_command c until p)"
  unfolding apply_command_def Let_def
  by (auto intro!: assms dest: SOCKET_names split: option.split)

lemma wf_pad_command: "wf_pad p \<Longrightarrow> wf_pad (apply_command c until p)"
  by (rule apply_command_cases) (auto simp: wf_pad_def dest!: in_AList_update)

lemma keeps_wf_pad: "keeps wf_pad (apply_event repr now event)"
  by (rule keeps_apply_event) (auto simp: wf_pad_command, auto simp: wf_pad_def dest!: in_AList_update)

lemma wf_pad_expire: "wf_pad p \<Longrightarrow> wf_pad (socket_expire now p)"
  by (auto simp: wf_pad_def socket_expire_def hat_positions_def)

section \<open>Everything ends\<close>

text \<open>All that is held ends at time \<open>T\<close> or before.\<close>

definition due :: "pyfloat \<Rightarrow> socket_pad \<Rightarrow> bool" where
  "due T p \<longleftrightarrow>
     (\<forall>(b, u) \<in> set (button_until p). fle u T) \<and> (\<forall>(m, u) \<in> set (extra_until p). fle u T) \<and>
     (\<forall>(a, v, u) \<in> set (axis_until p). fle u T) \<and> fle (hat_until p) T"

lemma due_command: "due T p \<Longrightarrow> fle until T \<Longrightarrow> due T (apply_command c until p)"
  by (rule apply_command_cases) (auto simp: due_def dest!: in_AList_update)

lemma keeps_due: "fle (fadd (Fin t) (Fin 5)) T \<Longrightarrow> keeps (due T) (apply_event repr (Fin t) event)"
proof (rule keeps_apply_event)
  assume T: "fle (fadd (Fin t) (Fin 5)) T"
  have u: "fle (fadd (Fin t) (Fin x)) T" if "x \<le> 5" for x
    using fle_trans [OF fadd_mono [OF order_refl that] T] .
  show "due T (apply_command c (fadd (Fin t) (Fin x)) p)" if "due T p" "0 < x" "x \<le> 5" for c x p
    using due_command [OF that(1) u [OF that(3)]] .
  show "due T (p\<lparr>axis_until := AList.update a (Fin v, fadd (Fin t) (Fin x)) (axis_until p)\<rparr>)"
    if "due T p" "0 < x" "x \<le> 5" for a v x p
    using that(1) u [OF that(3)] by (auto simp: due_def dest!: in_AList_update)
qed

lemma due_idle:
  assumes "due T p" "fle T t1"
  shows "button_until (socket_expire t1 p) = []" "extra_until (socket_expire t1 p) = []"
    "axis_until (socket_expire t1 p) = []" "hat_value (socket_expire t1 p) = (0, 0)"
proof -
  have n: "\<not> flt t1 u" if "fle u T" for u using fle_trans [OF that assms(2)] flt_asym by blast
  show "button_until (socket_expire t1 p) = []" "extra_until (socket_expire t1 p) = []"
    "axis_until (socket_expire t1 p) = []"
    using assms(1) n by (fastforce simp: socket_expire_def due_def filter_empty_conv)+
  show "hat_value (socket_expire t1 p) = (0, 0)"
    using assms(1) fle_trans [OF _ assms(2)] by (simp add: socket_expire_def due_def)
qed

section \<open>Lines and chunks\<close>

lemma handle_lines_append:
  "handle_lines h (a @ b) = pbind (handle_lines h a) (\<lambda>r. handle_lines h (r @ b))"
proof (induction h a rule: handle_lines.induct)
  case (1 h buf)
  show ?case
  proof (cases "newline \<in> set buf")
    case True
    let ?r = "dropWhile (\<lambda>b. b \<noteq> newline) buf"
    have "?r \<noteq> []" using True by auto
    then have d: "tl (dropWhile (\<lambda>b. b \<noteq> newline) (buf @ b)) = tl ?r @ b"
      using True by (simp add: dropWhile_append1 [of newline])
    have t: "takeWhile (\<lambda>b. b \<noteq> newline) (buf @ b) = takeWhile (\<lambda>b. b \<noteq> newline) buf"
      using True by (simp add: takeWhile_append1 [of newline])
    show ?thesis
      using True 1 [OF True] by (subst (1 2) handle_lines.simps) (simp add: d t pbind_assoc)
  next
    case False
    then show ?thesis by (subst (2) handle_lines.simps) simp
  qed
qed

lemma handle_lines_rest: "handle_lines h buf s = Some (Inr r, t) \<Longrightarrow> newline \<notin> set r"
proof (induction h buf arbitrary: s rule: handle_lines.induct)
  case (1 h buf)
  show ?case
  proof (cases "newline \<in> set buf")
    case True
    with 1(2) obtain u where "handle_lines h (tl (dropWhile (\<lambda>b. b \<noteq> newline) buf)) u = Some (Inr r, t)"
      by (subst (asm) handle_lines.simps) (auto simp: pbind_eq)
    with 1(1) [OF True] show ?thesis by blast
  next
    case False
    with 1(2) show ?thesis by (subst (asm) handle_lines.simps) auto
  qed
qed

lemma pbind_cong_results: "(\<And>x t. m s = Some (Inr x, t) \<Longrightarrow> f x t = g x t) \<Longrightarrow> pbind m f s = pbind m g s"
  by (auto simp: pbind_def split: option.split sum.split)

text \<open>How the stream is cut into chunks does not matter.\<close>

lemma recv_loop_concat:
  "newline \<notin> set buf \<Longrightarrow> (\<forall>c \<in> set chunks. c \<noteq> []) \<Longrightarrow>
   recv_loop h buf chunks s = handle_lines h (buf @ concat chunks) s"
proof (induction chunks arbitrary: buf s)
  case Nil
  then show ?case by (simp add: handle_lines.simps)
next
  case (Cons c cs)
  have "recv_loop h buf (c # cs) s = pbind (handle_lines h (buf @ c)) (\<lambda>r. recv_loop h r cs) s"
    using Cons.prems by simp
  also have "\<dots> = pbind (handle_lines h (buf @ c)) (\<lambda>r. handle_lines h (r @ concat cs)) s"
    using Cons by (intro pbind_cong_results) (auto dest: handle_lines_rest)
  also have "\<dots> = handle_lines h (buf @ concat (c # cs)) s"
    using handle_lines_append [of h "buf @ c" "concat cs"] by simp
  finally show ?case .
qed

end
