(* ===== verification/Crc.thy ===== *)
theory Crc
  imports Prelude
begin

text \<open>
  The checksum of the UART protocol: \<open>_crc8_ccitt_update\<close> of avr-libc as the
  firmware uses it, \<open>crc8\<close> of the Python client, and what the checksum detects.
\<close>

section \<open>Model\<close>

text \<open>\<open>util/crc16.h\<close>: polynomial \<open>0x07\<close>, most significant bit first.\<close>

definition crc8_bit :: "u8 \<Rightarrow> u8" where
  "crc8_bit d = (if bit d 7 then push_bit 1 d XOR 0x07 else push_bit 1 d)"

definition avr_crc8_ccitt_update :: "u8 \<Rightarrow> u8 \<Rightarrow> u8" where
  "avr_crc8_ccitt_update inCrc inData = (crc8_bit ^^ 8) (inCrc XOR inData)"

text \<open>The client computes on unbounded integers and masks.\<close>

definition py_crc8_bit :: "int \<Rightarrow> int" where
  "py_crc8_bit c = (if c AND 0x80 \<noteq> 0 then (push_bit 1 c XOR 0x07) AND 0xFF
                    else push_bit 1 c AND 0xFF)"

definition crc8 :: "int list \<Rightarrow> int" where
  "crc8 data = fold (\<lambda>b c. (py_crc8_bit ^^ 8) (c XOR b)) data 0"

text \<open>\<open>UART.write\<close>: a packet is followed by its checksum.\<close>

definition UART_write :: "int list \<Rightarrow> int list" where
  "UART_write p = p @ [crc8 p]"

section \<open>Both ends compute the same checksum\<close>

definition crc8_of :: "bytes \<Rightarrow> u8" where
  "crc8_of data = fold (\<lambda>b c. avr_crc8_ccitt_update c b) data 0"

lemma crc8_of_Nil [simp]: "crc8_of [] = 0"
  by (simp add: crc8_of_def)

lemma crc8_of_snoc [simp]: "crc8_of (xs @ [b]) = avr_crc8_ccitt_update (crc8_of xs) b"
  by (simp add: crc8_of_def)

lemma uint_bit7: "uint (d :: u8) AND 0x80 \<noteq> 0 \<longleftrightarrow> bit d 7"
proof -
  have "uint d AND 0x80 = uint (d AND 0x80)" by (simp add: uint_and)
  moreover have "d AND 0x80 = 0 \<longleftrightarrow> \<not> bit d 7"
  proof -
    have "(0x80 :: u8) = push_bit 7 1" by simp
    then show ?thesis by (simp add: bit_iff_and_push_bit_not_eq_0)
  qed
  ultimately show ?thesis by (simp only: uint_0_iff not_not)
qed

lemma py_crc8_bit: "py_crc8_bit (uint d) = uint (crc8_bit d)"
proof -
  have m: "x AND 0xFF = take_bit 8 x" for x :: int
    using take_bit_eq_mask [of 8 x] by (simp add: mask_eq_exp_minus_1)
  have shl: "take_bit 8 (push_bit 1 (uint d)) = uint (push_bit 1 d)"
    by (subst unsigned_push_bit_eq) simp
  show ?thesis
    unfolding py_crc8_bit_def crc8_bit_def uint_bit7 m
    by (simp only: take_bit_xor shl if_distrib [of uint] uint_xor) simp
qed

lemma py_crc8_bits: "(py_crc8_bit ^^ n) (uint d) = uint ((crc8_bit ^^ n) d)"
  by (induction n) (simp_all add: py_crc8_bit)

lemma crc8_uint: "crc8 (map uint data) = uint (crc8_of data)"
proof (induction data rule: rev_induct)
  case Nil
  then show ?case by (simp add: crc8_def)
next
  case (snoc b data)
  then show ?case
    by (simp add: crc8_def avr_crc8_ccitt_update_def py_crc8_bits flip: uint_xor)
qed

section \<open>Linearity\<close>

lemma bit_crc8_bit:
  "bit (crc8_bit d) n \<longleftrightarrow>
     (n = 0 \<and> bit d 7) \<or> (n = 1 \<or> n = 2) \<and> bit d (n - 1) \<noteq> bit d 7 \<or> 2 < n \<and> n < 8 \<and> bit d (n - 1)"
proof -
  have "(0x07 :: u8) = push_bit 0 1 OR push_bit 1 1 OR push_bit 2 1" by simp
  then have "bit (0x07 :: u8) n \<longleftrightarrow> n = 0 \<or> n = 1 \<or> n = 2"
    by (auto simp only: bit_simps) auto
  moreover have "bit (push_bit 1 d) n \<longleftrightarrow> 0 < n \<and> n < 8 \<and> bit d (n - 1)"
    unfolding bit_push_bit_iff by (auto dest: bit_imp_le_length)
  ultimately show ?thesis
    by (auto simp: crc8_bit_def bit_xor_iff simp del: push_bit_Suc One_nat_def)
qed

lemma crc8_bit_xor: "crc8_bit (a XOR b) = crc8_bit a XOR crc8_bit b"
  by (rule bit_word_eqI) (auto simp: bit_crc8_bit bit_xor_iff)

lemma crc8_bit_zero [simp]: "crc8_bit 0 = 0"
  by (simp add: crc8_bit_def)

lemma crc8_bits_xor: "(crc8_bit ^^ n) (a XOR b) = (crc8_bit ^^ n) a XOR (crc8_bit ^^ n) b"
  by (induction n) (simp_all add: crc8_bit_xor)

lemma avr_crc8_ccitt_update_xor:
  "avr_crc8_ccitt_update (c XOR c') (b XOR b') = avr_crc8_ccitt_update c b XOR avr_crc8_ccitt_update c' b'"
proof -
  have "(c XOR c') XOR (b XOR b') = (c XOR b) XOR (c' XOR b')"
    by (simp add: xor.assoc xor.left_commute)
  then show ?thesis by (simp add: avr_crc8_ccitt_update_def crc8_bits_xor)
qed

text \<open>Difference of two packets, byte by byte.\<close>

definition xor_bytes :: "bytes \<Rightarrow> bytes \<Rightarrow> bytes" where
  "xor_bytes p q = map2 (XOR) p q"

lemma crc8_of_xor:
  "length p = length q \<Longrightarrow> crc8_of (xor_bytes p q) = crc8_of p XOR crc8_of q"
proof (induction p arbitrary: q rule: rev_induct)
  case Nil
  then show ?case by (simp add: xor_bytes_def)
next
  case (snoc a p)
  then obtain q' b where "q = q' @ [b]" "length p = length q'"
    by (metis append_butlast_last_id length_append_singleton length_greater_0_conv nat.inject
        zero_less_Suc)
  with snoc.IH [of q'] show ?case
    by (simp add: xor_bytes_def avr_crc8_ccitt_update_xor)
qed

lemma crc8_bit_inj: "crc8_bit a = crc8_bit b \<Longrightarrow> a = b"
proof (rule bit_word_eqI)
  fix n
  assume eq: "crc8_bit a = crc8_bit b" and "n < LENGTH(8)"
  have 7: "bit a 7 = bit b 7"
    using arg_cong [OF eq, of "\<lambda>w. bit w 0"] by (simp add: bit_crc8_bit)
  show "bit a n = bit b n"
  proof (cases "n = 7")
    case False
    with \<open>n < LENGTH(8)\<close> have "n < 7" by simp
    with 7 show ?thesis
      using arg_cong [OF eq, of "\<lambda>w. bit w (Suc n)"]
      by (cases "n < 2") (auto simp: bit_crc8_bit less_Suc_eq numeral_2_eq_2)
  qed (use 7 in simp)
qed

lemma crc8_bits_inj: "(crc8_bit ^^ n) a = (crc8_bit ^^ n) b \<Longrightarrow> a = b"
  by (induction n) (auto dest: crc8_bit_inj)

lemma avr_crc8_ccitt_update_inj:
  "avr_crc8_ccitt_update c b = avr_crc8_ccitt_update c' b' \<Longrightarrow> c XOR b = c' XOR b'"
  by (simp add: avr_crc8_ccitt_update_def crc8_bits_inj)

section \<open>What the checksum detects\<close>

text \<open>A received packet is accepted when its last byte is the checksum of the others.\<close>

lemma crc8_of_valid: "crc8_of (xs @ [b]) = 0 \<longleftrightarrow> crc8_of xs = b"
proof
  assume "crc8_of (xs @ [b]) = 0"
  then have "avr_crc8_ccitt_update (crc8_of xs) b = avr_crc8_ccitt_update 0 0"
    by (simp add: avr_crc8_ccitt_update_def funpow_mono2 flip: funpow_swap1)
      (simp add: eval_nat_numeral)
  then have "crc8_of xs XOR b = 0" using avr_crc8_ccitt_update_inj by fastforce
  then show "crc8_of xs = b" by (simp add: bit_eq_iff bit_xor_iff)
next
  have "(crc8_bit ^^ n) 0 = 0" for n by (induction n) simp_all
  then show "crc8_of xs = b \<Longrightarrow> crc8_of (xs @ [b]) = 0" by (simp add: avr_crc8_ccitt_update_def)
qed

text \<open>
  Every set bit of an error pattern contributes a power of the generator
  \<open>crc8_bit\<close>, applied to 1; \<open>exponents\<close> lists them, last byte first.
\<close>

definition bits_of :: "u8 \<Rightarrow> nat list" where
  "bits_of b = filter (bit b) [0..<8]"

fun exponents :: "bytes \<Rightarrow> nat list" where
  "exponents [] = []"
| "exponents (b # r) = map ((+) 8) (bits_of b @ exponents r)"

definition weight :: "bytes \<Rightarrow> nat" where
  "weight e = sum_list (map (length \<circ> bits_of) e)"

definition xor_sum :: "u8 list \<Rightarrow> u8" where
  "xor_sum ws = foldr (XOR) ws 0"

lemma xor_sum_append: "xor_sum (xs @ ys) = xor_sum xs XOR xor_sum ys"
  by (induction xs) (simp_all add: xor_sum_def xor.assoc)

lemma crc8_bits_xor_sum: "(crc8_bit ^^ n) (xor_sum ws) = xor_sum (map (crc8_bit ^^ n) ws)"
proof (induction ws)
  case Nil
  have "(crc8_bit ^^ n) 0 = 0" by (induction n) simp_all
  then show ?case by (simp add: xor_sum_def)
qed (simp add: xor_sum_def crc8_bits_xor)

lemma power_small: "k < 8 \<Longrightarrow> (crc8_bit ^^ k) 1 = 2 ^ k"
  by (induction k) (simp_all add: crc8_bit_def bit_exp_iff push_bit_eq_mult)

lemma byte_xor_sum: "xor_sum (map (\<lambda>k. (crc8_bit ^^ k) 1) (bits_of b)) = b"
proof -
  have "bit (xor_sum (map (\<lambda>k. 2 ^ k) ks)) n \<longleftrightarrow> n < 8 \<and> n \<in> set ks"
    if "distinct ks" for ks n
    using that by (induction ks) (auto simp: xor_sum_def bit_xor_iff bit_exp_iff)
  moreover have "distinct (bits_of b)"
    by (simp add: bits_of_def)
  ultimately have "xor_sum (map (\<lambda>k. 2 ^ k) (bits_of b)) = b"
    by (intro bit_word_eqI) (auto simp: bits_of_def)
  moreover have "map (\<lambda>k. (crc8_bit ^^ k) 1) (bits_of b) = map (\<lambda>k. 2 ^ k) (bits_of b)"
    by (rule map_cong) (auto simp: bits_of_def power_small)
  ultimately show ?thesis by (simp only:)
qed

lemma crc8_of_exponents:
  "crc8_of (rev r) = xor_sum (map (\<lambda>t. (crc8_bit ^^ t) 1) (exponents r))"
proof (induction r)
  case Nil
  then show ?case by (simp add: xor_sum_def)
next
  case (Cons b r)
  let ?p = "\<lambda>t. (crc8_bit ^^ t) 1"
  have "crc8_of (rev (b # r)) = (crc8_bit ^^ 8) (xor_sum (map ?p (exponents r)) XOR b)"
    by (simp add: Cons avr_crc8_ccitt_update_def)
  also have "\<dots> = (crc8_bit ^^ 8) (xor_sum (map ?p (bits_of b @ exponents r)))"
    by (simp add: byte_xor_sum xor_sum_append xor.commute)
  finally show ?case
    by (simp only: crc8_bits_xor_sum) (simp add: o_def funpow_add)
qed

lemma exponents_bounds: "t \<in> set (exponents r) \<Longrightarrow> 8 \<le> t \<and> t < 8 * Suc (length r)"
  by (induction r arbitrary: t) (auto simp: bits_of_def)

lemma exponents_distinct: "distinct (exponents r)"
proof (induction r)
  case (Cons b r)
  have "t \<notin> set (exponents r)" if "t \<in> set (bits_of b)" for t
    using that exponents_bounds [of t r] by (auto simp: bits_of_def)
  with Cons show ?case by (auto simp: distinct_map bits_of_def inj_on_def)
qed simp

lemma length_exponents: "length (exponents r) = weight r"
  by (induction r) (simp_all add: weight_def)

lemma weight_rev [simp]: "weight (rev e) = weight e"
  by (simp add: weight_def rev_map [symmetric])

text \<open>The parity of a byte is invariant under the generator, so odd errors never cancel.\<close>

definition parity8 :: "u8 \<Rightarrow> bool" where
  "parity8 d = foldr (\<lambda>k p. p \<noteq> bit d k) [0, 1, 2, 3, 4, 5, 6, 7] False"

lemma parity8_xor: "parity8 (a XOR b) \<longleftrightarrow> parity8 a \<noteq> parity8 b"
proof -
  have "foldr (\<lambda>k p. p \<noteq> bit (a XOR b) k) ks False \<longleftrightarrow>
     foldr (\<lambda>k p. p \<noteq> bit a k) ks False \<noteq> foldr (\<lambda>k p. p \<noteq> bit b k) ks False" for ks
    by (induction ks) (auto simp: bit_xor_iff)
  then show ?thesis by (simp only: parity8_def)
qed

lemma parity8_crc8_bit: "parity8 (crc8_bit d) = parity8 d"
  by (simp add: parity8_def bit_crc8_bit) argo

lemma parity8_power: "parity8 ((crc8_bit ^^ t) 1)"
proof (induction t)
  case 0
  show ?case by code_simp
qed (simp add: parity8_crc8_bit)

lemma parity8_xor_sum: "\<forall>w \<in> set ws. parity8 w \<Longrightarrow> parity8 (xor_sum ws) \<longleftrightarrow> odd (length ws)"
proof (induction ws)
  case Nil
  show ?case by code_simp
qed (auto simp: xor_sum_def parity8_xor)

text \<open>The first 79 powers of the generator differ from 1 (its order is 127).\<close>

fun no_one :: "nat \<Rightarrow> u8 \<Rightarrow> bool" where
  "no_one 0 w \<longleftrightarrow> True"
| "no_one (Suc n) w \<longleftrightarrow> w \<noteq> 1 \<and> no_one n (crc8_bit w)"

lemma no_one_power: "no_one n w \<Longrightarrow> k < n \<Longrightarrow> (crc8_bit ^^ k) w \<noteq> 1"
proof (induction n arbitrary: w k)
  case (Suc n)
  then show ?case by (cases k) (auto simp: funpow_swap1)
qed simp

lemma no_one_126: "no_one 126 (crc8_bit 1)"
  by code_simp

lemma powers_differ:
  assumes "t < u" "u < t + 127"
  shows "(crc8_bit ^^ t) 1 \<noteq> (crc8_bit ^^ u) 1"
proof
  assume eq: "(crc8_bit ^^ t) 1 = (crc8_bit ^^ u) 1"
  obtain k where k: "u = t + Suc k" using assms(1) less_iff_Suc_add by auto
  from eq have "(crc8_bit ^^ t) 1 = (crc8_bit ^^ t) ((crc8_bit ^^ Suc k) 1)"
    by (simp only: k funpow_add o_apply)
  then have "(crc8_bit ^^ Suc k) 1 = 1" using crc8_bits_inj by metis
  then show False
    using no_one_power [OF no_one_126, of k] assms(2) k by (simp add: funpow_swap1)
qed

lemma crc8_detects:
  assumes "length e \<le> 14" "weight e \<in> {1, 2, 3}"
  shows "crc8_of e \<noteq> 0"
proof -
  let ?x = "exponents (rev e)" and ?p = "\<lambda>t. (crc8_bit ^^ t) 1"
  have sum: "crc8_of e = xor_sum (map ?p ?x)" using crc8_of_exponents [of "rev e"] by simp
  have len: "length ?x = weight e" by (simp add: length_exponents)
  consider "odd (weight e)" | "weight e = 2" using assms(2) by auto
  then show ?thesis
  proof cases
    case 1
    then have "parity8 (crc8_of e)" by (simp add: sum parity8_xor_sum parity8_power len)
    moreover have "\<not> parity8 0" by code_simp
    ultimately show ?thesis by auto
  next
    case 2
    with len obtain t u where tu: "?x = [t, u]"
      by (auto simp: numeral_2_eq_2 length_Suc_conv)
    then have "t \<noteq> u" using exponents_distinct [of "rev e"] by simp
    moreover from tu have "t < u + 127" "u < t + 127"
      using exponents_bounds [of _ "rev e"] assms(1) by fastforce+
    ultimately have "?p t \<noteq> ?p u"
      using powers_differ [of t u] powers_differ [of u t] by (cases "t < u") fastforce+
    then show ?thesis by (auto simp: sum tu xor_sum_def bit_eq_iff bit_xor_iff)
  qed
qed

end
