(* ===== verification/Gamepads.thy ===== *)
theory Gamepads
  imports SocketPad Crc
begin

text \<open>
  The input backends of the bridge (\<open>xinput2serial.py\<close>) and the packets it makes of them.
  What the operating system and the packages \<open>pygame\<close>, \<open>keyboard\<close>, \<open>mouse\<close>, \<open>win32gui\<close> and
  \<open>pyserial\<close> return is given by a \<open>world\<close>, an arbitrary function of the number of
  accesses made so far, so that two readings of the same button may differ. The
  threads of the socket backend run between the accesses of the bridge to its pad.
\<close>

section \<open>Packets\<close>

record packet =
  pk_b :: int
  pk_d :: int
  pk_lx :: pyfloat
  pk_ly :: pyfloat
  pk_rx :: pyfloat
  pk_ry :: pyfloat

text \<open>\<open>int(x)\<close> and \<open>norm = lambda v: int((v + 1) / 2 * 255) & 0xFF\<close>.\<close>

fun py_int :: "pyfloat \<Rightarrow> pyexc + int" where
  "py_int (Fin x) = Inr (trunc x)"
| "py_int NaN = Inl ValueError"
| "py_int _ = Inl OverflowError"

definition norm_axis :: "pyfloat \<Rightarrow> pyexc + int" where
  "norm_axis v =
     (case py_int (fmul_by (fdiv_by (fadd v (Fin 1)) 2) 255) of
        Inl e \<Rightarrow> Inl e
      | Inr n \<Rightarrow> Inr (n AND 0xFF))"

definition dead_zone :: "int \<Rightarrow> int" where
  "dead_zone a = (if \<bar>a - 0x80\<bar> < 10 then 0x80 else a)"

definition pack :: "packet \<Rightarrow> (int list, 's) py" where
  "pack k =
     pbind (plift (norm_axis (pk_lx k))) (\<lambda>lx.
     pbind (plift (norm_axis (pk_ly k))) (\<lambda>ly.
     pbind (plift (norm_axis (pk_rx k))) (\<lambda>rx.
     pbind (plift (norm_axis (pk_ry k))) (\<lambda>ry.
     pret [drop_bit 8 (pk_b k) AND 0xFF, pk_b k AND 0xFF, pk_d k AND 0xFF,
           dead_zone lx, dead_zone ly, dead_zone rx, dead_zone ry, 0]))))"

section \<open>The world of the bridge\<close>

text \<open>\<open>XINPUT_GAMEPAD\<close>, with its signed axes as words; the constants of \<open>pygame\<close> that the code names.\<close>

record gamepad =
  wButtons :: u16
  bLT :: u8
  bRT :: u8
  sLX :: u16
  sLY :: u16
  sRX :: u16
  sRY :: u16

datatype sdl_button =
    BUTTON_A | BUTTON_B | BUTTON_X | BUTTON_Y | BUTTON_LEFTSHOULDER | BUTTON_RIGHTSHOULDER
  | BUTTON_BACK | BUTTON_START | BUTTON_GUIDE | BUTTON_LEFTSTICK | BUTTON_RIGHTSTICK
  | BUTTON_DPAD_RIGHT | BUTTON_DPAD_LEFT | BUTTON_DPAD_UP | BUTTON_DPAD_DOWN

datatype sdl_axis = AXIS_LEFTX | AXIS_LEFTY | AXIS_TRIGGERLEFT | AXIS_RIGHTX | AXIS_RIGHTY | AXIS_TRIGGERRIGHT

record world =
  time_time :: "nat \<Rightarrow> pyfloat"
  xinput_loaded :: bool
  XInputGetState :: "nat \<Rightarrow> int \<Rightarrow> gamepad option"
  sdl_ready :: "nat \<Rightarrow> bool"
  sdl_count :: "nat \<Rightarrow> int"
  sdl_is_controller :: "nat \<Rightarrow> int \<Rightarrow> bool"
  sdl_opens :: "nat \<Rightarrow> int \<Rightarrow> bool"
  sdl_attached :: "nat \<Rightarrow> int \<Rightarrow> bool"
  sdl_get_button :: "nat \<Rightarrow> int \<Rightarrow> sdl_button \<Rightarrow> bool"
  sdl_get_axis :: "nat \<Rightarrow> int \<Rightarrow> sdl_axis \<Rightarrow> int"
  have_keyboard :: bool
  have_mouse :: bool
  is_pressed :: "nat \<Rightarrow> string \<Rightarrow> bool"
  mouse_position :: "nat \<Rightarrow> int \<times> int"
  have_win32gui :: bool
  foreground_title :: "nat \<Rightarrow> string"
  find_window :: "nat \<Rightarrow> string \<Rightarrow> (int \<times> int \<times> int \<times> int) option"
  comports :: "nat \<Rightarrow> string list"
  serial_opens :: "nat \<Rightarrow> bool"
  serial_read :: "nat \<Rightarrow> u8 option"
  serial_works :: "nat \<Rightarrow> bool"
  socket_lines :: "nat \<Rightarrow> (string \<times> string) list"
  socket_fails :: "nat \<Rightarrow> bool"
  interrupted :: "nat \<Rightarrow> bool"
  json_loads :: "string \<Rightarrow> json option"
  json_text :: "json \<Rightarrow> string"
  time_stamp :: "int \<Rightarrow> string"
  event_clock :: "int \<Rightarrow> pyfloat"

datatype pad =
    PadX int gamepad
  | PadSDL int
  | PadK "(int \<times> int) option" "int \<times> int"
  | PadSocket socket_pad

record client =
  tick :: nat
  serial_out :: "int list list"
  pad :: "pad option"

text \<open>Looking at the world.\<close>

definition sense :: "(nat \<Rightarrow> 'a) \<Rightarrow> ('a, 'z client_scheme) py" where
  "sense f s = Some (Inr (f (tick s)), s\<lparr>tick := tick s + 1\<rparr>)"

definition set_pad :: "pad option \<Rightarrow> (unit, 'z client_scheme) py" where
  "set_pad p = pmod (\<lambda>s. s\<lparr>pad := p\<rparr>)"

section \<open>XInput\<close>

definition BTN_MASKS :: "u16 list" where
  "BTN_MASKS = [0x1000, 0x2000, 0x4000, 0x8000, 0x0100, 0x0200, 0x0020, 0x0010, 0x0400, 0x0040, 0x0080]"

definition PadX_new :: "int \<Rightarrow> pad" where
  "PadX_new slot = PadX slot \<lparr>wButtons = 0, bLT = 0, bRT = 0, sLX = 0, sLY = 0, sRX = 0, sRY = 0\<rparr>"

text \<open>\<open>PadX.ok\<close>: the state of the controller, when it is connected.\<close>

definition PadX_ok :: "world \<Rightarrow> int \<Rightarrow> (gamepad option, 'z client_scheme) py" where
  "PadX_ok W slot =
     (if \<not> xinput_loaded W then pret None else sense (\<lambda>t. XInputGetState W t slot))"

definition PadX_btn :: "gamepad \<Rightarrow> nat \<Rightarrow> pyexc + bool" where
  "PadX_btn g i = (if i < length BTN_MASKS then Inr (wButtons g AND BTN_MASKS ! i \<noteq> 0) else Inl IndexError)"

definition PadX_axis :: "gamepad \<Rightarrow> nat \<Rightarrow> pyexc + pyfloat" where
  "PadX_axis g i =
     (let vs = [of_int (sint (sLX g)) / 32767, of_int (sint (sLY g)) / 32767, of_int (uint (bLT g)) / 255,
                of_int (sint (sRX g)) / 32767, of_int (sint (sRY g)) / 32767, of_int (uint (bRT g)) / 255]
      in if i < length vs then Inr (pyround (vs ! i)) else Inl IndexError)"

definition PadX_hat :: "gamepad \<Rightarrow> int \<times> int" where
  "PadX_hat g =
     (let w = wButtons g in
      ((if w AND 0x0008 \<noteq> 0 then 1 else 0) + (if w AND 0x0004 \<noteq> 0 then - 1 else 0),
       (if w AND 0x0001 \<noteq> 0 then 1 else 0) + (if w AND 0x0002 \<noteq> 0 then - 1 else 0)))"

section \<open>SDL\<close>

definition SDL_BUTTONS :: "sdl_button list" where
  "SDL_BUTTONS =
     [BUTTON_A, BUTTON_B, BUTTON_X, BUTTON_Y, BUTTON_LEFTSHOULDER, BUTTON_RIGHTSHOULDER,
      BUTTON_BACK, BUTTON_START, BUTTON_GUIDE, BUTTON_LEFTSTICK, BUTTON_RIGHTSTICK]"

definition SDL_AXES :: "sdl_axis list" where
  "SDL_AXES = [AXIS_LEFTX, AXIS_LEFTY, AXIS_TRIGGERLEFT, AXIS_RIGHTX, AXIS_RIGHTY, AXIS_TRIGGERRIGHT]"

definition init_sdl :: "world \<Rightarrow> (bool, 'z client_scheme) py" where
  "init_sdl W = sense (sdl_ready W)"

definition norm_sdl_axis :: "int \<Rightarrow> pyfloat" where
  "norm_sdl_axis value =
     (if value < 0 then py_max (Fin (- 1)) (pyround (of_int value / 32768))
      else py_min (Fin 1) (pyround (of_int value / 32767)))"

definition norm_sdl_trigger :: "int \<Rightarrow> pyfloat" where
  "norm_sdl_trigger value =
     (if value < 0 then py_max (Fin 0) (py_min (Fin 1) (pyround (of_int (value + 32768) / 65535)))
      else py_max (Fin 0) (py_min (Fin 1) (pyround (of_int value / 32767))))"

definition PadSDL_new :: "world \<Rightarrow> int \<Rightarrow> (pad, 'z client_scheme) py" where
  "PadSDL_new W index =
     pbind (init_sdl W) (\<lambda>ready.
     if \<not> ready then praise RuntimeError else
     if index < 0 then praise RuntimeError else
     pbind (sense (sdl_count W)) (\<lambda>n.
     if n \<le> index then praise RuntimeError else
     pbind (sense (\<lambda>t. sdl_is_controller W t index)) (\<lambda>ok.
     if \<not> ok then praise RuntimeError else
     pbind (sense (\<lambda>t. sdl_opens W t index)) (\<lambda>opens.
     if \<not> opens then praise RuntimeError else pret (PadSDL index)))))"

definition PadSDL_btn :: "world \<Rightarrow> int \<Rightarrow> nat \<Rightarrow> (bool, 'z client_scheme) py" where
  "PadSDL_btn W index i =
     (if i < length SDL_BUTTONS then sense (\<lambda>t. sdl_get_button W t index (SDL_BUTTONS ! i)) else praise IndexError)"

definition PadSDL_axis :: "world \<Rightarrow> int \<Rightarrow> nat \<Rightarrow> (pyfloat, 'z client_scheme) py" where
  "PadSDL_axis W index i =
     (if i < length SDL_AXES then
        pbind (sense (\<lambda>t. sdl_get_axis W t index (SDL_AXES ! i))) (\<lambda>value.
        if i = 2 \<or> i = 5 then pret (norm_sdl_trigger value)
        else let normalized = norm_sdl_axis value in
          if i = 1 \<or> i = 4 then pret (fneg normalized) else pret normalized)
      else praise IndexError)"

definition PadSDL_hat :: "world \<Rightarrow> int \<Rightarrow> (int \<times> int, 'z client_scheme) py" where
  "PadSDL_hat W index =
     pbind (sense (\<lambda>t. sdl_get_button W t index BUTTON_DPAD_RIGHT)) (\<lambda>r.
     pbind (sense (\<lambda>t. sdl_get_button W t index BUTTON_DPAD_LEFT)) (\<lambda>l.
     pbind (sense (\<lambda>t. sdl_get_button W t index BUTTON_DPAD_UP)) (\<lambda>u.
     pbind (sense (\<lambda>t. sdl_get_button W t index BUTTON_DPAD_DOWN)) (\<lambda>d.
     pret ((if r then 1 else 0) + (if l then - 1 else 0), (if u then 1 else 0) + (if d then - 1 else 0))))))"

section \<open>Keyboard and mouse\<close>

definition KEY_MAPPING :: "(nat \<times> string) list" where
  "KEY_MAPPING =
     [(0, ''ctrl''), (1, ''space''), (2, ''r''), (3, ''e''), (4, ''q''), (5, ''f''), (6, ''tab''),
      (7, ''enter''), (9, ''v''), (10, ''x'')]"

abbreviation (input) SENS :: rat where "SENS \<equiv> 30"

text \<open>With the \<open>mouse\<close> package, the pad needs a centre to move the pointer to.\<close>

definition PadK_new :: "world \<Rightarrow> (int \<times> int) option \<Rightarrow> (pad, 'z client_scheme) py" where
  "PadK_new W center =
     (if \<not> have_keyboard W then praise RuntimeError
      else if have_mouse W
      then (case center of None \<Rightarrow> praise TypeError | Some c \<Rightarrow> pret (PadK center c))
      else pret (PadK center (0, 0)))"

definition key :: "world \<Rightarrow> string \<Rightarrow> (bool, 'z client_scheme) py" where
  "key W k = sense (\<lambda>t. is_pressed W t k)"

definition key_axis :: "world \<Rightarrow> string \<Rightarrow> string \<Rightarrow> (pyfloat, 'z client_scheme) py" where
  "key_axis W pos neg =
     pbind (key W pos) (\<lambda>p. if p then pret (Fin 1) else
     pbind (key W neg) (\<lambda>n. pret (if n then Fin (- 1) else Fin 0)))"

definition mouse_axis :: "int \<Rightarrow> pyfloat" where
  "mouse_axis d = py_max (Fin (- 1)) (py_min (Fin 1) (pyround (of_int d / SENS)))"

text \<open>Every call for an axis of the mouse reads the pointer and puts it back to the centre.\<close>

definition PadK_axis :: "world \<Rightarrow> (int \<times> int) option \<Rightarrow> int \<times> int \<Rightarrow> nat \<Rightarrow> (pyfloat, 'z client_scheme) py" where
  "PadK_axis W center prev i =
     (if i = 0 then key_axis W ''d'' ''a''
      else if i = 1 then key_axis W ''w'' ''s''
      else case center of
        Some c \<Rightarrow>
          if have_mouse W then
            pbind (sense (mouse_position W)) (\<lambda>(mx, my).
            let dx = mx - fst prev; dy = my - snd prev in
            pbind (set_pad (Some (PadK center c))) (\<lambda>_.
            pret (if i = 3 then mouse_axis dx else if i = 4 then mouse_axis (- dy) else Fin 0)))
          else pret (Fin 0)
      | None \<Rightarrow> pret (Fin 0))"

section \<open>Any pad\<close>

text \<open>The lines that the threads of the socket backend have received meanwhile.\<close>

definition socket_receive :: "world \<Rightarrow> nat \<Rightarrow> socket_pad \<Rightarrow> socket_pad" where
  "socket_receive W t p =
     (let p = fold (\<lambda>(peer, line) p.
            case handle_line (json_loads W) (json_text W) (event_clock W) (time_stamp W) peer (strip line) p of
              Some (_, p) \<Rightarrow> p | None \<Rightarrow> p) (socket_lines W t) p
      in if socket_fails W t then p\<lparr>running := False\<rparr> else p)"

definition on_socket ::
  "world \<Rightarrow> socket_pad \<Rightarrow> (pyfloat \<Rightarrow> pyfloat \<Rightarrow> socket_pad \<Rightarrow> 'a \<times> socket_pad) \<Rightarrow> ('a, 'z client_scheme) py" where
  "on_socket W p f =
     pbind (sense (\<lambda>t. socket_receive W t p)) (\<lambda>p.
     pbind (sense (time_time W)) (\<lambda>t1.
     pbind (sense (time_time W)) (\<lambda>t2.
     let (x, p) = f t1 t2 p in
     pbind (set_pad (Some (PadSocket p))) (\<lambda>_. pret x))))"

text \<open>\<open>pad\<close> is \<open>None\<close> when no controller was found; then every access raises.\<close>

definition with_pad :: "(pad \<Rightarrow> ('a, 'z client_scheme) py) \<Rightarrow> ('a, 'z client_scheme) py" where
  "with_pad f = pbind (pget pad) (\<lambda>p. case p of None \<Rightarrow> praise AttributeError | Some q \<Rightarrow> f q)"

definition pad_ok :: "world \<Rightarrow> (bool, 'z client_scheme) py" where
  "pad_ok W = with_pad (\<lambda>p. case p of
       PadX slot g \<Rightarrow>
         pbind (PadX_ok W slot) (\<lambda>st.
         case st of None \<Rightarrow> pret False
         | Some g \<Rightarrow> pbind (set_pad (Some (PadX slot g))) (\<lambda>_. pret True))
     | PadSDL index \<Rightarrow> sense (\<lambda>t. sdl_attached W t index)
     | PadK center prev \<Rightarrow> pret True
     | PadSocket q \<Rightarrow> on_socket W q (\<lambda>_ _ q. (running q, q)))"

definition btn :: "world \<Rightarrow> nat \<Rightarrow> (bool, 'z client_scheme) py" where
  "btn W i = with_pad (\<lambda>p. case p of
       PadX slot g \<Rightarrow> plift (PadX_btn g i)
     | PadSDL index \<Rightarrow> PadSDL_btn W index i
     | PadK center prev \<Rightarrow> (case map_of KEY_MAPPING i of None \<Rightarrow> pret False | Some k \<Rightarrow> key W k)
     | PadSocket q \<Rightarrow> on_socket W q (\<lambda>t1 t2. socket_btn t1 t2 (int i)))"

definition axis :: "world \<Rightarrow> nat \<Rightarrow> (pyfloat, 'z client_scheme) py" where
  "axis W i = with_pad (\<lambda>p. case p of
       PadX slot g \<Rightarrow> plift (PadX_axis g i)
     | PadSDL index \<Rightarrow> PadSDL_axis W index i
     | PadK center prev \<Rightarrow> PadK_axis W center prev i
     | PadSocket q \<Rightarrow> on_socket W q (\<lambda>t1 t2. socket_axis t1 t2 (int i)))"

definition pad_hat :: "world \<Rightarrow> (int \<times> int, 'z client_scheme) py" where
  "pad_hat W = with_pad (\<lambda>p. case p of
       PadX slot g \<Rightarrow> pret (PadX_hat g)
     | PadSDL index \<Rightarrow> PadSDL_hat W index
     | PadK center prev \<Rightarrow> pret (0, 0)
     | PadSocket q \<Rightarrow> on_socket W q socket_hat)"

section \<open>From a pad to a packet\<close>

definition BTN_MAP :: "(nat \<times> int) list" where
  "BTN_MAP =
     [(0, push_bit 1 1), (1, push_bit 2 1), (2, push_bit 0 1), (3, push_bit 3 1), (4, push_bit 4 1), (5, push_bit 5 1),
      (6, push_bit 8 1), (7, push_bit 9 1), (9, push_bit 10 1), (10, push_bit 11 1)]"

definition HAT_MAP :: "((int \<times> int) \<times> int) list" where
  "HAT_MAP =
     [((0, 1), 0), ((1, 1), 1), ((1, 0), 2), ((1, - 1), 3), ((0, - 1), 4), ((- 1, - 1), 5), ((- 1, 0), 6),
      ((- 1, 1), 7), ((0, 0), 8)]"

abbreviation (input) SWITCH_HOME_BIT :: int where "SWITCH_HOME_BIT \<equiv> 0x1000"

text \<open>The conditions \<open>a and b\<close>, \<open>a or b\<close> look at \<open>b\<close> only if they have to.\<close>

definition pand :: "(bool, 's) py \<Rightarrow> (bool, 's) py \<Rightarrow> (bool, 's) py" where
  "pand a b = pbind a (\<lambda>x. if x then b else pret False)"

definition por :: "(bool, 's) py \<Rightarrow> (bool, 's) py \<Rightarrow> (bool, 's) py" where
  "por a b = pbind a (\<lambda>x. if x then pret True else b)"

definition over_half :: "world \<Rightarrow> nat \<Rightarrow> (bool, 'z client_scheme) py" where
  "over_half W i = pbind (axis W i) (\<lambda>v. pret (flt (Fin (1 / 2)) v))"

definition is_controller :: "pad \<Rightarrow> bool" where
  "is_controller p \<longleftrightarrow> (case p of PadX _ _ \<Rightarrow> True | PadSDL _ \<Rightarrow> True | _ \<Rightarrow> False)"

definition exit_chord_pressed :: "world \<Rightarrow> (bool, 'z client_scheme) py" where
  "exit_chord_pressed W =
     with_pad (\<lambda>p. if \<not> is_controller p then pret False else
     pand (btn W 4) (pand (btn W 5) (pand (btn W 6) (pand (over_half W 2) (over_half W 5)))))"

text \<open>\<open>if c: b |= m\<close>\<close>

definition or_bit :: "(bool, 's) py \<Rightarrow> int \<Rightarrow> int \<Rightarrow> (int, 's) py" where
  "or_bit c m b = pbind c (\<lambda>x. pret (if x then b OR m else b))"

fun button_bits :: "world \<Rightarrow> (nat \<times> int) list \<Rightarrow> int \<Rightarrow> (int, 'z client_scheme) py" where
  "button_bits W [] b = pret b"
| "button_bits W ((i, m) # rest) b = pbind (or_bit (btn W i) m b) (button_bits W rest)"

definition special_bits :: "world \<Rightarrow> int \<Rightarrow> (int, 'z client_scheme) py" where
  "special_bits W b = with_pad (\<lambda>p. case p of
       PadK center prev \<Rightarrow>
         pbind (or_bit (key W ''h'') 0x1000 b) (\<lambda>b.
         pbind (or_bit (key W ''c'') 0x2000 b) (\<lambda>b.
         pbind (or_bit (key W ''shift'') 0x40 b) (or_bit (key W ''ctrl'') 0x80)))
     | PadSocket q \<Rightarrow> pbind (on_socket W q socket_extra_buttons) (\<lambda>bits. pret (b OR bits))
     | _ \<Rightarrow>
         pbind (or_bit (por (pand (btn W 6) (btn W 7)) (btn W 8)) 0x1000 b) (\<lambda>b.
         pbind (or_bit (over_half W 2) 0x40 b) (or_bit (over_half W 5) 0x80)))"

definition build_packet :: "world \<Rightarrow> (packet, 'z client_scheme) py" where
  "build_packet W =
     pbind (button_bits W BTN_MAP 0) (\<lambda>b.
     pbind (special_bits W b) (\<lambda>b.
     pbind (pad_hat W) (\<lambda>h.
     case map_of HAT_MAP h of
       None \<Rightarrow> praise KeyError
     | Some d \<Rightarrow>
         pbind (axis W 0) (\<lambda>lx.
         pbind (axis W 1) (\<lambda>ly.
         pbind (axis W 3) (\<lambda>rx.
         pbind (axis W 4) (\<lambda>ry.
         pret \<lparr>pk_b = b, pk_d = d, pk_lx = lx, pk_ly = ly, pk_rx = rx, pk_ry = ry\<rparr>)))))))"

text \<open>\<open>UART.write\<close>: the packet and its checksum go to the serial port.\<close>

definition ser_raw :: "world \<Rightarrow> int list \<Rightarrow> (unit, 'z client_scheme) py" where
  "ser_raw W bs =
     pbind (sense (serial_works W)) (\<lambda>ok.
     if ok then pmod (\<lambda>s. s\<lparr>serial_out := serial_out s @ [bs]\<rparr>) else praise SerialException)"

definition ser_write :: "world \<Rightarrow> int list \<Rightarrow> (unit, 'z client_scheme) py" where
  "ser_write W p = ser_raw W (UART_write p)"

section \<open>The bytes of the sticks\<close>

text \<open>The four roundings of \<open>norm\<close> change its result by less than \<open>2\<^sup>-\<^sup>3\<^sup>0\<close>.\<close>

definition scaled :: "rat \<Rightarrow> rat" where
  "scaled v = fl (fl (fl (v + 1) / 2) * 255)"

lemma errors_add:
  fixes e :: rat
  assumes "\<bar>a - (x + 1)\<bar> \<le> e" "\<bar>b - a / 2\<bar> \<le> e" "\<bar>c - b * 255\<bar> \<le> e"
  shows "\<bar>c - (x + 1) / 2 * 255\<bar> \<le> 384 * e"
proof -
  have e: "0 \<le> e" using assms(1) by simp
  have "c - (x + 1) / 2 * 255 = (c - b * 255) + (b - a / 2) * 255 + (a - (x + 1)) * (255 / 2)"
    by (simp add: field_simps)
  also have "\<bar>\<dots>\<bar> \<le> \<bar>c - b * 255\<bar> + \<bar>b - a / 2\<bar> * 255 + \<bar>a - (x + 1)\<bar> * (255 / 2)"
    by (intro order_trans [OF abs_triangle_ineq] add_mono) (simp_all only: abs_mult abs_divide abs_numeral order_refl)
  also have "\<dots> \<le> e + e * 255 + e * (255 / 2)"
    using assms by (intro add_mono mult_right_mono) auto
  finally show ?thesis using e by (simp add: field_simps)
qed

lemma scaled_near_self:
  assumes "\<bar>x\<bar> \<le> 4"
  shows "\<bar>scaled x - (x + 1) / 2 * 255\<bar> \<le> 1 / 2 ^ 31"
proof -
  have e: "(1 :: rat) / 2 ^ 40 \<le> 1 / 1000000" by simp
  have a: "\<bar>fl (x + 1) - (x + 1)\<bar> \<le> 1 / 2 ^ 40" using assms by (intro fl_near) (simp add: abs_le_iff)
  then have a2: "\<bar>fl (x + 1)\<bar> \<le> 6" using assms e by linarith
  have b: "\<bar>fl (fl (x + 1) / 2) - fl (x + 1) / 2\<bar> \<le> 1 / 2 ^ 40" using a2 by (intro fl_near) (simp add: abs_le_iff)
  then have b2: "\<bar>fl (fl (x + 1) / 2)\<bar> \<le> 4" using a2 e by linarith
  have "\<bar>fl (fl (x + 1) / 2) * 255\<bar> \<le> 2 ^ 12" using b2 by (simp only: abs_mult) simp
  then have "\<bar>scaled x - fl (fl (x + 1) / 2) * 255\<bar> \<le> 1 / 2 ^ 40" unfolding scaled_def by (rule fl_near)
  from errors_add [OF a b this] have "\<bar>scaled x - (x + 1) / 2 * 255\<bar> \<le> 384 * (1 / 2 ^ 40)" .
  also have "\<dots> \<le> (1 :: rat) / 2 ^ 31" by simp
  finally show ?thesis .
qed

lemma scaled_near:
  assumes "\<bar>x\<bar> \<le> 2"
  shows "\<bar>scaled (fl x) - (x + 1) / 2 * 255\<bar> \<le> 1 / 2 ^ 30"
proof -
  have v: "\<bar>fl x - x\<bar> \<le> 1 / 2 ^ 40" using assms by (intro fl_near) simp
  have "(1 :: rat) / 2 ^ 40 \<le> 1" by simp
  with v assms have "\<bar>fl x\<bar> \<le> 4" by linarith
  from scaled_near_self [OF this] have 1: "\<bar>scaled (fl x) - (fl x + 1) / 2 * 255\<bar> \<le> 1 / 2 ^ 31" .
  have "(fl x + 1) / 2 * 255 - (x + 1) / 2 * 255 = (fl x - x) * (255 / 2)" by (simp add: field_simps)
  then have "\<bar>(fl x + 1) / 2 * 255 - (x + 1) / 2 * 255\<bar> \<le> 1 / 2 ^ 40 * (255 / 2)"
    using v by (simp only: abs_mult) (rule mult_mono; simp)
  also have "\<dots> \<le> (1 :: rat) / 2 ^ 31" by simp
  finally have "\<bar>scaled (fl x) - (x + 1) / 2 * 255\<bar> \<le> 1 / 2 ^ 31 + 1 / 2 ^ 31" using 1 by linarith
  then show ?thesis by simp
qed

lemma norm_axis_scaled: "\<bar>x\<bar> \<le> 2 \<Longrightarrow> norm_axis (Fin x) = Inr (trunc (scaled x) AND 0xFF)"
proof -
  assume x: "\<bar>x\<bar> \<le> 2"
  have b: "\<bar>fl y\<bar> \<le> of_int n" if "\<bar>y\<bar> \<le> of_int n" "0 \<le> n" "n < 2 ^ 53" for y and n :: int
    using fl_bounds [of "- n" y n] that by (simp add: abs_le_iff)
  have s: "pyround y = Fin (fl y)" if "\<bar>y\<bar> \<le> 1000" for y using that by (intro pyround_small) simp
  have 1: "\<bar>fl (x + 1)\<bar> \<le> 3" using b [of "x + 1" 3] x by simp
  then have 2: "\<bar>fl (fl (x + 1) / 2)\<bar> \<le> 2" using b [of "fl (x + 1) / 2" 2] by simp
  show ?thesis using x 1 2 by (simp add: norm_axis_def scaled_def s abs_mult)
qed

lemma trunc_near:
  assumes "\<bar>c - of_int N / of_int d\<bar> \<le> e" "0 < d" "0 \<le> N" "\<not> d dvd N" "e * of_int d < 1"
  shows "trunc c = N div d"
proof -
  let ?q = "N div d" and ?r = "N mod d"
  have d: "0 < (of_int d :: rat)" using assms(2) by simp
  have "?r \<noteq> 0" using assms(4) by (simp add: dvd_eq_mod_eq_0)
  then have r: "1 \<le> ?r" "?r + 1 \<le> d" using pos_mod_sign [OF assms(2), of N] pos_mod_bound [OF assms(2), of N] by linarith+
  have "(of_int N :: rat) = of_int (?q * d + ?r)" by simp
  then have N: "of_int N / of_int d = of_int ?q + of_int ?r / (of_int d :: rat)"
    using d by (simp only: of_int_add of_int_mult add_divide_distrib) simp
  have e: "e < 1 / of_int d" using assms(5) d by (simp add: field_simps)
  have "(of_int 1 :: rat) \<le> of_int ?r" "of_int (?r + 1) \<le> (of_int d :: rat)" using r by (simp_all only: of_int_le_iff)
  then have "1 / of_int d \<le> of_int ?r / (of_int d :: rat)" "of_int ?r / of_int d \<le> 1 - 1 / (of_int d :: rat)"
    using d by (simp_all add: field_simps)
  with assms(1) e N have c: "of_int ?q < c" "c < of_int ?q + 1" by (auto simp: abs_le_iff)
  then have "\<lfloor>c\<rfloor> = ?q" by (simp add: floor_unique)
  moreover have "0 \<le> ?q" using assms(2,3) by (simp add: pos_imp_zdiv_nonneg_iff)
  then have "0 \<le> c" using c(1) by (meson of_int_0_le_iff order.strict_implies_order order_trans)
  ultimately show ?thesis by (simp add: trunc_def)
qed

lemma and_255: "0 \<le> n \<Longrightarrow> n < 256 \<Longrightarrow> n AND 255 = (n :: int)"
  using take_bit_eq_mask [of 8 n] by (simp add: mask_eq_exp_minus_1 take_bit_int_eq_self)

text \<open>
  For an axis of XInput, the floating-point computation gives exactly the quotient; the
  extra value \<open>-32768\<close> counts as \<open>-32767\<close>.
\<close>

lemma norm_XInput:
  assumes "- 32768 \<le> s" "s \<le> 32767"
  shows "norm_axis (pyround (of_int s / 32767)) = Inr ((max s (- 32767) + 32767) * 255 div 65534)"
proof -
  let ?x = "of_int s / 32767 :: rat"
  have "\<bar>(of_int s :: rat)\<bar> \<le> of_int 32768" unfolding abs_le_iff using assms
    by (simp only: of_int_minus [symmetric] of_int_le_iff) simp
  then have x: "\<bar>?x\<bar> \<le> 2" by simp
  have r: "pyround ?x = Fin (fl ?x)" using x by (intro pyround_small) simp
  have f: "\<bar>fl ?x\<bar> \<le> 2" using fl_bounds [of "- 2" ?x 2] x by (simp add: abs_le_iff)
  have n: "norm_axis (pyround ?x) = Inr (trunc (scaled (fl ?x)) AND 0xFF)" unfolding r by (rule norm_axis_scaled [OF f])
  have near: "\<bar>scaled (fl ?x) - of_int ((s + 32767) * 255) / of_int 65534\<bar> \<le> 1 / 2 ^ 30"
    using scaled_near [OF x] by (simp add: field_simps)
  consider "s = - 32768" | "s = - 32767" | "s = 32767" | "- 32767 < s" "s < 32767" using assms by linarith
  then have "trunc (scaled (fl ?x)) = (max s (- 32767) + 32767) * 255 div 65534"
  proof cases
    case 1
    have "(1 :: rat) / 2 ^ 30 \<le> 1 / 1000" by simp
    moreover have "of_int ((s + 32767) * 255) / of_int 65534 = (- 255 / 65534 :: rat)" using 1 by simp
    ultimately have "scaled (fl ?x) < 0" "- 1 < scaled (fl ?x)" using near by linarith+
    then have "\<lceil>scaled (fl ?x)\<rceil> = 0" by (intro ceiling_unique) auto
    with 1 \<open>scaled (fl ?x) < 0\<close> show ?thesis by (simp add: trunc_def)
  next
    case 2
    then have "fl ?x = - 1" using fl_exact_int [of "- 1"] by simp
    then have "scaled (fl ?x) = 0" by (simp add: scaled_def)
    with 2 show ?thesis by (simp add: trunc_def)
  next
    case 3
    then have "fl ?x = 1" using fl_exact_int [of 1] by simp
    then have "scaled (fl ?x) = 255" using fl_exact_int [of 2] fl_exact_int [of 1] fl_exact_int [of 255] by (simp add: scaled_def)
    with 3 show ?thesis by (simp add: trunc_def)
  next
    case 4
    have "\<not> 65534 dvd (s + 32767) * 255"
    proof
      assume "65534 dvd (s + 32767) * 255"
      moreover have "coprime (65534 :: int) 255" by code_simp
      ultimately have "65534 dvd s + 32767" by (simp only: coprime_dvd_mult_left_iff)
      with 4 show False using zdvd_imp_le [of 65534 "s + 32767"] by simp
    qed
    from trunc_near [OF near _ _ this] 4 show ?thesis by (simp add: max_def)
  qed
  moreover have "0 \<le> (max s (- 32767) + 32767) * 255 div 65534" "(max s (- 32767) + 32767) * 255 div 65534 < 256"
    using assms by (auto simp: max_def div_less_iff_less_mult pos_imp_zdiv_nonneg_iff)
  ultimately show ?thesis unfolding n by (simp add: and_255)
qed

text \<open>For every axis between -1 and 1, up to the slack of XInput, the result is a byte.\<close>

definition in_range :: "pyfloat \<Rightarrow> bool" where
  "in_range v \<longleftrightarrow> (\<exists>x. v = Fin x \<and> - 1 - 1 / 1000 \<le> x \<and> x \<le> 1)"

lemma norm_axis_range:
  assumes "in_range v"
  obtains n where "norm_axis v = Inr n" "0 \<le> n" "n \<le> 255"
proof -
  from assms obtain x where v: "v = Fin x" and x: "- 1 - 1 / 1000 \<le> x" "x \<le> 1" by (auto simp: in_range_def)
  then have x2: "\<bar>x\<bar> \<le> 2" by (simp add: abs_le_iff)
  then have near: "\<bar>scaled x - (x + 1) / 2 * 255\<bar> \<le> 1 / 2 ^ 31" by (intro scaled_near_self) simp
  note n = norm_axis_scaled [OF x2]
  have "(1 :: rat) / 2 ^ 31 < 1 / 2" by simp
  moreover have "- (1 / 2) \<le> (x + 1) / 2 * 255" "(x + 1) / 2 * 255 \<le> 255" using x by simp_all
  ultimately have c: "- 1 < scaled x" "scaled x < 256" using near abs_le_D1 [OF near] abs_le_D2 [OF near] by linarith+
  have "0 \<le> trunc (scaled x) \<and> trunc (scaled x) \<le> 255"
  proof (cases "0 \<le> scaled x")
    case True
    then show ?thesis using c by (simp add: trunc_def floor_le_iff)
  next
    case False
    then have "\<lceil>scaled x\<rceil> = 0" using c by (intro ceiling_unique) auto
    then show ?thesis using False by (simp add: trunc_def)
  qed
  then show thesis using that [of "trunc (scaled x)"] n v by (simp add: and_255)
qed

section \<open>Building a packet never fails\<close>

text \<open>
  There is a pad, of the kinds \<open>K\<close>; a socket pad satisfies its invariant.
\<close>

definition has_pad :: "(pad \<Rightarrow> bool) \<Rightarrow> 'z client_scheme \<Rightarrow> bool" where
  "has_pad K s \<longleftrightarrow> (\<exists>p. pad s = Some p \<and> K p \<and> (case p of PadSocket q \<Rightarrow> wf_pad q | _ \<Rightarrow> True))"

text \<open>A kind of pad is closed under the changes that the pad's own methods make.\<close>

definition kind :: "(pad \<Rightarrow> bool) \<Rightarrow> bool" where
  "kind K \<longleftrightarrow>
     (\<forall>slot g h. K (PadX slot g) \<longrightarrow> K (PadX slot h)) \<and>
     (\<forall>c p q. K (PadK c p) \<longrightarrow> K (PadK c q)) \<and>
     (\<forall>p q. K (PadSocket p) \<longrightarrow> K (PadSocket q))"

lemma kind_any: "kind (\<lambda>_. True)" by (simp add: kind_def)

definition is_socket :: "pad \<Rightarrow> bool" where
  "is_socket p \<longleftrightarrow> (\<exists>q. p = PadSocket q)"

lemma kind_socket: "kind is_socket" by (simp add: kind_def is_socket_def)

lemma has_pad_tick [simp]: "has_pad K (s\<lparr>tick := n\<rparr>) = has_pad K s"
  by (simp add: has_pad_def)

lemma yields_sense [yields_intros]:
  "(\<And>s x. P s \<Longrightarrow> Q x (s\<lparr>tick := tick s + 1\<rparr>)) \<Longrightarrow> yields P (sense f) Q"
  by (simp add: yields_def sense_def)

lemma yields_has_pad_sense [yields_intros]: "yields (has_pad K) (sense f) (\<lambda>_. has_pad K)"
  by (rule yields_sense) simp

lemma yields_with_pad:
  fixes f :: "pad \<Rightarrow> ('b, 'z client_scheme) py"
  assumes "\<And>p. K p \<Longrightarrow> (case p of PadSocket q \<Rightarrow> wf_pad q | _ \<Rightarrow> True) \<Longrightarrow> yields (\<lambda>s. has_pad K s \<and> pad s = Some p) (f p) Q"
  shows "yields (has_pad K) (with_pad f) Q"
proof (rule yieldsI)
  fix s :: "'z client_scheme" assume s: "has_pad K s"
  then obtain p where p: "pad s = Some p" "K p" "case p of PadSocket q \<Rightarrow> wf_pad q | _ \<Rightarrow> True" by (auto simp: has_pad_def)
  with assms [of p] s obtain x t where "f p s = Some (Inr x, t)" "Q x t" by (auto elim: yieldsE)
  with p show "\<exists>x t. with_pad f s = Some (Inr x, t) \<and> Q x t" by (simp add: with_pad_def)
qed

lemma wf_pad_receive: "wf_pad p \<Longrightarrow> wf_pad (socket_receive W t p)"
proof -
  assume "wf_pad p"
  moreover have "wf_pad (fold (\<lambda>(peer, line) p.
      case handle_line (json_loads W) (json_text W) (event_clock W) (time_stamp W) peer (strip line) p of
        Some (_, p) \<Rightarrow> p | None \<Rightarrow> p) ls p)" if "wf_pad p" for ls p
    using that
  proof (induction ls arbitrary: p)
    case (Cons l ls)
    have "keeps wf_pad (handle_line (json_loads W) (json_text W) (event_clock W) (time_stamp W) peer line)" for peer line
      by (rule keeps_handle_line) (simp_all add: wf_pad_def [abs_def] keeps_wf_pad [unfolded wf_pad_def [abs_def]])
    with Cons show ?case by (cases l) (auto split: option.split dest: keepsD)
  qed simp
  ultimately show ?thesis by (simp add: socket_receive_def Let_def wf_pad_def)
qed

lemma yields_on_socket:
  assumes K: "kind K" "K (PadSocket q)" "wf_pad q"
    and f: "\<And>n t1 t2 q. wf_pad q \<Longrightarrow> t2 = time_time W n \<Longrightarrow> wf_pad (snd (f t1 t2 q)) \<and> Q (fst (f t1 t2 q))"
  shows "yields (\<lambda>s :: 'z client_scheme. has_pad K s \<and> pad s = Some (PadSocket q)) (on_socket W q f) (\<lambda>x t. has_pad K t \<and> Q x)"
proof (rule yieldsI)
  fix s :: "'z client_scheme"
  let ?t1 = "time_time W (tick s + 1)" and ?t2 = "time_time W (tick s + 2)" and ?q = "socket_receive W (tick s) q"
  have w: "wf_pad (snd (f ?t1 ?t2 ?q))" "Q (fst (f ?t1 ?t2 ?q))" using f [OF wf_pad_receive [OF K(3)] refl] by auto
  have "on_socket W q f s = Some (Inr (fst (f ?t1 ?t2 ?q)),
      s\<lparr>tick := tick s + 3, pad := Some (PadSocket (snd (f ?t1 ?t2 ?q)))\<rparr>)"
    by (simp add: on_socket_def pbind_def sense_def set_pad_def split_def Let_def)
  moreover have "K (PadSocket (snd (f ?t1 ?t2 ?q)))" using K(1,2) by (auto simp: kind_def)
  ultimately show "\<exists>x t. on_socket W q f s = Some (Inr x, t) \<and> has_pad K t \<and> Q x" using w by (simp add: has_pad_def)
qed

lemma yields_keep: "yields (has_pad K) m Q \<Longrightarrow> yields (\<lambda>s. has_pad K s \<and> R s) m Q"
  by (erule yields_weaken) auto

lemma socket_results:
  assumes "wf_pad q"
  shows "wf_pad (snd (socket_btn t1 t2 i q))" "wf_pad (snd (socket_axis t1 t2 i q))"
    "wf_pad (snd (socket_hat t1 t2 q))" "wf_pad (snd (socket_extra_buttons t1 t2 q))"
    "in_range (fst (socket_axis t1 t2 i q))" "fst (socket_hat t1 t2 q) \<in> hat_positions"
  using wf_pad_expire [OF assms, of t1]
  by (auto simp: socket_btn_def socket_axis_def socket_hat_def socket_extra_buttons_def Let_def split_def
      wf_pad_def in_range_def hat_positions_def split: option.split dest!: map_of_SomeD)

lemma yields_btn [yields_intros]:
  assumes "kind K" "i < 11"
  shows "yields (has_pad K) (btn W i) (\<lambda>_. has_pad K)"
  unfolding btn_def
proof (rule yields_with_pad)
  fix p assume p: "K p" "case p of PadSocket q \<Rightarrow> wf_pad q | _ \<Rightarrow> True"
  have x: "\<exists>b. PadX_btn g i = Inr b" for g using assms(2) by (simp add: PadX_btn_def BTN_MASKS_def)
  show "yields (\<lambda>s. has_pad K s \<and> pad s = Some p) (case p of
       PadX slot g \<Rightarrow> plift (PadX_btn g i)
     | PadSDL index \<Rightarrow> PadSDL_btn W index i
     | PadK center prev \<Rightarrow> (case map_of KEY_MAPPING i of None \<Rightarrow> pret False | Some k \<Rightarrow> key W k)
     | PadSocket q \<Rightarrow> on_socket W q (\<lambda>t1 t2. socket_btn t1 t2 (int i))) (\<lambda>_. has_pad K)"
  proof (cases p)
    case (PadX slot g)
    with x [of g] show ?thesis by (auto simp: yields_def)
  next
    case (PadSDL index)
    then show ?thesis using assms(2) by (auto simp: PadSDL_btn_def SDL_BUTTONS_def intro!: yields_keep yields_intros)
  next
    case (PadK c q)
    then show ?thesis by (auto simp: key_def split: option.split intro!: yields_keep yields_intros)
  next
    case (PadSocket q)
    with p show ?thesis using yields_on_socket [OF assms(1), of q W "\<lambda>t1 t2. socket_btn t1 t2 (int i)" "\<lambda>_. True"]
      by (auto simp: socket_results)
  qed
qed

definition in_unit :: "pyfloat \<Rightarrow> bool" where
  "in_unit v \<longleftrightarrow> (\<exists>x. v = Fin x \<and> - 1 \<le> x \<and> x \<le> 1)"

lemma in_unit_range: "in_unit v \<Longrightarrow> in_range v"
  by (auto simp: in_unit_def in_range_def)

lemma in_unit_neg: "in_unit v \<Longrightarrow> in_unit (fneg v)"
  by (auto simp: in_unit_def)

lemma in_unit_clamp:
  "in_unit (py_max (Fin (- 1)) (py_min (Fin 1) v))" "in_unit (py_max (Fin 0) (py_min (Fin 1) v))"
  by (cases v; auto simp: in_unit_def py_max_def py_min_def)+

lemma in_unit_sdl: "in_unit (norm_sdl_axis v)"
proof (cases "v < 0")
  case True
  then have "(of_int v :: rat) / 32768 \<le> 0" by simp
  from fl_mono [OF this] show ?thesis
    using True by (auto simp: norm_sdl_axis_def in_unit_def py_max_def pyround_def Let_def)
next
  case False
  then have "0 \<le> (of_int v :: rat) / 32767" by simp
  from fl_nonneg [OF this] show ?thesis
    using False by (auto simp: norm_sdl_axis_def in_unit_def py_min_def pyround_def Let_def)
qed

lemma in_range_XInput:
  assumes "- 32768 \<le> v" "v \<le> 32767"
  shows "in_range (pyround (of_int v / 32767))"
proof -
  let ?x = "of_int v / 32767 :: rat"
  have "(of_int (- 32768) :: rat) \<le> of_int v" "(of_int v :: rat) \<le> of_int 32767"
    using assms by (simp_all only: of_int_le_iff)
  then have x: "- 32768 / 32767 \<le> ?x" "?x \<le> of_int 1" by simp_all
  then have "\<bar>?x\<bar> \<le> 2" by (simp add: abs_le_iff)
  then have "\<bar>fl ?x - ?x\<bar> \<le> 1 / 2 ^ 40" by (intro fl_near) simp
  moreover have "(1 :: rat) / 2 ^ 40 \<le> 1 / 1000000" by simp
  ultimately have "- 1 - 1 / 1000 \<le> fl ?x" using x(1) by linarith
  moreover have "fl ?x \<le> 1" using fl_mono [OF x(2)] fl_exact_int [of 1] by simp
  moreover have "pyround ?x = Fin (fl ?x)" using \<open>\<bar>?x\<bar> \<le> 2\<close> by (intro pyround_small) simp
  ultimately show ?thesis by (simp add: in_range_def)
qed

lemma in_unit_trigger:
  assumes "0 \<le> v" "v \<le> 255"
  shows "in_unit (pyround (of_int v / 255))"
proof -
  have "(0 :: rat) \<le> of_int v" "(of_int v :: rat) \<le> of_int 255" using assms by (simp_all only: of_int_le_iff of_int_0_le_iff)
  then have x: "0 \<le> (of_int v / 255 :: rat)" "(of_int v / 255 :: rat) \<le> 1" by simp_all
  then have "pyround (of_int v / 255) = Fin (fl (of_int v / 255))" by (intro pyround_small) simp
  moreover have "fl (of_int v / 255) \<le> 1" "0 \<le> fl (of_int v / 255 :: rat)" using fl_bounds [of 0 "of_int v / 255" 1] x by simp_all
  ultimately show ?thesis by (simp add: in_unit_def)
qed

lemma sint_u16: "- 32768 \<le> sint (w :: u16)" "sint (w :: u16) \<le> 32767"
  using sint_greater_eq [of w] sint_less [of w] by auto

lemma uint_u8: "0 \<le> uint (w :: u8)" "uint (w :: u8) \<le> 255"
  using uint_bounded [of w] by auto

lemma PadX_axis_range: "i < 6 \<Longrightarrow> \<exists>v. PadX_axis g i = Inr v \<and> in_range v"
proof -
  have s: "in_range (pyround (signed w / 32767))" for w :: u16
    using in_range_XInput [OF sint_u16, of w] by simp
  have u: "in_range (pyround (unsigned w / 255))" for w :: u8
    using in_unit_range [OF in_unit_trigger [OF uint_u8, of w]] by simp
  show "i < 6 \<Longrightarrow> \<exists>v. PadX_axis g i = Inr v \<and> in_range v"
    by (auto simp: PadX_axis_def Let_def less_Suc_eq numeral_eq_Suc s [unfolded numeral_eq_Suc] u [unfolded numeral_eq_Suc])
qed

lemma yields_set_pad: "K p \<Longrightarrow> (case p of PadSocket q \<Rightarrow> wf_pad q | _ \<Rightarrow> True) \<Longrightarrow> yields P (set_pad (Some p)) (\<lambda>_. has_pad K)"
  by (auto simp: yields_def set_pad_def has_pad_def)

lemma yields_key_axis: "yields (has_pad K) (key_axis W a b) (\<lambda>v t. has_pad K t \<and> in_unit v)"
  unfolding key_axis_def key_def
  by (intro yields_pbind [OF yields_has_pad_sense] yields_if yields_pret) (auto simp: in_unit_def)

lemma yields_axis:
  assumes "kind K" "i < 6"
  shows "yields (has_pad K) (axis W i) (\<lambda>v t. has_pad K t \<and> in_range v)"
  unfolding axis_def
proof (rule yields_with_pad)
  fix p assume p: "K p" "case p of PadSocket q \<Rightarrow> wf_pad q | _ \<Rightarrow> True"
  show "yields (\<lambda>s. has_pad K s \<and> pad s = Some p) (case p of
       PadX slot g \<Rightarrow> plift (PadX_axis g i)
     | PadSDL index \<Rightarrow> PadSDL_axis W index i
     | PadK center prev \<Rightarrow> PadK_axis W center prev i
     | PadSocket q \<Rightarrow> on_socket W q (\<lambda>t1 t2. socket_axis t1 t2 (int i))) (\<lambda>v t. has_pad K t \<and> in_range v)"
  proof (cases p)
    case (PadX slot g)
    with PadX_axis_range [OF assms(2), of g] show ?thesis by (auto simp: yields_def)
  next
    case (PadSDL index)
    have "in_range (norm_sdl_trigger v)" for v unfolding norm_sdl_trigger_def by (simp add: in_unit_range in_unit_clamp)
    then have "yields (has_pad K) (PadSDL_axis W index i) (\<lambda>v t. has_pad K t \<and> in_range v)"
      unfolding PadSDL_axis_def Let_def using assms(2)
      by (intro yields_if yields_pbind [OF yields_has_pad_sense] yields_pret)
        (auto simp: SDL_AXES_def in_unit_range in_unit_sdl in_unit_neg)
    with PadSDL show ?thesis by (auto intro: yields_keep)
  next
    case (PadK c q)
    have "yields (has_pad K) (PadK_axis W c q i) (\<lambda>v t. has_pad K t \<and> in_range v)"
    proof (cases "i = 0 \<or> i = 1 \<or> c = None \<or> \<not> have_mouse W")
      case True
      have "in_range (Fin 0)" by (simp add: in_range_def)
      with True show ?thesis unfolding PadK_axis_def
        by (auto intro!: yields_weaken [OF yields_key_axis] yields_pret simp: in_unit_range split: option.split)
    next
      case False
      then obtain d where d: "c = Some d" by auto
      have K: "K (PadK c d)" using assms(1) p(1) unfolding kind_def PadK by blast
      have r: "in_range (if i = 3 then mouse_axis a else if i = 4 then mouse_axis b else Fin 0)" for a b
        by (auto simp: mouse_axis_def in_unit_range in_unit_clamp) (simp add: in_range_def)
      show ?thesis
        using False K r unfolding PadK_axis_def d
        by (auto simp: Let_def split: prod.split intro!: yields_pbind [OF yields_has_pad_sense] yields_pbind [OF yields_set_pad] yields_pret)
    qed
    with PadK show ?thesis by (auto intro: yields_keep)
  next
    case (PadSocket q)
    with p show ?thesis
      using yields_on_socket [OF assms(1), of q W "\<lambda>t1 t2. socket_axis t1 t2 (int i)" in_range] by (auto simp: socket_results)
  qed
qed

lemma yields_hat:
  assumes "kind K"
  shows "yields (has_pad K) (pad_hat W) (\<lambda>h t. has_pad K t \<and> h \<in> hat_positions)"
  unfolding pad_hat_def
proof (rule yields_with_pad)
  fix p assume p: "K p" "case p of PadSocket q \<Rightarrow> wf_pad q | _ \<Rightarrow> True"
  show "yields (\<lambda>s. has_pad K s \<and> pad s = Some p) (case p of
       PadX slot g \<Rightarrow> pret (PadX_hat g)
     | PadSDL index \<Rightarrow> PadSDL_hat W index
     | PadK center prev \<Rightarrow> pret (0, 0)
     | PadSocket q \<Rightarrow> on_socket W q socket_hat) (\<lambda>h t. has_pad K t \<and> h \<in> hat_positions)"
  proof (cases p)
    case (PadX slot g)
    then show ?thesis by (auto simp: PadX_hat_def hat_positions_def Let_def intro!: yields_pret)
  next
    case (PadSDL index)
    have "yields (has_pad K) (PadSDL_hat W index) (\<lambda>h t. has_pad K t \<and> h \<in> hat_positions)"
      unfolding PadSDL_hat_def
      by (intro yields_pbind [OF yields_has_pad_sense] yields_pret) (auto simp: hat_positions_def)
    with PadSDL show ?thesis by (auto intro: yields_keep)
  next
    case (PadK c q)
    then show ?thesis by (auto simp: hat_positions_def intro!: yields_pret)
  next
    case (PadSocket q)
    with p show ?thesis
      using yields_on_socket [OF assms(1), of q W socket_hat "\<lambda>h. h \<in> hat_positions"] by (auto simp: socket_results)
  qed
qed

text \<open>The bits of a mask are among \<open>S\<close>.\<close>

definition bits_in :: "nat set \<Rightarrow> int \<Rightarrow> bool" where
  "bits_in S b \<longleftrightarrow> (\<forall>k. bit b k \<longrightarrow> k \<in> S)"

lemma bits_in_0 [simp]: "bits_in S 0" by (simp add: bits_in_def)

lemma bits_in_or [simp]: "bits_in S (a OR b) \<longleftrightarrow> bits_in S a \<and> bits_in S b"
  by (auto simp: bits_in_def bit_or_iff)

lemma bits_in_exp [simp]: "bits_in S (2 ^ n) \<longleftrightarrow> n \<in> S"
  by (auto simp: bits_in_def bit_exp_iff)

lemma bits_in_consts [simp]:
  "bits_in S 1 \<longleftrightarrow> 0 \<in> S" "bits_in S 2 \<longleftrightarrow> 1 \<in> S" "bits_in S 4 \<longleftrightarrow> 2 \<in> S" "bits_in S 8 \<longleftrightarrow> 3 \<in> S"
  "bits_in S 16 \<longleftrightarrow> 4 \<in> S" "bits_in S 32 \<longleftrightarrow> 5 \<in> S" "bits_in S 64 \<longleftrightarrow> 6 \<in> S" "bits_in S 128 \<longleftrightarrow> 7 \<in> S"
  "bits_in S 256 \<longleftrightarrow> 8 \<in> S" "bits_in S 512 \<longleftrightarrow> 9 \<in> S" "bits_in S 1024 \<longleftrightarrow> 10 \<in> S" "bits_in S 2048 \<longleftrightarrow> 11 \<in> S"
  "bits_in S 4096 \<longleftrightarrow> 12 \<in> S" "bits_in S 8192 \<longleftrightarrow> 13 \<in> S"
  using bits_in_exp [of S 0] bits_in_exp [of S 1] bits_in_exp [of S 2] bits_in_exp [of S 3] bits_in_exp [of S 4]
    bits_in_exp [of S 5] bits_in_exp [of S 6] bits_in_exp [of S 7] bits_in_exp [of S 8] bits_in_exp [of S 9]
    bits_in_exp [of S 10] bits_in_exp [of S 11] bits_in_exp [of S 12] bits_in_exp [of S 13]
  by simp_all

lemma yields_or_bit:
  assumes "yields P c (\<lambda>x t. P' t \<and> (x \<longrightarrow> bits_in S m))" "bits_in S b"
  shows "yields P (or_bit c m b) (\<lambda>b t. P' t \<and> bits_in S b)"
  unfolding or_bit_def using assms(2) by (intro yields_pbind [OF assms(1)] yields_pret) auto

lemma yields_button_bits:
  assumes "\<And>i m. (i, m) \<in> set l \<Longrightarrow> yields P (btn W i) (\<lambda>x t. P t \<and> (x \<longrightarrow> bits_in S m))" "bits_in S b"
  shows "yields P (button_bits W l b) (\<lambda>b t. P t \<and> bits_in S b)"
  using assms
proof (induction l arbitrary: b)
  case Nil
  then show ?case unfolding button_bits.simps by (intro yields_pret) auto
next
  case (Cons e l)
  obtain i m where e: "e = (i, m)" by (cases e)
  have "yields P (or_bit (btn W i) m b) (\<lambda>b t. P t \<and> bits_in S b)"
    using Cons.prems by (intro yields_or_bit) (auto simp: e)
  moreover have "yields (\<lambda>t. P t \<and> bits_in S b') (button_bits W l b') (\<lambda>b t. P t \<and> bits_in S b)" for b'
  proof (rule yields_pure [where C = "bits_in S b'"])
    assume "bits_in S b'"
    from Cons.IH [OF Cons.prems(1) [OF list.set_intros(2)] this]
    show "yields (\<lambda>t. P t \<and> bits_in S b') (button_bits W l b') (\<lambda>b t. P t \<and> bits_in S b)"
      by (rule yields_weaken) auto
  qed simp
  ultimately show ?case unfolding e button_bits.simps by (rule yields_pbind)
qed

definition good_packet :: "nat set \<Rightarrow> packet \<Rightarrow> bool" where
  "good_packet S k \<longleftrightarrow> bits_in S (pk_b k) \<and> 0 \<le> pk_d k \<and> pk_d k \<le> 8 \<and>
     in_range (pk_lx k) \<and> in_range (pk_ly k) \<and> in_range (pk_rx k) \<and> in_range (pk_ry k)"

lemma HAT_MAP_total: "h \<in> hat_positions \<Longrightarrow> \<exists>d. map_of HAT_MAP h = Some d \<and> 0 \<le> d \<and> d \<le> 8"
  by (auto simp: hat_positions_def HAT_MAP_def)

lemma yields_build_packet:
  fixes K :: "pad \<Rightarrow> bool"
  defines "P \<equiv> (has_pad K :: 'z client_scheme \<Rightarrow> bool)"
  assumes K: "kind K"
    and btns: "\<And>i m. (i, m) \<in> set BTN_MAP \<Longrightarrow> yields P (btn W i) (\<lambda>x t. P t \<and> (x \<longrightarrow> bits_in S m))"
    and special: "\<And>b. bits_in S b \<Longrightarrow> yields P (special_bits W b) (\<lambda>b t. P t \<and> bits_in S b)"
  shows "yields P (build_packet W) (\<lambda>k t. P t \<and> good_packet S k)"
  unfolding build_packet_def
proof (rule yields_pbind)
  show "yields P (button_bits W BTN_MAP 0) (\<lambda>b t. P t \<and> bits_in S b)"
    by (rule yields_button_bits [OF btns]) auto
next
  fix b
  let ?rest = "\<lambda>b d. pbind (axis W 0) (\<lambda>lx. pbind (axis W 1) (\<lambda>ly. pbind (axis W 3) (\<lambda>rx. pbind (axis W 4) (\<lambda>ry.
         pret \<lparr>pk_b = b, pk_d = d, pk_lx = lx, pk_ly = ly, pk_rx = rx, pk_ry = ry\<rparr>))))"
  have ax: "yields (\<lambda>s. P s \<and> C) (axis W i) (\<lambda>v t. P t \<and> C \<and> in_range v)" if "i < 6" for i C
    using yields_axis [OF K that, of W] unfolding P_def by (cases C) (simp_all add: yields_def)
  have rest: "yields (\<lambda>s. P s \<and> bits_in S b \<and> 0 \<le> d \<and> d \<le> 8) (?rest b d) (\<lambda>k t. P t \<and> good_packet S k)" for b d
    by (intro yields_pbind [OF ax [of 0]] yields_pbind [OF ax [of 1]] yields_pbind [OF ax [of 3]] yields_pbind [OF ax [of 4]] yields_pret)
      (auto simp: good_packet_def)
  have "yields (\<lambda>t. P t \<and> bits_in S b) (special_bits W b) (\<lambda>b t. P t \<and> bits_in S b)"
    by (rule yields_pure [where C = "bits_in S b", OF _ yields_weaken [OF special]]) auto
  moreover have "yields (\<lambda>t. P t \<and> bits_in S b) (pbind (pad_hat W) (\<lambda>h.
     case map_of HAT_MAP h of None \<Rightarrow> praise KeyError | Some d \<Rightarrow> ?rest b d)) (\<lambda>k t. P t \<and> good_packet S k)" for b
  proof (rule yields_pbind)
    show "yields (\<lambda>t. P t \<and> bits_in S b) (pad_hat W) (\<lambda>h t. P t \<and> bits_in S b \<and> h \<in> hat_positions)"
      using yields_hat [OF K, of W] unfolding P_def by (cases "bits_in S b") (simp_all add: yields_def)
    show "yields (\<lambda>t. P t \<and> bits_in S b \<and> h \<in> hat_positions)
      (case map_of HAT_MAP h of None \<Rightarrow> praise KeyError | Some d \<Rightarrow> ?rest b d) (\<lambda>k t. P t \<and> good_packet S k)" for h
    proof (rule yields_pure [where C = "h \<in> hat_positions"])
      assume "h \<in> hat_positions"
      then obtain d where d: "map_of HAT_MAP h = Some d" "0 \<le> d" "d \<le> 8" using HAT_MAP_total by blast
      show "yields (\<lambda>t. P t \<and> bits_in S b \<and> h \<in> hat_positions)
        (case map_of HAT_MAP h of None \<Rightarrow> praise KeyError | Some d \<Rightarrow> ?rest b d) (\<lambda>k t. P t \<and> good_packet S k)"
        unfolding d(1) option.case using d by (intro yields_weaken [OF rest [of b d]]) auto
    qed simp
  qed
  ultimately show "yields (\<lambda>t. P t \<and> bits_in S b) (pbind (special_bits W b) (\<lambda>b. pbind (pad_hat W) (\<lambda>h.
     case map_of HAT_MAP h of None \<Rightarrow> praise KeyError | Some d \<Rightarrow> ?rest b d))) (\<lambda>k t. P t \<and> good_packet S k)"
    by (rule yields_pbind)
qed

lemma fold_or_bits:
  "\<forall>(m, u) \<in> set l. bits_in S m \<Longrightarrow> bits_in S b \<Longrightarrow>
   bits_in S (fold (\<lambda>(m, until) bits. if flt t until then bits OR m else bits) l b)"
  by (induction l arbitrary: b) (auto split: prod.split)

lemma socket_extra_bits: "wf_pad q \<Longrightarrow> {12, 13} \<subseteq> S \<Longrightarrow> bits_in S (fst (socket_extra_buttons t1 t2 q))"
  using wf_pad_expire [of q t1]
  by (auto simp: socket_extra_buttons_def Let_def wf_pad_def intro!: fold_or_bits)

lemma yields_over_half: "kind K \<Longrightarrow> i < 6 \<Longrightarrow> yields (has_pad K) (over_half W i) (\<lambda>_. has_pad K)"
  unfolding over_half_def by (intro yields_pbind [OF yields_axis] yields_pret) auto

lemma yields_logic:
  assumes "yields P a (\<lambda>_. P)" "yields P b (\<lambda>_. P)"
  shows "yields P (pand a b) (\<lambda>_. P)" "yields P (por a b) (\<lambda>_. P)"
  unfolding pand_def por_def by (intro yields_pbind [OF assms(1)] yields_if assms(2) yields_pret; assumption)+

lemma yields_or_bit': "yields P c (\<lambda>_. P) \<Longrightarrow> bits_in S m \<Longrightarrow> bits_in S b \<Longrightarrow> yields P (or_bit c m b) (\<lambda>b t. P t \<and> bits_in S b)"
  by (intro yields_or_bit) (auto elim: yields_weaken)

lemma yields_or_bits:
  assumes "\<And>b. bits_in S b \<Longrightarrow> yields P (m b) (\<lambda>b t. P t \<and> bits_in S b)"
    and "\<And>b. bits_in S b \<Longrightarrow> yields P (f b) (\<lambda>b t. P t \<and> bits_in S b)" "bits_in S b"
  shows "yields P (pbind (m b) f) (\<lambda>b t. P t \<and> bits_in S b)"
proof (rule yields_pbind [OF assms(1) [OF assms(3)]])
  fix b show "yields (\<lambda>t. P t \<and> bits_in S b) (f b) (\<lambda>b t. P t \<and> bits_in S b)"
    by (rule yields_pure [where C = "bits_in S b", OF _ yields_weaken [OF assms(2)]]) auto
qed

lemma yields_key: "yields (has_pad K) (key W k) (\<lambda>_. has_pad K)"
  unfolding key_def by (rule yields_has_pad_sense)

lemma yields_special_bits:
  assumes K: "kind K" and S: "{12, 13} \<subseteq> S" "\<And>p. K p \<Longrightarrow> \<not> is_socket p \<Longrightarrow> {6, 7} \<subseteq> S" and b: "bits_in S b"
  shows "yields (has_pad K) (special_bits W b) (\<lambda>b t. has_pad K t \<and> bits_in S b)"
  unfolding special_bits_def
proof (rule yields_with_pad)
  fix p assume p: "K p" "case p of PadSocket q \<Rightarrow> wf_pad q | _ \<Rightarrow> True"
  let ?c = "pbind (or_bit (por (pand (btn W 6) (btn W 7)) (btn W 8)) 0x1000 b) (\<lambda>b.
         pbind (or_bit (over_half W 2) 0x40 b) (or_bit (over_half W 5) 0x80))"
  let ?k = "pbind (or_bit (key W ''h'') 0x1000 b) (\<lambda>b.
         pbind (or_bit (key W ''c'') 0x2000 b) (\<lambda>b.
         pbind (or_bit (key W ''shift'') 0x40 b) (or_bit (key W ''ctrl'') 0x80)))"
  have c: "yields (has_pad K) ?c (\<lambda>b t. has_pad K t \<and> bits_in S b)" if "{6, 7} \<subseteq> S"
    using S(1) that b
    by (intro yields_or_bits yields_or_bit' yields_logic yields_btn [OF K] yields_over_half [OF K]) auto
  have k: "yields (has_pad K) ?k (\<lambda>b t. has_pad K t \<and> bits_in S b)" if "{6, 7} \<subseteq> S"
    using S(1) that b by (intro yields_or_bits yields_or_bit' yields_key) auto
  show "yields (\<lambda>s. has_pad K s \<and> pad s = Some p) (case p of
       PadK center prev \<Rightarrow> ?k
     | PadSocket q \<Rightarrow> pbind (on_socket W q socket_extra_buttons) (\<lambda>bits. pret (b OR bits))
     | _ \<Rightarrow> ?c) (\<lambda>b t. has_pad K t \<and> bits_in S b)"
  proof (cases p)
    case (PadSocket q)
    from yields_on_socket [OF K, of q W socket_extra_buttons "bits_in S"] p S(1) b show ?thesis unfolding PadSocket
      by (auto simp: socket_results socket_extra_bits intro!: yields_pbind yields_pret)
  qed (use S(2) [OF p(1)] c k in \<open>auto simp: is_socket_def intro!: yields_keep\<close>)
qed

text \<open>Whatever the pad, a packet can be built and its bytes are bytes.\<close>

lemma BTN_MAP_entries: "(i, m) \<in> set BTN_MAP \<Longrightarrow> i < 11 \<and> bits_in {..<14} m"
  by (auto simp: BTN_MAP_def)

lemma build_packet_any: "yields (has_pad (\<lambda>_. True)) (build_packet W) (\<lambda>k t. has_pad (\<lambda>_. True) t \<and> good_packet {..<14} k)"
proof (rule yields_build_packet [OF kind_any])
  show "yields (has_pad (\<lambda>_. True)) (btn W i) (\<lambda>x t. has_pad (\<lambda>_. True) t \<and> (x \<longrightarrow> bits_in {..<14} m))"
    if "(i, m) \<in> set BTN_MAP" for i m
    using BTN_MAP_entries [OF that] by (intro yields_weaken [OF yields_btn [OF kind_any]]) auto
  show "yields (has_pad (\<lambda>_. True)) (special_bits W b) (\<lambda>b t. has_pad (\<lambda>_. True) t \<and> bits_in {..<14} b)"
    if "bits_in {..<14} b" for b
    using that by (intro yields_special_bits kind_any) auto
qed

lemma pack_bytes:
  assumes "good_packet S k"
  obtains bs where "pack k s = Some (Inr bs, s)" "length bs = 8" "\<forall>x \<in> set bs. 0 \<le> x \<and> x \<le> 255"
proof -
  from assms have r: "in_range (pk_lx k)" "in_range (pk_ly k)" "in_range (pk_rx k)" "in_range (pk_ry k)"
    by (auto simp: good_packet_def)
  obtain a where a: "norm_axis (pk_lx k) = Inr a" "0 \<le> a" "a \<le> 255" using norm_axis_range [OF r(1)] by blast
  obtain b where b: "norm_axis (pk_ly k) = Inr b" "0 \<le> b" "b \<le> 255" using norm_axis_range [OF r(2)] by blast
  obtain c where c: "norm_axis (pk_rx k) = Inr c" "0 \<le> c" "c \<le> 255" using norm_axis_range [OF r(3)] by blast
  obtain d where d: "norm_axis (pk_ry k) = Inr d" "0 \<le> d" "d \<le> 255" using norm_axis_range [OF r(4)] by blast
  have m: "0 \<le> x AND 255 \<and> x AND 255 \<le> (255 :: int)" for x
    using take_bit_eq_mask [of 8 x] take_bit_nonnegative [of 8 x] take_bit_int_less_exp [of 8 x]
    by (simp add: mask_eq_exp_minus_1)
  have "pack k s = Some (Inr [drop_bit 8 (pk_b k) AND 0xFF, pk_b k AND 0xFF, pk_d k AND 0xFF,
           dead_zone a, dead_zone b, dead_zone c, dead_zone d, 0], s)"
    by (simp add: pack_def pbind_def a(1) b(1) c(1) d(1))
  then show thesis using a b c d m by (intro that) (auto simp: dead_zone_def)
qed

end
