(* ===== verification/Datatypes.thy ===== *)
theory Datatypes
  imports Prelude
begin

text \<open>
  The data of \<open>datatypes.h\<close>: the enumerations of the UART and USB protocols with
  their values, the packet buffer of the UART receiver and the standard input
  report with its layout in memory.
\<close>

section \<open>Enumerations\<close>

datatype JoystickButtons_t =
    SWITCH_Y | SWITCH_B | SWITCH_A | SWITCH_X | SWITCH_L | SWITCH_R | SWITCH_ZL | SWITCH_ZR
  | SWITCH_MINUS | SWITCH_PLUS | SWITCH_LCLICK | SWITCH_RCLICK | SWITCH_HOME | SWITCH_CAPTURE

fun button_value :: "JoystickButtons_t \<Rightarrow> u16" where
  "button_value SWITCH_Y = 0x01"
| "button_value SWITCH_B = 0x02"
| "button_value SWITCH_A = 0x04"
| "button_value SWITCH_X = 0x08"
| "button_value SWITCH_L = 0x10"
| "button_value SWITCH_R = 0x20"
| "button_value SWITCH_ZL = 0x40"
| "button_value SWITCH_ZR = 0x80"
| "button_value SWITCH_MINUS = 0x100"
| "button_value SWITCH_PLUS = 0x200"
| "button_value SWITCH_LCLICK = 0x400"
| "button_value SWITCH_RCLICK = 0x800"
| "button_value SWITCH_HOME = 0x1000"
| "button_value SWITCH_CAPTURE = 0x2000"

datatype battery = BATTERY_FULL | BATTERY_MEDIUM | BATTERY_LOW | BATTERY_CRITICAL | BATTERY_EMPTY
  | BATTERY_CHARGING

fun battery_value :: "battery \<Rightarrow> 4 word" where
  "battery_value BATTERY_FULL = 0x08"
| "battery_value BATTERY_MEDIUM = 0x06"
| "battery_value BATTERY_LOW = 0x04"
| "battery_value BATTERY_CRITICAL = 0x02"
| "battery_value BATTERY_EMPTY = 0x00"
| "battery_value BATTERY_CHARGING = 0x01"

datatype hat = HAT_TOP | HAT_TOP_RIGHT | HAT_RIGHT | HAT_BOTTOM_RIGHT | HAT_BOTTOM
  | HAT_BOTTOM_LEFT | HAT_LEFT | HAT_TOP_LEFT | HAT_CENTER

fun hat_value :: "hat \<Rightarrow> u8" where
  "hat_value HAT_TOP = 0x00"
| "hat_value HAT_TOP_RIGHT = 0x01"
| "hat_value HAT_RIGHT = 0x02"
| "hat_value HAT_BOTTOM_RIGHT = 0x03"
| "hat_value HAT_BOTTOM = 0x04"
| "hat_value HAT_BOTTOM_LEFT = 0x05"
| "hat_value HAT_LEFT = 0x06"
| "hat_value HAT_TOP_LEFT = 0x07"
| "hat_value HAT_CENTER = 0x08"

datatype stick_constant = STICK_MIN | STICK_CENTER | STICK_MAX

fun stick_value :: "stick_constant \<Rightarrow> u8" where
  "stick_value STICK_MIN = 0"
| "stick_value STICK_CENTER = 128"
| "stick_value STICK_MAX = 255"

datatype Command_t = COMMAND_NOP | COMMAND_SYNC_1 | COMMAND_SYNC_2 | COMMAND_SYNC_START

fun command_value :: "Command_t \<Rightarrow> u8" where
  "command_value COMMAND_NOP = 0"
| "command_value COMMAND_SYNC_1 = 0x33"
| "command_value COMMAND_SYNC_2 = 0xCC"
| "command_value COMMAND_SYNC_START = 0xFF"

datatype Response_t = RESP_USB_ACK | RESP_UPDATE_ACK | RESP_UPDATE_NACK | RESP_SYNC_START
  | RESP_SYNC_1 | RESP_SYNC_OK

fun response_value :: "Response_t \<Rightarrow> u8" where
  "response_value RESP_USB_ACK = 0x90"
| "response_value RESP_UPDATE_ACK = 0x91"
| "response_value RESP_UPDATE_NACK = 0x92"
| "response_value RESP_SYNC_START = 0xFF"
| "response_value RESP_SYNC_1 = 0xCC"
| "response_value RESP_SYNC_OK = 0x33"

datatype Switch_Subcommand_t =
    SUBCOMMAND_CONTROLLER_STATE_ONLY | SUBCOMMAND_BLUETOOTH_MANUAL_PAIRING
  | SUBCOMMAND_REQUEST_DEVICE_INFO | SUBCOMMAND_SET_INPUT_REPORT_MODE
  | SUBCOMMAND_TRIGGER_BUTTONS_ELAPSED_TIME | SUBCOMMAND_GET_PAGE_LIST_STATE
  | SUBCOMMAND_SET_HCI_STATE | SUBCOMMAND_RESET_PAIRING_INFO
  | SUBCOMMAND_SET_SHIPMENT_LOW_POWER_STATE | SUBCOMMAND_SPI_FLASH_READ
  | SUBCOMMAND_SPI_FLASH_WRITE | SUBCOMMAND_SPI_SECTOR_ERASE | SUBCOMMAND_RESET_NFC_IR_MCU
  | SUBCOMMAND_SET_NFC_IR_MCU_CONFIG | SUBCOMMAND_SET_NFC_IR_MCU_STATE
  | SUBCOMMAND_SET_PLAYER_LIGHTS | SUBCOMMAND_GET_PLAYER_LIGHTS | SUBCOMMAND_SET_HOME_LIGHTS
  | SUBCOMMAND_ENABLE_IMU | SUBCOMMAND_SET_IMU_SENSITIVITY | SUBCOMMAND_WRITE_IMU_REGISTERS
  | SUBCOMMAND_READ_IMU_REGISTERS | SUBCOMMAND_ENABLE_VIBRATION | SUBCOMMAND_GET_REGULATED_VOLTAGE

fun subcommand_value :: "Switch_Subcommand_t \<Rightarrow> u8" where
  "subcommand_value SUBCOMMAND_CONTROLLER_STATE_ONLY = 0x00"
| "subcommand_value SUBCOMMAND_BLUETOOTH_MANUAL_PAIRING = 0x01"
| "subcommand_value SUBCOMMAND_REQUEST_DEVICE_INFO = 0x02"
| "subcommand_value SUBCOMMAND_SET_INPUT_REPORT_MODE = 0x03"
| "subcommand_value SUBCOMMAND_TRIGGER_BUTTONS_ELAPSED_TIME = 0x04"
| "subcommand_value SUBCOMMAND_GET_PAGE_LIST_STATE = 0x05"
| "subcommand_value SUBCOMMAND_SET_HCI_STATE = 0x06"
| "subcommand_value SUBCOMMAND_RESET_PAIRING_INFO = 0x07"
| "subcommand_value SUBCOMMAND_SET_SHIPMENT_LOW_POWER_STATE = 0x08"
| "subcommand_value SUBCOMMAND_SPI_FLASH_READ = 0x10"
| "subcommand_value SUBCOMMAND_SPI_FLASH_WRITE = 0x11"
| "subcommand_value SUBCOMMAND_SPI_SECTOR_ERASE = 0x12"
| "subcommand_value SUBCOMMAND_RESET_NFC_IR_MCU = 0x20"
| "subcommand_value SUBCOMMAND_SET_NFC_IR_MCU_CONFIG = 0x21"
| "subcommand_value SUBCOMMAND_SET_NFC_IR_MCU_STATE = 0x22"
| "subcommand_value SUBCOMMAND_SET_PLAYER_LIGHTS = 0x30"
| "subcommand_value SUBCOMMAND_GET_PLAYER_LIGHTS = 0x31"
| "subcommand_value SUBCOMMAND_SET_HOME_LIGHTS = 0x38"
| "subcommand_value SUBCOMMAND_ENABLE_IMU = 0x40"
| "subcommand_value SUBCOMMAND_SET_IMU_SENSITIVITY = 0x41"
| "subcommand_value SUBCOMMAND_WRITE_IMU_REGISTERS = 0x42"
| "subcommand_value SUBCOMMAND_READ_IMU_REGISTERS = 0x43"
| "subcommand_value SUBCOMMAND_ENABLE_VIBRATION = 0x48"
| "subcommand_value SUBCOMMAND_GET_REGULATED_VOLTAGE = 0x50"

datatype SPI_Address_t = ADDRESS_SERIAL_NUMBER | ADDRESS_CONTROLLER_COLOR
  | ADDRESS_FACTORY_PARAMETERS_1 | ADDRESS_FACTORY_PARAMETERS_2
  | ADDRESS_FACTORY_CALIBRATION_1 | ADDRESS_FACTORY_CALIBRATION_2
  | ADDRESS_STICKS_CALIBRATION | ADDRESS_IMU_CALIBRATION

fun spi_address_value :: "SPI_Address_t \<Rightarrow> u16" where
  "spi_address_value ADDRESS_SERIAL_NUMBER = 0x6000"
| "spi_address_value ADDRESS_CONTROLLER_COLOR = 0x6050"
| "spi_address_value ADDRESS_FACTORY_PARAMETERS_1 = 0x6080"
| "spi_address_value ADDRESS_FACTORY_PARAMETERS_2 = 0x6098"
| "spi_address_value ADDRESS_FACTORY_CALIBRATION_1 = 0x6020"
| "spi_address_value ADDRESS_FACTORY_CALIBRATION_2 = 0x603D"
| "spi_address_value ADDRESS_STICKS_CALIBRATION = 0x8010"
| "spi_address_value ADDRESS_IMU_CALIBRATION = 0x8028"

section \<open>Structures\<close>

record Serial_Input_Packet_t =
  input :: bytes
  crc8_ccitt :: u8
  received_bytes :: u8

text \<open>
  \<open>USB_StandardReport_t\<close>, one field per bit field of the source. \<open>analog\<close> is the
  array of six bytes.
\<close>

record USB_StandardReport_t =
  connection_info :: "4 word"
  battery_level :: "4 word"
  button_y :: bool
  button_x :: bool
  button_b :: bool
  button_a :: bool
  button_right_sr :: bool
  button_right_sl :: bool
  button_r :: bool
  button_zr :: bool
  button_minus :: bool
  button_plus :: bool
  button_thumb_r :: bool
  button_thumb_l :: bool
  button_home :: bool
  button_capture :: bool
  dummy :: "1 word"
  charging_grip :: bool
  dpad_down :: bool
  dpad_up :: bool
  dpad_right :: bool
  dpad_left :: bool
  button_left_sr :: bool
  button_left_sl :: bool
  button_l :: bool
  button_zl :: bool
  analog :: bytes
  vibrator_input_report :: u8

text \<open>
  The eleven bytes of the structure in memory: avr-gcc fills bit fields from the
  least significant bit, and \<open>-fpack-struct\<close> leaves no padding.
\<close>

definition report_bytes :: "USB_StandardReport_t \<Rightarrow> bytes" where
  "report_bytes r =
     [ucast (connection_info r) OR push_bit 4 (ucast (battery_level r)),
      byte_of_bits [button_y r, button_x r, button_b r, button_a r,
        button_right_sr r, button_right_sl r, button_r r, button_zr r],
      byte_of_bits [button_minus r, button_plus r, button_thumb_r r, button_thumb_l r,
        button_home r, button_capture r, bit (dummy r) 0, charging_grip r],
      byte_of_bits [dpad_down r, dpad_up r, dpad_right r, dpad_left r,
        button_left_sr r, button_left_sl r, button_l r, button_zl r]]
     @ analog r @ [vibrator_input_report r]"

abbreviation (input) sizeof_USB_StandardReport_t :: nat where
  "sizeof_USB_StandardReport_t \<equiv> 11"

definition wf_report :: "USB_StandardReport_t \<Rightarrow> bool" where
  "wf_report r \<longleftrightarrow> length (analog r) = 6"

text \<open>How the console reads the eleven bytes back.\<close>

definition report_of_bytes :: "bytes \<Rightarrow> USB_StandardReport_t" where
  "report_of_bytes b =
     \<lparr>connection_info = ucast (b ! 0), battery_level = ucast (drop_bit 4 (b ! 0)),
      button_y = bit (b ! 1) 0, button_x = bit (b ! 1) 1, button_b = bit (b ! 1) 2,
      button_a = bit (b ! 1) 3, button_right_sr = bit (b ! 1) 4, button_right_sl = bit (b ! 1) 5,
      button_r = bit (b ! 1) 6, button_zr = bit (b ! 1) 7,
      button_minus = bit (b ! 2) 0, button_plus = bit (b ! 2) 1, button_thumb_r = bit (b ! 2) 2,
      button_thumb_l = bit (b ! 2) 3, button_home = bit (b ! 2) 4, button_capture = bit (b ! 2) 5,
      dummy = of_bool (bit (b ! 2) 6), charging_grip = bit (b ! 2) 7,
      dpad_down = bit (b ! 3) 0, dpad_up = bit (b ! 3) 1, dpad_right = bit (b ! 3) 2,
      dpad_left = bit (b ! 3) 3, button_left_sr = bit (b ! 3) 4, button_left_sl = bit (b ! 3) 5,
      button_l = bit (b ! 3) 6, button_zl = bit (b ! 3) 7,
      analog = take 6 (drop 4 b), vibrator_input_report = b ! 10\<rparr>"

lemma length_report_bytes [simp]:
  "wf_report r \<Longrightarrow> length (report_bytes r) = sizeof_USB_StandardReport_t"
  by (simp add: wf_report_def report_bytes_def)

lemma nibble_low: "ucast (ucast (a :: 4 word) OR push_bit 4 (ucast (b :: 4 word)) :: u8) = a"
  by (rule bit_word_eqI) (auto simp: bit_simps)

lemma nibble_high:
  "ucast (drop_bit 4 (ucast (a :: 4 word)) OR drop_bit 4 (push_bit 4 (ucast (b :: 4 word))) :: u8) = b"
  by (rule bit_word_eqI) (auto simp: bit_simps dest: bit_imp_le_length)

lemma of_bool_bit_1word: "(of_bool (bit (d :: 1 word) 0) :: 1 word) = d"
  by (rule bit_word_eqI) (auto simp: bit_simps)

lemma report_roundtrip:
  "wf_report r \<Longrightarrow> report_of_bytes (report_bytes r) = r"
  by (cases r) (simp add: wf_report_def report_bytes_def report_of_bytes_def
      bit_byte_of_bits nibble_low nibble_high of_bool_bit_1word nth_append)

end
