(* ===== verification/Hardware.thy ===== *)
theory Hardware
  imports Prelude
begin

text \<open>
  The ATmega16U2 as the C code sees it: memory-mapped registers that are read
  and written, busy-wait loops on their bits, and a few inline routines of
  avr-libc. What a register read returns is decided outside the program, by
  the peripheral, the USB host and the UART peer. That behaviour is the
  parameter \<open>environment\<close>: an arbitrary function of the whole history of
  accesses, so a theorem for every environment holds for every hardware and
  every host. The history (newest event first) is part of the state; it is
  also what theorems about the order of register accesses talk about.
\<close>

section \<open>Registers and accesses\<close>

datatype reg =
    UENUM | UECFG0X | UECFG1X | UECONX | UEINTX | UEIENX | UEINT | UESTA0X | UEBCLX
  | UEDATX | UERST | UDADDR | UDCON | UDINT | UDIEN | USBCON | REGCR | PLLCSR
  | UCSR1A | UCSR1B | UCSR1C | UCSR1D | UDR1 | PORTD | PIND | DDRD | MCUSR | SREG

datatype libcall = WdtDisable | ClockPrescaleSet u8 | Sei | Cli

datatype usb_device_state =
    DEVICE_STATE_Unattached | DEVICE_STATE_Powered | DEVICE_STATE_Default
  | DEVICE_STATE_Addressed | DEVICE_STATE_Configured | DEVICE_STATE_Suspended

datatype io =
    Rd reg u8
  | Wr reg u8
  | WrUBRR1 u16
  | RdFrame u16
  | RdState usb_device_state
  | LibCall libcall

text \<open>
  \<open>reg_value\<close> answers register reads, \<open>frame_number\<close> reads of the 16-bit
  register \<open>UDFNUM\<close>. \<open>isr_state\<close> is what the USB interrupt routine has stored
  in the volatile variable \<open>USB_DeviceState\<close> by the time the main program
  reads it (\<open>None\<close>: nothing since the last access). \<open>data_mem\<close> is the content
  of data memory at an absolute address, \<open>signature_byte\<close> the signature row of the
  chip that \<open>boot_signature_byte_get\<close> reads.
\<close>

record environment =
  reg_value :: "reg \<Rightarrow> io list \<Rightarrow> u8"
  frame_number :: "io list \<Rightarrow> u16"
  isr_state :: "io list \<Rightarrow> usb_device_state option"
  data_mem :: "u16 \<Rightarrow> u8"
  signature_byte :: "u8 \<Rightarrow> u8"

record io_st =
  io_log :: "io list"

definition event :: "io \<Rightarrow> 'a io_st_scheme \<Rightarrow> 'a io_st_scheme" where
  "event e s = s\<lparr>io_log := e # io_log s\<rparr>"

definition rd :: "environment \<Rightarrow> reg \<Rightarrow> 'a io_st_scheme \<Rightarrow> u8 \<times> 'a io_st_scheme" where
  "rd E r s = (let v = reg_value E r (io_log s) in (v, event (Rd r v) s))"

definition wr :: "reg \<Rightarrow> u8 \<Rightarrow> 'a io_st_scheme \<Rightarrow> 'a io_st_scheme" where
  "wr r v s = event (Wr r v) s"

text \<open>The read-modify-write statements \<open>r |= m\<close> and \<open>r &= ~m\<close>.\<close>

definition set_bits :: "environment \<Rightarrow> reg \<Rightarrow> u8 \<Rightarrow> 'a io_st_scheme \<Rightarrow> 'a io_st_scheme" where
  "set_bits E r m s = (let (v, s) = rd E r s in wr r (v OR m) s)"

definition clr_bits :: "environment \<Rightarrow> reg \<Rightarrow> u8 \<Rightarrow> 'a io_st_scheme \<Rightarrow> 'a io_st_scheme" where
  "clr_bits E r m s = (let (v, s) = rd E r s in wr r (v AND NOT m) s)"

definition test_bit :: "environment \<Rightarrow> reg \<Rightarrow> nat \<Rightarrow> 'a io_st_scheme \<Rightarrow> bool \<times> 'a io_st_scheme" where
  "test_bit E r n s = (let (v, s) = rd E r s in (bit v n, s))"

text \<open>
  A busy-wait loop \<open>while (!(r & (1 << n)));\<close>. It returns \<open>None\<close> when the bit
  never comes: the program hangs.
\<close>

partial_function (option) wait_bit ::
  "environment \<Rightarrow> reg \<Rightarrow> nat \<Rightarrow> 'a io_st_scheme \<Rightarrow> 'a io_st_scheme option" where
  "wait_bit E r n s =
     (if bit (reg_value E r (io_log s)) n then Some (snd (rd E r s))
      else wait_bit E r n (snd (rd E r s)))"

text \<open>The opposite loop \<open>while (r & (1 << n));\<close>.\<close>

partial_function (option) wait_bit_clear ::
  "environment \<Rightarrow> reg \<Rightarrow> nat \<Rightarrow> 'a io_st_scheme \<Rightarrow> 'a io_st_scheme option" where
  "wait_bit_clear E r n s =
     (if \<not> bit (reg_value E r (io_log s)) n then Some (snd (rd E r s))
      else wait_bit_clear E r n (snd (rd E r s)))"

section \<open>Bit numbers of the registers\<close>

abbreviation (input) BV :: "nat \<Rightarrow> u8" where "BV n \<equiv> push_bit n 1"

abbreviation (input) TXINI :: nat where "TXINI \<equiv> 0"
abbreviation (input) RXOUTI :: nat where "RXOUTI \<equiv> 2"
abbreviation (input) RXSTPI :: nat where "RXSTPI \<equiv> 3"
abbreviation (input) RWAL :: nat where "RWAL \<equiv> 5"
abbreviation (input) FIFOCON :: nat where "FIFOCON \<equiv> 7"
abbreviation (input) EPEN :: nat where "EPEN \<equiv> 0"
abbreviation (input) RSTDT :: nat where "RSTDT \<equiv> 3"
abbreviation (input) STALLRQC :: nat where "STALLRQC \<equiv> 4"
abbreviation (input) STALLRQ :: nat where "STALLRQ \<equiv> 5"
abbreviation (input) EPDIR :: nat where "EPDIR \<equiv> 0"
abbreviation (input) EPTYPE0 :: nat where "EPTYPE0 \<equiv> 6"
abbreviation (input) ALLOC :: nat where "ALLOC \<equiv> 1"
abbreviation (input) EPBK0 :: nat where "EPBK0 \<equiv> 2"
abbreviation (input) EPSIZE0 :: nat where "EPSIZE0 \<equiv> 4"
abbreviation (input) CFGOK :: nat where "CFGOK \<equiv> 7"
abbreviation (input) ADDEN :: nat where "ADDEN \<equiv> 7"
abbreviation (input) DETACH :: nat where "DETACH \<equiv> 0"
abbreviation (input) RMWKUP :: nat where "RMWKUP \<equiv> 1"
abbreviation (input) SUSPI :: nat where "SUSPI \<equiv> 0"
abbreviation (input) SOFI :: nat where "SOFI \<equiv> 2"
abbreviation (input) EORSTI :: nat where "EORSTI \<equiv> 3"
abbreviation (input) WAKEUPI :: nat where "WAKEUPI \<equiv> 4"
abbreviation (input) FRZCLK :: nat where "FRZCLK \<equiv> 5"
abbreviation (input) USBE :: nat where "USBE \<equiv> 7"
abbreviation (input) REGDIS :: nat where "REGDIS \<equiv> 0"
abbreviation (input) PLOCK :: nat where "PLOCK \<equiv> 0"
abbreviation (input) PLLE :: nat where "PLLE \<equiv> 1"
abbreviation (input) RXC1 :: nat where "RXC1 \<equiv> 7"
abbreviation (input) UDRE1 :: nat where "UDRE1 \<equiv> 5"
abbreviation (input) U2X1 :: nat where "U2X1 \<equiv> 1"
abbreviation (input) RXCIE1 :: nat where "RXCIE1 \<equiv> 7"
abbreviation (input) RXEN1 :: nat where "RXEN1 \<equiv> 4"
abbreviation (input) TXEN1 :: nat where "TXEN1 \<equiv> 3"
abbreviation (input) UCSZ11 :: nat where "UCSZ11 \<equiv> 2"
abbreviation (input) UCSZ10 :: nat where "UCSZ10 \<equiv> 1"
abbreviation (input) WDRF :: nat where "WDRF \<equiv> 3"

section \<open>Facts about accesses\<close>

lemma io_log_event [simp, io_simps]: "io_log (event e s) = e # io_log s"
  by (simp add: event_def)

lemma more_event [simp]: "io_st.more (event e s) = io_st.more s"
  by (simp add: event_def)

lemma io_log_wr [simp, io_simps]: "io_log (wr r v s) = Wr r v # io_log s"
  by (simp add: wr_def)

lemma more_wr [simp]: "io_st.more (wr r v s) = io_st.more s"
  by (simp add: wr_def)

lemma fst_rd [simp, io_simps]: "fst (rd E r s) = reg_value E r (io_log s)"
  by (simp add: rd_def Let_def)

lemma snd_rd [io_simps]: "snd (rd E r s) = event (Rd r (reg_value E r (io_log s))) s"
  by (simp add: rd_def Let_def)

lemma io_log_rd [simp]: "io_log (snd (rd E r s)) = Rd r (reg_value E r (io_log s)) # io_log s"
  by (simp add: snd_rd)

lemma more_rd [simp]: "io_st.more (snd (rd E r s)) = io_st.more s"
  by (simp add: snd_rd)

lemma rd_pair: "rd E r s = (reg_value E r (io_log s), event (Rd r (reg_value E r (io_log s))) s)"
  by (simp add: rd_def Let_def)

lemma set_bits_unfold [io_simps]:
  "set_bits E r m s =
     (let v = reg_value E r (io_log s) in wr r (v OR m) (event (Rd r v) s))"
  by (simp add: set_bits_def rd_pair Let_def)

lemma clr_bits_unfold [io_simps]:
  "clr_bits E r m s =
     (let v = reg_value E r (io_log s) in wr r (v AND NOT m) (event (Rd r v) s))"
  by (simp add: clr_bits_def rd_pair Let_def)

lemma more_set_bits [simp]: "io_st.more (set_bits E r m s) = io_st.more s"
  by (simp add: set_bits_unfold Let_def)

lemma more_clr_bits [simp]: "io_st.more (clr_bits E r m s) = io_st.more s"
  by (simp add: clr_bits_unfold Let_def)

lemma test_bit_unfold [io_simps]:
  "test_bit E r n s =
     (let v = reg_value E r (io_log s) in (bit v n, event (Rd r v) s))"
  by (simp add: test_bit_def rd_pair Let_def)

text \<open>A state that differs only in its history.\<close>

lemma log_update:
  "io_st.more s' = io_st.more s \<Longrightarrow> s' = s\<lparr>io_log := io_log s'\<rparr>"
  by (cases s; cases s') simp

lemma wait_bit_now:
  "bit (reg_value E r (io_log s)) n \<Longrightarrow> wait_bit E r n s = Some (snd (rd E r s))"
  by (simp add: wait_bit.simps)

text \<open>
  A busy-wait loop only reads its register: the rest of the state is untouched
  and the log grows by reads of that register, the last of which saw the bit.
\<close>

lemma wait_bit_Some:
  assumes "wait_bit E r n s = Some s'"
  shows "io_st.more s' = io_st.more s \<and>
         (\<exists>vs v. io_log s' = Rd r v # map (Rd r) vs @ io_log s \<and> bit v n \<and>
            (\<forall>w \<in> set vs. \<not> bit w n))"
proof (rule wait_bit.raw_induct
    [where P = "\<lambda>E r n s s'. io_st.more s' = io_st.more s \<and>
         (\<exists>vs v. io_log s' = Rd r v # map (Rd r) vs @ io_log s \<and> bit v n \<and>
            (\<forall>w \<in> set vs. \<not> bit w n))", OF _ assms])
  fix f E r n and s s' :: "'a io_st_scheme"
  assume IH: "\<And>E r n s s'. f E r n s = Some s' \<Longrightarrow> io_st.more s' = io_st.more s \<and>
         (\<exists>vs v. io_log s' = Rd r v # map (Rd r) vs @ io_log s \<and> bit v n \<and>
            (\<forall>w \<in> set vs. \<not> bit w n))"
    and eq: "(if bit (reg_value E r (io_log s)) n then Some (snd (rd E r s))
      else f E r n (snd (rd E r s))) = Some s'"
  let ?v = "reg_value E r (io_log s)"
  show "io_st.more s' = io_st.more s \<and>
         (\<exists>vs v. io_log s' = Rd r v # map (Rd r) vs @ io_log s \<and> bit v n \<and>
            (\<forall>w \<in> set vs. \<not> bit w n))"
  proof (cases "bit ?v n")
    case True
    with eq have "s' = snd (rd E r s)" by simp
    with True show ?thesis
      by (intro conjI exI [where x = "[]"] exI [where x = ?v]) simp_all
  next
    case False
    with eq have "f E r n (snd (rd E r s)) = Some s'" by simp
    from IH [OF this] obtain vs v where *: "io_st.more s' = io_st.more s"
      "io_log s' = Rd r v # map (Rd r) vs @ Rd r ?v # io_log s" "bit v n"
      "\<forall>w \<in> set vs. \<not> bit w n"
      by auto
    with False show ?thesis
      by (intro conjI exI [where x = "vs @ [?v]"] exI [where x = v]) auto
  qed
qed

lemma wait_bit_more: "wait_bit E r n s = Some s' \<Longrightarrow> io_st.more s' = io_st.more s"
  using wait_bit_Some by blast

text \<open>
  The loop ends if the bit shows up after finitely many reads, whatever the
  number of reads.
\<close>

fun polled :: "environment \<Rightarrow> reg \<Rightarrow> nat \<Rightarrow> io list \<Rightarrow> io list" where
  "polled E r 0 l = l"
| "polled E r (Suc k) l = polled E r k (Rd r (reg_value E r l) # l)"

lemma wait_bit_returns:
  "bit (reg_value E r (polled E r k (io_log s))) n \<Longrightarrow> \<exists>s'. wait_bit E r n s = Some s'"
proof (induction k arbitrary: s)
  case 0
  then show ?case by (simp add: wait_bit.simps)
next
  case (Suc k)
  show ?case
  proof (cases "bit (reg_value E r (io_log s)) n")
    case True
    then show ?thesis by (simp add: wait_bit.simps)
  next
    case False
    from Suc.prems have "bit (reg_value E r (polled E r k (io_log (snd (rd E r s))))) n"
      by simp
    from Suc.IH [OF this] False show ?thesis by (subst wait_bit.simps) simp
  qed
qed

text \<open>The register writes of a trace, oldest first: what the hardware was told.\<close>

fun written :: "io list \<Rightarrow> (reg \<times> u8) list" where
  "written [] = []"
| "written (Wr r v # l) = written l @ [(r, v)]"
| "written (e # l) = written l"

lemma written_append [simp]: "written (xs @ ys) = written ys @ written xs"
  by (induction xs rule: written.induct) auto

lemma written_reads [simp]: "written (map (Rd r) vs) = []"
  by (induction vs) auto

lemma wait_bit_written:
  "wait_bit E r n s = Some s' \<Longrightarrow> written (io_log s') = written (io_log s)"
  by (drule wait_bit_Some) auto

text \<open>The bytes written to one register, oldest first.\<close>

definition written_to :: "reg \<Rightarrow> io list \<Rightarrow> bytes" where
  "written_to r l = map snd (filter (\<lambda>(q, v). q = r) (written l))"

lemma written_to_simps [simp]:
  "written_to r [] = []"
  "written_to r (Wr q v # l) = written_to r l @ (if q = r then [v] else [])"
  "written_to r (Rd q v # l) = written_to r l"
  "written_to r (RdState d # l) = written_to r l"
  "written_to r (RdFrame w # l) = written_to r l"
  "written_to r (LibCall c # l) = written_to r l"
  "written_to r (WrUBRR1 w # l) = written_to r l"
  by (simp_all add: written_to_def)

text \<open>The bytes read from one register, oldest first.\<close>

fun read_from :: "reg \<Rightarrow> io list \<Rightarrow> bytes" where
  "read_from r [] = []"
| "read_from r (Rd q v # l) = read_from r l @ (if q = r then [v] else [])"
| "read_from r (e # l) = read_from r l"

end
