(* ===== verification/Board.thy ===== *)
theory Board
  imports Hardware
begin

text \<open>
  \<open>avr.h\<close> (UART, watchdog, receive interrupt) and the LED driver of the Arduino
  Uno's USB chip (\<open>LUFA/Drivers/Board/AVR8/UNO/LEDs.h\<close>). With \<open>F_CPU\<close> of 16 MHz
  and 1000000 baud, \<open>setbaud.h\<close> yields \<open>UBRR_VALUE\<close> 0 and \<open>USE_2X\<close> 0.
\<close>

section \<open>UART\<close>

definition USART_Init :: "environment \<Rightarrow> 'a io_st_scheme \<Rightarrow> 'a io_st_scheme" where
  "USART_Init E s =
     (let s = event (WrUBRR1 0) s;
          s = clr_bits E UCSR1A (BV U2X1) s;
          s = wr UCSR1C (BV UCSZ11 OR BV UCSZ10) s;
          s = wr UCSR1D 0 s;
          s = wr UCSR1B (BV RXEN1 OR BV TXEN1) s;
          s = set_bits E DDRD (BV 3) s
      in set_bits E PORTD (BV 2) s)"

definition disable_watchdog :: "environment \<Rightarrow> 'a io_st_scheme \<Rightarrow> 'a io_st_scheme" where
  "disable_watchdog E s = event (LibCall WdtDisable) (clr_bits E MCUSR (BV WDRF) s)"

definition disable_rx_isr :: "environment \<Rightarrow> 'a io_st_scheme \<Rightarrow> 'a io_st_scheme" where
  "disable_rx_isr E s = clr_bits E UCSR1B (BV RXCIE1) s"

definition enable_rx_isr :: "environment \<Rightarrow> 'a io_st_scheme \<Rightarrow> 'a io_st_scheme" where
  "enable_rx_isr E s = set_bits E UCSR1B (BV RXCIE1) s"

definition send_byte :: "environment \<Rightarrow> u8 \<Rightarrow> 'a io_st_scheme \<Rightarrow> 'a io_st_scheme option" where
  "send_byte E c s = Option.bind (wait_bit E UCSR1A UDRE1 s) (\<lambda>s. Some (wr UDR1 c s))"

definition recv_byte :: "environment \<Rightarrow> 'a io_st_scheme \<Rightarrow> (u8 \<times> 'a io_st_scheme) option" where
  "recv_byte E s = Option.bind (wait_bit E UCSR1A RXC1 s) (\<lambda>s. Some (rd E UDR1 s))"

section \<open>LEDs\<close>

abbreviation (input) LEDS_LED1 :: u8 where "LEDS_LED1 \<equiv> BV 5"
abbreviation (input) LEDS_LED2 :: u8 where "LEDS_LED2 \<equiv> BV 4"
abbreviation (input) LEDS_ALL_LEDS :: u8 where "LEDS_ALL_LEDS \<equiv> LEDS_LED1 OR LEDS_LED2"
abbreviation (input) LEDS_NO_LEDS :: u8 where "LEDS_NO_LEDS \<equiv> 0"

definition LEDs_Init :: "environment \<Rightarrow> 'a io_st_scheme \<Rightarrow> 'a io_st_scheme" where
  "LEDs_Init E s = set_bits E PORTD LEDS_ALL_LEDS (set_bits E DDRD LEDS_ALL_LEDS s)"

definition LEDs_Disable :: "environment \<Rightarrow> 'a io_st_scheme \<Rightarrow> 'a io_st_scheme" where
  "LEDs_Disable E s = set_bits E PORTD LEDS_ALL_LEDS (clr_bits E DDRD LEDS_ALL_LEDS s)"

definition LEDs_TurnOnLEDs :: "environment \<Rightarrow> u8 \<Rightarrow> 'a io_st_scheme \<Rightarrow> 'a io_st_scheme" where
  "LEDs_TurnOnLEDs E LEDMask s = clr_bits E PORTD LEDMask s"

definition LEDs_TurnOffLEDs :: "environment \<Rightarrow> u8 \<Rightarrow> 'a io_st_scheme \<Rightarrow> 'a io_st_scheme" where
  "LEDs_TurnOffLEDs E LEDMask s = set_bits E PORTD LEDMask s"

definition LEDs_SetAllLEDs :: "environment \<Rightarrow> u8 \<Rightarrow> 'a io_st_scheme \<Rightarrow> 'a io_st_scheme" where
  "LEDs_SetAllLEDs E LEDMask s =
     (let (p, s) = rd E PORTD s in wr PORTD ((p OR LEDS_ALL_LEDS) AND NOT LEDMask) s)"

definition LEDs_ChangeLEDs :: "environment \<Rightarrow> u8 \<Rightarrow> u8 \<Rightarrow> 'a io_st_scheme \<Rightarrow> 'a io_st_scheme" where
  "LEDs_ChangeLEDs E LEDMask ActiveMask s =
     (let (p, s) = rd E PORTD s in wr PORTD ((p OR LEDMask) AND NOT ActiveMask) s)"

definition LEDs_ToggleLEDs :: "u8 \<Rightarrow> 'a io_st_scheme \<Rightarrow> 'a io_st_scheme" where
  "LEDs_ToggleLEDs LEDMask s = wr PIND LEDMask s"

definition LEDs_GetLEDs :: "environment \<Rightarrow> 'a io_st_scheme \<Rightarrow> u8 \<times> 'a io_st_scheme" where
  "LEDs_GetLEDs E s = (let (p, s) = rd E PORTD s in (NOT p AND LEDS_ALL_LEDS, s))"

section \<open>Lemmas\<close>

lemma more_disable_rx_isr [simp]: "io_st.more (disable_rx_isr E s) = io_st.more s"
  by (simp add: disable_rx_isr_def)

lemma more_enable_rx_isr [simp]: "io_st.more (enable_rx_isr E s) = io_st.more s"
  by (simp add: enable_rx_isr_def)

lemma more_LEDs_SetAllLEDs [simp]: "io_st.more (LEDs_SetAllLEDs E m s) = io_st.more s"
  by (simp add: LEDs_SetAllLEDs_def rd_pair)

text \<open>
  Sending a byte waits until the transmit buffer is empty, then writes the data
  register once; it changes nothing else. It returns as soon as the transmitter
  ever becomes empty.
\<close>

lemma send_byte_Some:
  assumes "send_byte E c s = Some s'"
  shows "io_st.more s' = io_st.more s"
    and "written (io_log s') = written (io_log s) @ [(UDR1, c)]"
    and "\<exists>vs v. io_log s' = Wr UDR1 c # Rd UCSR1A v # map (Rd UCSR1A) vs @ io_log s \<and> bit v UDRE1"
proof -
  from assms obtain t where t: "wait_bit E UCSR1A UDRE1 s = Some t" "s' = wr UDR1 c t"
    by (auto simp: send_byte_def bind_eq_Some_conv)
  with wait_bit_Some [OF t(1)] wait_bit_written [OF t(1)]
  show "io_st.more s' = io_st.more s"
    and "written (io_log s') = written (io_log s) @ [(UDR1, c)]"
    and "\<exists>vs v. io_log s' = Wr UDR1 c # Rd UCSR1A v # map (Rd UCSR1A) vs @ io_log s \<and> bit v UDRE1"
    by auto
qed

lemma send_byte_returns:
  assumes "bit (reg_value E UCSR1A (polled E UCSR1A k (io_log s))) UDRE1"
  shows "\<exists>s'. send_byte E c s = Some s'"
  using wait_bit_returns [OF assms] by (auto simp: send_byte_def)

lemma recv_byte_Some:
  assumes "recv_byte E s = Some (b, s')"
  shows "io_st.more s' = io_st.more s" and "written (io_log s') = written (io_log s)"
proof -
  from assms obtain t where t: "wait_bit E UCSR1A RXC1 s = Some t" "(b, s') = rd E UDR1 t"
    by (auto simp: recv_byte_def bind_eq_Some_conv)
  then have "s' = event (Rd UDR1 (reg_value E UDR1 (io_log t))) t" by (simp add: rd_pair)
  with t wait_bit_more [OF t(1)] wait_bit_written [OF t(1)]
  show "io_st.more s' = io_st.more s" and "written (io_log s') = written (io_log s)" by simp_all
qed

text \<open>The LED driver touches only the two LED bits of port D: a set bit of the mask is a lit LED.\<close>

lemma bit_LEDS_ALL_LEDS: "bit (0x30 :: u8) n \<longleftrightarrow> n = 4 \<or> n = 5"
proof -
  have "(0x30 :: u8) = BV 4 OR BV 5" by simp
  then show ?thesis by (auto simp only: bit_simps) auto
qed

lemma LEDs_SetAllLEDs_bits:
  assumes "io_log (LEDs_SetAllLEDs E m s) = Wr PORTD v # Rd PORTD p # io_log s" "n < 8"
  shows "n \<notin> {4, 5} \<Longrightarrow> \<not> bit m n \<Longrightarrow> bit v n = bit p n"
    and "n \<in> {4, 5} \<Longrightarrow> bit v n = (\<not> bit m n)"
proof -
  have "v = (p OR 0x30) AND NOT m" using assms(1) by (auto simp: LEDs_SetAllLEDs_def rd_pair)
  then have "bit v n \<longleftrightarrow> (bit p n \<or> n = 4 \<or> n = 5) \<and> \<not> bit m n"
    using assms(2) by (simp only: bit_and_iff bit_or_iff bit_not_iff bit_LEDS_ALL_LEDS) simp
  then show "n \<notin> {4, 5} \<Longrightarrow> \<not> bit m n \<Longrightarrow> bit v n = bit p n"
    and "n \<in> {4, 5} \<Longrightarrow> bit v n = (\<not> bit m n)"
    by auto
qed

end
