(* ===== verification/EmulatedSPI.thy ===== *)
theory EmulatedSPI
  imports Datatypes
begin

text \<open>
  \<open>EmulatedSPI.c\<close>: the flash memory of the controller, of which only a few read
  requests are answered. \<open>size_t\<close> values here come from one request byte, so
  they are natural numbers below 256.
\<close>

section \<open>Model\<close>

definition controller_color :: bytes where
  "controller_color = [0x0A, 0xB9, 0xE6]"

definition button_color :: bytes where
  "button_color = [0xDD, 0xDD, 0xDD]"

definition left_grip_color :: bytes where
  "left_grip_color = [0xAA, 0xAA, 0xAA]"

definition right_grip_color :: bytes where
  "right_grip_color = [0xAA, 0xAA, 0xAA]"

definition min_size :: "nat \<Rightarrow> nat \<Rightarrow> nat" where
  "min_size s1 s2 = (if s1 > s2 then s2 else s1)"

definition factory_parameters_1 :: bytes where
  "factory_parameters_1 =
     [0x50, 0xfd, 0x00, 0x00, 0xc6, 0x0f, 0x0f, 0x30, 0x61, 0x96, 0x30, 0xf3,
      0xd4, 0x14, 0x54, 0x41, 0x15, 0x54, 0xc7, 0x79, 0x9c, 0x33, 0x36, 0x63]"

definition factory_parameters_2 :: bytes where
  "factory_parameters_2 =
     [0x0f, 0x30, 0x61, 0x96, 0x30, 0xf3, 0xd4, 0x14, 0x54,
      0x41, 0x15, 0x54, 0xc7, 0x79, 0x9c, 0x33, 0x36, 0x63]"

definition factory_calibration_1 :: bytes where
  "factory_calibration_1 =
     [0xE6, 0xFF, 0x3A, 0x00, 0x39, 0x00, 0x00, 0x40, 0x00, 0x40, 0x00, 0x40,
      0xF7, 0xFF, 0xFC, 0xFF, 0x00, 0x00, 0xE7, 0x3B, 0xE7, 0x3B, 0xE7, 0x3B]"

definition factory_calibration_2 :: bytes where
  "factory_calibration_2 =
     [0xba, 0x15, 0x62, 0x11, 0xb8, 0x7f, 0x29, 0x06, 0x5b, 0xff, 0xe7, 0x7e,
      0x0e, 0x36, 0x56, 0x9e, 0x85, 0x60, 0xff, 0x32, 0x32, 0x32, 0xff, 0xff,
      0xff]"

definition imu_calibration :: bytes where
  "imu_calibration =
     [0xbe, 0xff, 0x3e, 0x00, 0xf0, 0x01, 0x00, 0x40, 0x00, 0x40, 0x00, 0x40,
      0xfe, 0xff, 0xfe, 0xff, 0x08, 0x00, 0xe7, 0x3b, 0xe7, 0x3b, 0xe7, 0x3b]"

text \<open>An \<open>if\<close> without \<open>else\<close> around a statement that may fault.\<close>

definition fwhen :: "bool \<Rightarrow> (bytes \<Rightarrow> fault + bytes) \<Rightarrow> bytes \<Rightarrow> fault + bytes" where
  "fwhen c f b = (if c then f b else Inr b)"

definition spi_read_color :: "nat \<Rightarrow> bytes \<Rightarrow> fault + bytes" where
  "spi_read_color sz buf =
     fbind (fwhen (sz \<ge> 3) (\<lambda>b. memcpy b 0 controller_color (length controller_color)) buf) (\<lambda>buf.
     fbind (fwhen (sz \<ge> 6) (\<lambda>b. memcpy b 3 button_color (length button_color)) buf) (\<lambda>buf.
     fbind (fwhen (sz \<ge> 9) (\<lambda>b. memcpy b 6 left_grip_color (length left_grip_color)) buf) (\<lambda>buf.
     fwhen (sz \<ge> 12) (\<lambda>b. memcpy b 9 right_grip_color (length right_grip_color)) buf)))"

definition spi_read :: "u16 \<Rightarrow> nat \<Rightarrow> bytes \<Rightarrow> fault + bytes" where
  "spi_read address sz buf =
     fbind (memset buf 0xFF sz) (\<lambda>buf.
     if address = spi_address_value ADDRESS_CONTROLLER_COLOR then
       spi_read_color sz buf
     else if address = spi_address_value ADDRESS_FACTORY_PARAMETERS_1 then
       memcpy buf 0 factory_parameters_1 (min_size sz (length factory_parameters_1))
     else if address = spi_address_value ADDRESS_FACTORY_PARAMETERS_2 then
       memcpy buf 0 factory_parameters_2 (min_size sz (length factory_parameters_2))
     else if address = spi_address_value ADDRESS_FACTORY_CALIBRATION_1 then
       memcpy buf 0 factory_calibration_1 (min_size sz (length factory_calibration_1))
     else if address = spi_address_value ADDRESS_FACTORY_CALIBRATION_2 then
       memcpy buf 0 factory_calibration_2 (min_size sz (length factory_calibration_2))
     else if address = spi_address_value ADDRESS_STICKS_CALIBRATION then
       fbind (fwhen (sz > 22) (\<lambda>b. store b 22 0xB2) buf) (\<lambda>buf.
       fwhen (sz > 23) (\<lambda>b. store b 23 0xA1) buf)
     else if address = spi_address_value ADDRESS_IMU_CALIBRATION then
       memcpy buf 0 imu_calibration (min_size sz (length imu_calibration))
     else Inr buf)"

section \<open>Specification: a read-only image per start address\<close>

text \<open>
  What a request at an address returns: a prefix of a fixed image, padded with
  \<open>0xFF\<close>. The colour image is cut at whole colours.
\<close>

definition spi_image :: "u16 \<Rightarrow> bytes" where
  "spi_image address =
     (if address = 0x6050 then controller_color @ button_color @ left_grip_color @ right_grip_color
      else if address = 0x6080 then factory_parameters_1
      else if address = 0x6098 then factory_parameters_2
      else if address = 0x6020 then factory_calibration_1
      else if address = 0x603D then factory_calibration_2
      else if address = 0x8010 then replicate 22 0xFF @ [0xB2, 0xA1]
      else if address = 0x8028 then imu_calibration
      else [])"

definition spi_spec :: "u16 \<Rightarrow> nat \<Rightarrow> bytes" where
  "spi_spec address sz =
     (let n = (if address = 0x6050 then 3 * (sz div 3) else sz);
          img = take n (spi_image address)
      in take sz img @ replicate (sz - length img) 0xFF)"

lemma length_spi_spec [simp]: "length (spi_spec address sz) = sz"
  by (auto simp: spi_spec_def Let_def)

section \<open>Correctness\<close>

lemmas image_defs = controller_color_def button_color_def left_grip_color_def
  right_grip_color_def factory_parameters_1_def factory_parameters_2_def
  factory_calibration_1_def factory_calibration_2_def imu_calibration_def

text \<open>A clipped copy of an image over a buffer of \<open>0xFF\<close> is the padded prefix.\<close>

lemma clipped_copy:
  "memcpy (replicate sz v) 0 img (min_size sz (length img)) =
   Inr (take sz img @ replicate (sz - length img) v)"
  by (auto simp: memcpy_def min_size_def)

lemma fwhen_False [simp]: "fwhen False f b = Inr b"
  by (simp add: fwhen_def)

lemma fwhen_True [simp]: "fwhen True f b = f b"
  by (simp add: fwhen_def)

lemma spi_read_color_short:
  "\<forall>n \<in> set [0..<12]. spi_read_color n (replicate n 0xFF) = Inr (spi_spec 0x6050 n)"
  by (simp add: upt_rec spi_read_color_def spi_spec_def spi_image_def image_defs memcpy_def fwhen_def)

lemma spi_read_color_spec:
  "spi_read_color sz (replicate sz 0xFF) = Inr (spi_spec 0x6050 sz)"
proof (cases "sz < 12")
  case True
  with spi_read_color_short show ?thesis by simp
next
  case False
  then obtain k where k: "sz = 12 + k" using le_Suc_ex by fastforce
  then have "12 \<le> 3 * (sz div 3)" by simp
  with k show ?thesis
    by (simp add: spi_read_color_def spi_spec_def spi_image_def image_defs memcpy_def fwhen_def
        Let_def)
qed

lemma stick_calibration_spec:
  "fbind (fwhen (22 < sz) (\<lambda>b. store b 22 0xB2) (replicate sz 0xFF)) (\<lambda>buf.
     fwhen (23 < sz) (\<lambda>b. store b 23 0xA1) buf) = Inr (spi_spec 0x8010 sz)"
proof -
  have "spi_spec 0x8010 sz ! i = (if i = 22 then 0xB2 else if i = 23 then 0xA1 else 0xFF)"
    if "i < sz" for i
    using that by (auto simp: spi_spec_def spi_image_def Let_def nth_append nth_Cons')
  then show ?thesis
    by (auto simp: fwhen_def store_def list_eq_iff_nth_eq nth_list_update)
qed

lemma diff_min_right: "n - min m n = n - m" for m n :: nat
  by simp

lemma spi_read_eq:
  "length buf = sz \<Longrightarrow> spi_read address sz buf = Inr (spi_spec address sz)"
  by (simp add: spi_read_def memset_all spi_read_color_spec stick_calibration_spec clipped_copy)
    (simp add: spi_spec_def spi_image_def diff_min_right)

end
