(* ===== verification/Response.thy ===== *)
theory Response
  imports EmulatedSPI Hardware
begin

text \<open>
  \<open>Response.c\<close>: the reply buffer of the IN endpoint and the answers to the
  reports the console sends. The report that \<open>selectedReportPtr\<close> leads to when
  a function runs is its argument \<open>sel\<close>.
\<close>

section \<open>State\<close>

datatype callback = CALLBACK_beforeSend
datatype report_variable = selectedReport_variable

record response =
  replyBuffer :: bytes
  counter :: u8
  nextPacketReady :: bool
  before_send :: "callback option"
  selectedReportPtr :: "report_variable option"

abbreviation (input) JOYSTICK_EPSIZE :: nat where "JOYSTICK_EPSIZE \<equiv> 64"
abbreviation (input) COUNTER_INCREMENT :: u8 where "COUNTER_INCREMENT \<equiv> 3"

definition mac_address :: bytes where
  "mac_address = [0x79, 0x05, 0x44, 0xC6, 0xB5, 0x65]"

text \<open>The static variables of \<open>Response.c\<close> before \<open>main\<close> runs.\<close>

definition response_init :: response where
  "response_init = \<lparr>replyBuffer = replicate JOYSTICK_EPSIZE 0, counter = 0,
     nextPacketReady = False, before_send = None, selectedReportPtr = None\<rparr>"

text \<open>
  The data argument of the reply functions: \<open>NULL\<close>, an array, or (in one place of
  the source) a number cast to a pointer, which reads data memory at that address.
\<close>

datatype data_ptr = NULL | Array bytes | Address u16

fun pointed_bytes :: "environment \<Rightarrow> data_ptr \<Rightarrow> nat \<Rightarrow> bytes" where
  "pointed_bytes E NULL n = []"
| "pointed_bytes E (Array b) n = b"
| "pointed_bytes E (Address a) n = map (\<lambda>i. data_mem E (a + of_nat i)) [0..<n]"

section \<open>Preparing replies\<close>

definition prepare_reply ::
  "environment \<Rightarrow> u8 \<Rightarrow> u8 \<Rightarrow> data_ptr \<Rightarrow> u8 \<Rightarrow> response \<Rightarrow> fault + response" where
  "prepare_reply E code command data len r =
     (if nextPacketReady r then Inr r else
      fbind (memset (replyBuffer r) 0 JOYSTICK_EPSIZE) (\<lambda>b.
      fbind (store b 0 code) (\<lambda>b.
      fbind (store b 1 command) (\<lambda>b.
      fbind (memcpy b 2 (pointed_bytes E data (unat len)) (unat len)) (\<lambda>b.
      Inr (r\<lparr>replyBuffer := b, nextPacketReady := True\<rparr>))))))"

definition prepare_uart_reply ::
  "environment \<Rightarrow> USB_StandardReport_t \<Rightarrow> u8 \<Rightarrow> u8 \<Rightarrow> data_ptr \<Rightarrow> u8 \<Rightarrow> response \<Rightarrow> fault + response" where
  "prepare_uart_reply E sel code subcommand data len r =
     (if nextPacketReady r then Inr r else
      fbind (memset (replyBuffer r) 0 JOYSTICK_EPSIZE) (\<lambda>b.
      fbind (store b 0 0x21) (\<lambda>b.
      let c = counter r + COUNTER_INCREMENT; n = sizeof_USB_StandardReport_t in
      fbind (store b 1 c) (\<lambda>b.
      fbind (memcpy b 2 (report_bytes sel) n) (\<lambda>b.
      fbind (store b (n + 2) code) (\<lambda>b.
      fbind (store b (n + 3) subcommand) (\<lambda>b.
      fbind (memcpy b (n + 4) (pointed_bytes E data (unat len)) (unat len)) (\<lambda>b.
      Inr (r\<lparr>replyBuffer := b, counter := c, nextPacketReady := True\<rparr>)))))))))"

text \<open>
  Both local arrays are overwritten completely before they are read, so their
  initial content does not matter. \<open>sizeof (spiReplyBuffer)\<close> is passed as a
  \<open>uint8_t\<close>, which drops its high bits.
\<close>

definition prepare_spi_reply ::
  "environment \<Rightarrow> USB_StandardReport_t \<Rightarrow> u16 \<Rightarrow> nat \<Rightarrow> response \<Rightarrow> fault + response" where
  "prepare_spi_reply E sel address sz r =
     fbind (spi_read address sz (replicate sz 0)) (\<lambda>data.
     fbind (store (replicate (5 + sz) 0) 0 (ucast (address AND 0xFF))) (\<lambda>b.
     fbind (store b 1 (ucast (drop_bit 8 address AND 0xFF))) (\<lambda>b.
     fbind (store b 2 0x00) (\<lambda>b.
     fbind (store b 3 0x00) (\<lambda>b.
     fbind (store b 4 (of_nat sz)) (\<lambda>b.
     fbind (memcpy b 5 data sz) (\<lambda>b.
     prepare_uart_reply E sel 0x90 (subcommand_value SUBCOMMAND_SPI_FLASH_READ)
       (Array b) (of_nat (5 + sz)) r)))))))"

definition prepare_standard_report ::
  "environment \<Rightarrow> USB_StandardReport_t \<Rightarrow> response \<Rightarrow> fault + response" where
  "prepare_standard_report E standardReport r =
     (if nextPacketReady r then Inr r else
      let r = r\<lparr>counter := counter r + COUNTER_INCREMENT\<rparr> in
      prepare_reply E 0x30 (counter r) (Array (report_bytes standardReport))
        (of_nat sizeof_USB_StandardReport_t) r)"

definition prepare_8101 :: "environment \<Rightarrow> response \<Rightarrow> fault + response" where
  "prepare_8101 E r =
     (if nextPacketReady r then Inr r else
      let n = length mac_address in
      fbind (store (replicate (n + 2) 0) 0 0x00) (\<lambda>buf.
      fbind (store buf 1 0x03) (\<lambda>buf.
      fbind (memcpy buf 2 mac_address n) (\<lambda>buf.
      prepare_reply E 0x81 0x01 (Array buf) (of_nat (n + 2)) r))))"

definition setup_response_manager ::
  "environment \<Rightarrow> callback \<Rightarrow> report_variable \<Rightarrow> response \<Rightarrow> fault + response" where
  "setup_response_manager E before_callback ptr r =
     prepare_8101 E (r\<lparr>before_send := Some before_callback, selectedReportPtr := Some ptr\<rparr>)"

section \<open>Reports from the console\<close>

text \<open>The loop that stores the MAC address backwards: \<open>buf[(n + 3) - i] = mac_address[i]\<close>.\<close>

fun store_mac :: "nat \<Rightarrow> nat \<Rightarrow> bytes \<Rightarrow> fault + bytes" where
  "store_mac n 0 buf = Inr buf"
| "store_mac n (Suc k) buf =
     (let i = n - Suc k in
      fbind (load mac_address i) (\<lambda>v. fbind (store buf ((n + 3) - i) v) (store_mac n k)))"

definition device_info :: "fault + bytes" where
  "device_info =
     (let n = length mac_address in
      fbind (store (replicate (n + 6) 0) 0 0x03) (\<lambda>buf.
      fbind (store buf 1 0x48) (\<lambda>buf.
      fbind (store buf 2 0x03) (\<lambda>buf.
      fbind (store buf 3 0x02) (\<lambda>buf.
      fbind (store_mac n n buf) (\<lambda>buf.
      fbind (store buf (n + 4) 0x03) (\<lambda>buf.
      store buf (n + 5) 0x02)))))))"

definition process_subcommand ::
  "environment \<Rightarrow> USB_StandardReport_t \<Rightarrow> bytes \<Rightarrow> response \<Rightarrow> fault + response" where
  "process_subcommand E sel ReportData r =
     fbind (load ReportData 10) (\<lambda>subcommand.
     if subcommand = subcommand_value SUBCOMMAND_BLUETOOTH_MANUAL_PAIRING then
       prepare_uart_reply E sel 0x81 subcommand (Address 0x03) 1 r
     else if subcommand = subcommand_value SUBCOMMAND_REQUEST_DEVICE_INFO then
       fbind device_info (\<lambda>buf.
       prepare_uart_reply E sel 0x82 subcommand (Array buf) (of_nat (length buf)) r)
     else if subcommand \<in> {subcommand_value SUBCOMMAND_SET_INPUT_REPORT_MODE,
         subcommand_value SUBCOMMAND_SET_SHIPMENT_LOW_POWER_STATE,
         subcommand_value SUBCOMMAND_SET_PLAYER_LIGHTS,
         subcommand_value SUBCOMMAND_SET_HOME_LIGHTS,
         subcommand_value SUBCOMMAND_ENABLE_IMU,
         subcommand_value SUBCOMMAND_ENABLE_VIBRATION} then
       prepare_uart_reply E sel 0x80 subcommand NULL 0 r
     else if subcommand = subcommand_value SUBCOMMAND_TRIGGER_BUTTONS_ELAPSED_TIME then
       prepare_uart_reply E sel 0x83 subcommand NULL 0 r
     else if subcommand = subcommand_value SUBCOMMAND_SET_NFC_IR_MCU_CONFIG then
       let buf = [0x01, 0x00, 0xFF, 0x00, 0x03, 0x00, 0x05, 0x01] in
       prepare_uart_reply E sel 0xA0 subcommand (Array buf) (of_nat (length buf)) r
     else if subcommand = subcommand_value SUBCOMMAND_SPI_FLASH_READ then
       fbind (load ReportData 12) (\<lambda>hi.
       fbind (load ReportData 11) (\<lambda>lo.
       fbind (load ReportData 15) (\<lambda>sz.
       prepare_spi_reply E sel (join16 hi lo) (unat sz) r)))
     else prepare_uart_reply E sel 0x80 subcommand NULL 0 r)"

definition process_OUT_report ::
  "environment \<Rightarrow> USB_StandardReport_t \<Rightarrow> bytes \<Rightarrow> u8 \<Rightarrow> response \<Rightarrow> fault + response" where
  "process_OUT_report E sel ReportData ReportSize r =
     fbind (load ReportData 0) (\<lambda>d0.
     if d0 = 0x80 then
       fbind (load ReportData 1) (\<lambda>d1.
       if d1 = 0x01 then prepare_8101 E r
       else if d1 = 0x02 \<or> d1 = 0x03 then prepare_reply E 0x81 d1 NULL 0 r
       else if d1 = 0x04 then prepare_standard_report E sel r
       else prepare_reply E 0x81 d1 NULL 0 r)
     else if d0 = 0x01 \<and> ReportSize > 16 then
       process_subcommand E sel ReportData r
     else Inr r)"

section \<open>The buffer after a reply\<close>

definition wf_response :: "response \<Rightarrow> bool" where
  "wf_response r \<longleftrightarrow> length (replyBuffer r) = JOYSTICK_EPSIZE"

text \<open>A report padded with zeros to the size of the endpoint.\<close>

definition padded :: "bytes \<Rightarrow> bytes" where
  "padded xs = xs @ replicate (JOYSTICK_EPSIZE - length xs) 0"

lemma length_padded [simp]: "length xs \<le> JOYSTICK_EPSIZE \<Longrightarrow> length (padded xs) = JOYSTICK_EPSIZE"
  by (simp add: padded_def)

lemma length_pointed_bytes [simp]: "length (pointed_bytes E (Address a) n) = n"
  by simp

lemma wf_response_init [inv_intros]: "wf_response response_init"
  by (simp add: wf_response_def response_init_def)

lemma list_update_padded:
  assumes "length xs < JOYSTICK_EPSIZE" "i = length xs"
  shows "(padded xs)[i := v] = padded (xs @ [v])"
proof -
  obtain k where "JOYSTICK_EPSIZE - length xs = Suc k"
    using assms(1) by (cases "JOYSTICK_EPSIZE - length xs") auto
  with assms(2) show ?thesis by (simp add: padded_def list_update_append)
qed

lemma store_padded:
  "length xs < JOYSTICK_EPSIZE \<Longrightarrow> i = length xs \<Longrightarrow> store (padded xs) i v = Inr (padded (xs @ [v]))"
  by (simp add: store_def list_update_padded)

lemma memcpy_padded:
  "length xs + n \<le> JOYSTICK_EPSIZE \<Longrightarrow> n \<le> length src \<Longrightarrow> i = length xs \<Longrightarrow>
   memcpy (padded xs) i src n = Inr (padded (xs @ take n src))"
  by (simp add: memcpy_def padded_def)

lemma memcpy_padded_fault:
  "length xs \<le> JOYSTICK_EPSIZE \<Longrightarrow> i = length xs \<Longrightarrow> JOYSTICK_EPSIZE < length xs + n \<Longrightarrow>
   memcpy (padded xs) i src n = Inl OutOfBounds"
  by (simp add: memcpy_def)

lemma memset_padded:
  "length b = JOYSTICK_EPSIZE \<Longrightarrow> memset b 0 JOYSTICK_EPSIZE = Inr (padded [])"
  by (simp add: memset_def padded_def)

lemmas padded_simps = memset_padded store_padded memcpy_padded

text \<open>The state after a reply \<open>xs\<close> has been put in the buffer.\<close>

definition ready :: "bytes \<Rightarrow> u8 \<Rightarrow> response \<Rightarrow> response" where
  "ready xs c r = r\<lparr>replyBuffer := padded xs, counter := c, nextPacketReady := True\<rparr>"

lemma prepare_reply_closed:
  assumes "\<not> nextPacketReady r" "wf_response r"
    and "unat len \<le> 62" "unat len \<le> length (pointed_bytes E data (unat len))"
  shows "prepare_reply E code command data len r =
    Inr (ready (code # command # take (unat len) (pointed_bytes E data (unat len))) (counter r) r)"
  using assms by (simp add: prepare_reply_def wf_response_def padded_simps ready_def Let_def)

lemma prepare_uart_reply_closed:
  assumes "\<not> nextPacketReady r" "wf_response r" "wf_report sel"
    and "unat len \<le> 49" "unat len \<le> length (pointed_bytes E data (unat len))"
  shows "prepare_uart_reply E sel code subcommand data len r =
    Inr (ready ([0x21, counter r + COUNTER_INCREMENT] @ report_bytes sel @ [code, subcommand] @
      take (unat len) (pointed_bytes E data (unat len))) (counter r + COUNTER_INCREMENT) r)"
  using assms by (simp add: prepare_uart_reply_def wf_response_def padded_simps ready_def Let_def)

lemma prepare_uart_reply_overflow:
  assumes "\<not> nextPacketReady r" "wf_response r" "wf_report sel" "49 < unat len"
  shows "prepare_uart_reply E sel code subcommand data len r = Inl OutOfBounds"
  using assms by (simp add: prepare_uart_reply_def wf_response_def padded_simps memcpy_padded_fault Let_def)

section \<open>Specification of the replies\<close>

text \<open>
  What each report of the console is answered with: nothing, a report without
  controller state (\<open>0x81\<close>), an answer to a subcommand (\<open>0x21\<close>, with the
  controller state in front), or the controller state alone (\<open>0x30\<close>).
\<close>

datatype reply = NoReply | Plain u8 u8 bytes | Uart u8 u8 bytes | Standard

text \<open>
  The data of a flash read. Its length is handed on as one byte, so that for
  sizes above 250 only the first \<open>size - 251\<close> bytes remain.
\<close>

definition spi_reply_data :: "u16 \<Rightarrow> nat \<Rightarrow> bytes" where
  "spi_reply_data address sz =
     take (if sz \<le> 250 then 5 + sz else sz - 251)
       (le16 address @ [0, 0, of_nat sz] @ spi_spec address sz)"

definition subcommand_reply :: "environment \<Rightarrow> u8 \<Rightarrow> u16 \<Rightarrow> nat \<Rightarrow> u8 \<times> bytes" where
  "subcommand_reply E subcommand address sz =
     (if subcommand = 0x01 then (0x81, [data_mem E 3])
      else if subcommand = 0x02 then
        (0x82, [0x03, 0x48, 0x03, 0x02, 0x65, 0xB5, 0xC6, 0x44, 0x05, 0x79, 0x03, 0x02])
      else if subcommand = 0x04 then (0x83, [])
      else if subcommand = 0x10 then (0x90, spi_reply_data address sz)
      else if subcommand = 0x21 then (0xA0, [0x01, 0x00, 0xFF, 0x00, 0x03, 0x00, 0x05, 0x01])
      else (0x80, []))"

definition request_reply :: "environment \<Rightarrow> bytes \<Rightarrow> u8 \<Rightarrow> reply" where
  "request_reply E D n =
     (if D ! 0 = 0x80 then
        if D ! 1 = 0x01 then Plain 0x81 0x01 [0x00, 0x03, 0x79, 0x05, 0x44, 0xC6, 0xB5, 0x65]
        else if D ! 1 = 0x04 then Standard
        else Plain 0x81 (D ! 1) []
      else if D ! 0 = 0x01 \<and> n > 16 then
        let (code, data) = subcommand_reply E (D ! 10) (join16 (D ! 12) (D ! 11)) (unat (D ! 15))
        in Uart code (D ! 10) data
      else NoReply)"

fun respond :: "USB_StandardReport_t \<Rightarrow> reply \<Rightarrow> response \<Rightarrow> response" where
  "respond sel NoReply r = r"
| "respond sel (Plain code command data) r = ready (code # command # data) (counter r) r"
| "respond sel (Uart code subcommand data) r =
     ready ([0x21, counter r + 3] @ report_bytes sel @ [code, subcommand] @ data) (counter r + 3) r"
| "respond sel Standard r = ready (0x30 # (counter r + 3) # report_bytes sel) (counter r + 3) r"

text \<open>The requests whose reply is longer than the buffer: flash reads of 45 to 250 bytes.\<close>

definition overflow_request :: "bytes \<Rightarrow> u8 \<Rightarrow> bool" where
  "overflow_request D n \<longleftrightarrow>
     D ! 0 = 0x01 \<and> n > 16 \<and> D ! 10 = 0x10 \<and> unat (D ! 15) \<in> {45..250}"

section \<open>The code implements the specification\<close>

lemma device_info_closed:
  "device_info = Inr [0x03, 0x48, 0x03, 0x02, 0x65, 0xB5, 0xC6, 0x44, 0x05, 0x79, 0x03, 0x02]"
  by code_simp

lemma prepare_8101_closed:
  assumes "\<not> nextPacketReady r" "wf_response r"
  shows "prepare_8101 E r =
    Inr (ready [0x81, 0x01, 0x00, 0x03, 0x79, 0x05, 0x44, 0xC6, 0xB5, 0x65] (counter r) r)"
  using assms
  by (simp add: prepare_8101_def mac_address_def store_def memcpy_def prepare_reply_closed)

lemma prepare_standard_report_closed:
  assumes "\<not> nextPacketReady r" "wf_response r" "wf_report sel"
  shows "prepare_standard_report E sel r = Inr (respond sel Standard r)"
  using assms
  by (simp add: prepare_standard_report_def prepare_reply_closed wf_response_def Let_def ready_def)

lemma spi_reply_buffer:
  "fbind (store (replicate (5 + sz) 0) 0 a) (\<lambda>b. fbind (store b 1 a') (\<lambda>b.
   fbind (store b 2 0) (\<lambda>b. fbind (store b 3 0) (\<lambda>b. fbind (store b 4 s) (\<lambda>b.
   memcpy b 5 (spi_spec address sz) sz))))) = Inr ([a, a', 0, 0, s] @ spi_spec address sz)"
proof -
  have "replicate (5 + sz) (0 :: u8) = [0, 0, 0, 0, 0] @ replicate sz 0"
    by (simp add: replicate_add eval_nat_numeral)
  then show ?thesis by (simp add: store_def memcpy_def)
qed

lemma prepare_spi_reply_uart:
  "prepare_spi_reply E sel address sz r =
   prepare_uart_reply E sel 0x90 0x10
     (Array (le16 address @ [0, 0, of_nat sz] @ spi_spec address sz)) (of_nat (5 + sz)) r"
proof -
  show ?thesis
    unfolding prepare_spi_reply_def
    using spi_reply_buffer [of sz "ucast address" "ucast (drop_bit 8 address)" "of_nat sz" address]
    by (simp add: spi_read_eq le16_def fbind_assoc [symmetric])
qed

lemma unat_of_nat_u8: "unat (of_nat n :: u8) = n mod 256"
  by (simp add: unat_of_nat)

lemma prepare_spi_reply_closed:
  assumes "\<not> nextPacketReady r" "wf_response r" "wf_report sel"
    and "sz \<le> 44 \<or> 250 < sz" "sz < 256"
  shows "prepare_spi_reply E sel address sz r =
    Inr (respond sel (Uart 0x90 0x10 (spi_reply_data address sz)) r)"
proof -
  have "unat (of_nat (5 + sz) :: u8) = (if sz \<le> 250 then 5 + sz else sz - 251)"
    using assms(4,5) unfolding unat_of_nat_u8 by (auto simp: mod_if)
  with assms show ?thesis
    unfolding prepare_spi_reply_uart by (subst prepare_uart_reply_closed) (auto simp: spi_reply_data_def)
qed

lemma prepare_spi_reply_overflow:
  assumes "\<not> nextPacketReady r" "wf_response r" "wf_report sel" "sz \<in> {45..250}"
  shows "prepare_spi_reply E sel address sz r = Inl OutOfBounds"
proof -
  have "unat (of_nat (5 + sz) :: u8) = 5 + sz"
    using assms(4) unfolding unat_of_nat_u8 by simp
  with assms show ?thesis
    unfolding prepare_spi_reply_uart by (subst prepare_uart_reply_overflow) auto
qed

lemmas uart_replies = prepare_uart_reply_closed device_info_closed prepare_spi_reply_closed

lemma process_subcommand_spec:
  assumes "\<not> nextPacketReady r" "wf_response r" "wf_report sel" "16 \<le> length D"
    and "\<not> (D ! 10 = 0x10 \<and> unat (D ! 15) \<in> {45..250})"
  shows "process_subcommand E sel D r =
    (let (code, data) = subcommand_reply E (D ! 10) (join16 (D ! 12) (D ! 11)) (unat (D ! 15))
     in Inr (respond sel (Uart code (D ! 10) data) r))"
proof -
  note len = load_in [of 10 D] load_in [of 11 D] load_in [of 12 D] load_in [of 15 D]
  have sz: "unat (D ! 15) < 256" "D ! 10 = 0x10 \<Longrightarrow> unat (D ! 15) \<le> 44 \<or> 250 < unat (D ! 15)"
    using assms(5) unat_u8 [of "D ! 15"] by auto
  consider "D ! 10 = 0x01" | "D ! 10 = 0x02" | "D ! 10 = 0x04" | "D ! 10 = 0x10" | "D ! 10 = 0x21"
    | "D ! 10 \<notin> {0x01, 0x02, 0x04, 0x10, 0x21}" by auto
  then show ?thesis
    using assms(1-4) sz
    by cases (simp_all add: process_subcommand_def subcommand_reply_def len uart_replies Let_def)
qed

lemma process_OUT_report_spec:
  assumes "\<not> nextPacketReady r" "wf_response r" "wf_report sel" "16 \<le> length D"
    and "\<not> overflow_request D n"
  shows "process_OUT_report E sel D n r = Inr (respond sel (request_reply E D n) r)"
proof -
  have len: "0 < length D" "1 < length D" using assms(4) by auto
  show ?thesis
  proof (cases "D ! 0 = 0x01 \<and> n > 16")
    case True
    with assms len show ?thesis
      by (simp add: process_OUT_report_def request_reply_def load_def overflow_request_def
          process_subcommand_spec split_def Let_def)
  next
    case False
    with assms len show ?thesis
      by (auto simp: process_OUT_report_def request_reply_def load_def prepare_8101_closed
          prepare_reply_closed prepare_standard_report_closed)
  qed
qed

lemma process_OUT_report_overflow:
  assumes "\<not> nextPacketReady r" "wf_response r" "wf_report sel" "16 \<le> length D"
    and "overflow_request D n"
  shows "process_OUT_report E sel D n r = Inl OutOfBounds"
proof -
  have "0 < length D" using assms(4) by auto
  with assms show ?thesis
    by (simp add: process_OUT_report_def overflow_request_def load_def process_subcommand_def
        prepare_spi_reply_overflow)
qed

section \<open>A pending reply is never overwritten\<close>

text \<open>
  The contract all reply functions share: while a reply is pending they change
  nothing, and otherwise they either change nothing or leave a pending reply in
  a buffer of the right size, touching neither of the two pointers.
\<close>

locale reply_op =
  fixes reply_fun :: "response \<Rightarrow> fault + response"
  assumes pending_kept: "nextPacketReady r \<Longrightarrow> reply_fun r = Inr r"
    and outcome: "reply_fun r = Inr r' \<Longrightarrow> wf_response r \<Longrightarrow>
      r' = r \<or> nextPacketReady r' \<and> wf_response r' \<and>
        before_send r' = before_send r \<and> selectedReportPtr r' = selectedReportPtr r"
begin

lemma keeps_wf: "reply_fun r = Inr r' \<Longrightarrow> wf_response r \<Longrightarrow> wf_response r'"
  using outcome by blast

lemma keeps_pointers:
  "reply_fun r = Inr r' \<Longrightarrow> wf_response r \<Longrightarrow>
   before_send r' = before_send r \<and> selectedReportPtr r' = selectedReportPtr r"
  using outcome by blast

end

text \<open>A function that always answers.\<close>

locale answering_op = reply_op +
  assumes answers: "reply_fun r = Inr r' \<Longrightarrow> wf_response r \<Longrightarrow> nextPacketReady r'"
begin

lemma answer:
  assumes "reply_fun r = Inr r'" "wf_response r"
  shows "nextPacketReady r' \<and> wf_response r' \<and>
    before_send r' = before_send r \<and> selectedReportPtr r' = selectedReportPtr r"
  using answers [OF assms] keeps_wf [OF assms] keeps_pointers [OF assms] by simp

end

lemma prepare_reply_pending [simp]:
  "nextPacketReady r \<Longrightarrow> prepare_reply E code command data len r = Inr r"
  by (simp add: prepare_reply_def)

lemma prepare_uart_reply_pending [simp]:
  "nextPacketReady r \<Longrightarrow> prepare_uart_reply E sel code subcommand data len r = Inr r"
  by (simp add: prepare_uart_reply_def)

lemma prepare_spi_reply_pending [simp]:
  "nextPacketReady r \<Longrightarrow> prepare_spi_reply E sel address sz r = Inr r"
  by (simp add: prepare_spi_reply_uart)

lemmas wf_outcome = fbind_eq_Inr wf_response_def Let_def

interpretation rep: answering_op "prepare_reply E code command data len"
  for E code command data len
  by unfold_locales
    (auto simp: prepare_reply_def wf_outcome length_store length_memset length_memcpy
      split: if_splits)

interpretation uart: answering_op "prepare_uart_reply E sel code subcommand data len"
  for E sel code subcommand data len
  by unfold_locales
    (auto simp: prepare_uart_reply_def wf_outcome length_store length_memset length_memcpy
      split: if_splits)

interpretation spi: answering_op "prepare_spi_reply E sel address sz"
  for E sel address sz
  unfolding prepare_spi_reply_uart by (rule uart.answering_op_axioms)

lemma prepare_standard_report_answers:
  assumes "prepare_standard_report E sel r = Inr r'" "wf_response r"
  shows "nextPacketReady r' \<and> wf_response r' \<and>
    before_send r' = before_send r \<and> selectedReportPtr r' = selectedReportPtr r"
proof (cases "nextPacketReady r")
  case True
  with assms show ?thesis by (simp add: prepare_standard_report_def)
next
  case False
  let ?r = "r\<lparr>counter := counter r + COUNTER_INCREMENT\<rparr>"
  from False assms(1) have "prepare_reply E 0x30 (counter r + COUNTER_INCREMENT)
      (Array (report_bytes sel)) 11 ?r = Inr r'"
    by (simp add: prepare_standard_report_def Let_def)
  from rep.answer [OF this] assms(2) show ?thesis by (simp add: wf_response_def)
qed

interpretation std: answering_op "prepare_standard_report E sel" for E sel
proof unfold_locales
  show "prepare_standard_report E sel r = Inr r" if "nextPacketReady r" for r
    using that by (simp add: prepare_standard_report_def)
qed (use prepare_standard_report_answers in blast)+

lemma prepare_8101_reply:
  "\<not> nextPacketReady r \<Longrightarrow> prepare_8101 E r =
   prepare_reply E 0x81 0x01 (Array [0x00, 0x03, 0x79, 0x05, 0x44, 0xC6, 0xB5, 0x65]) 8 r"
  by (simp add: prepare_8101_def mac_address_def store_def memcpy_def)

lemma prepare_8101_answers:
  assumes "prepare_8101 E r = Inr r'" "wf_response r"
  shows "nextPacketReady r' \<and> wf_response r' \<and>
    before_send r' = before_send r \<and> selectedReportPtr r' = selectedReportPtr r"
proof (cases "nextPacketReady r")
  case True
  with assms show ?thesis by (simp add: prepare_8101_def)
next
  case False
  from assms(1) [unfolded prepare_8101_reply [OF False]] assms(2) show ?thesis
    by (rule rep.answer)
qed

interpretation info: answering_op "prepare_8101 E" for E
proof unfold_locales
  show "prepare_8101 E r = Inr r" if "nextPacketReady r" for r
    using that by (simp add: prepare_8101_def)
qed (use prepare_8101_answers in blast)+

text \<open>
  Through the nested branches of the dispatcher: a computation that, if it ends,
  ends in an answer, and one that leaves a pending reply alone.
\<close>

definition answered :: "response \<Rightarrow> fault + response \<Rightarrow> bool" where
  "answered r x \<longleftrightarrow> (\<forall>r'. x = Inr r' \<longrightarrow> nextPacketReady r' \<and> wf_response r' \<and>
     before_send r' = before_send r \<and> selectedReportPtr r' = selectedReportPtr r)"

lemma answered_if: "answered r a \<Longrightarrow> answered r b \<Longrightarrow> answered r (if c then a else b)"
  by simp

lemma answered_bind: "(\<And>v. answered r (f v)) \<Longrightarrow> answered r (fbind m f)"
  by (cases m) (auto simp: answered_def)

lemma answered_op: "answering_op f \<Longrightarrow> wf_response r \<Longrightarrow> answered r (f r)"
  unfolding answered_def using answering_op.answer by blast

lemmas answered_intros = answered_if answered_bind
  answered_op [OF uart.answering_op_axioms] answered_op [OF spi.answering_op_axioms]
  answered_op [OF rep.answering_op_axioms] answered_op [OF std.answering_op_axioms]
  answered_op [OF info.answering_op_axioms]

lemma process_subcommand_answered:
  "wf_response r \<Longrightarrow> answered r (process_subcommand E sel D r)"
  unfolding process_subcommand_def Let_def by (intro answered_intros)

lemma process_subcommand_pending:
  "nextPacketReady r \<Longrightarrow> 16 \<le> length D \<Longrightarrow> process_subcommand E sel D r = Inr r"
  by (simp add: process_subcommand_def load_in device_info_closed Let_def)

lemma process_OUT_report_reply_op:
  assumes "16 \<le> length D"
  shows "reply_op (process_OUT_report E sel D n)"
proof
  have len: "0 < length D" "1 < length D" using assms by auto
  then show "process_OUT_report E sel D n r = Inr r" if "nextPacketReady r" for r
    using that assms
    by (simp add: process_OUT_report_def load_in process_subcommand_pending info.pending_kept
        std.pending_kept)
  show "r' = r \<or> nextPacketReady r' \<and> wf_response r' \<and>
        before_send r' = before_send r \<and> selectedReportPtr r' = selectedReportPtr r"
    if eq: "process_OUT_report E sel D n r = Inr r'" and wf: "wf_response r" for r r'
  proof (cases "D ! 0 = 0x80 \<or> D ! 0 = 0x01 \<and> n > 16")
    case True
    then have "answered r (process_OUT_report E sel D n r)"
      unfolding process_OUT_report_def load_in [OF len(1)] fbind_Inr
      using process_subcommand_answered [OF wf] wf by (auto intro!: answered_intros)
    with eq show ?thesis by (simp add: answered_def)
  next
    case False
    with eq len show ?thesis by (auto simp: process_OUT_report_def load_in)
  qed
qed

text \<open>
  A family of reply functions, run on a sequence of inputs: a pending reply
  survives all of them, and the first input that is answered decides the reply.
\<close>

locale reply_family =
  fixes step :: "'k \<Rightarrow> response \<Rightarrow> fault + response"
    and valid :: "'k \<Rightarrow> bool"
  assumes family: "valid k \<Longrightarrow> reply_op (step k)"
begin

lemma run_pending: "list_all valid ks \<Longrightarrow> nextPacketReady r \<Longrightarrow> frun step ks r = Inr r"
  by (induction ks) (auto simp: reply_op.pending_kept [OF family])

lemma first_answer_wins:
  "list_all valid ks \<Longrightarrow> step k r = Inr r' \<Longrightarrow> nextPacketReady r' \<Longrightarrow>
   frun step (k # ks) r = step k r"
  by (simp add: run_pending)

lemma run_wf: "list_all valid ks \<Longrightarrow> frun step ks r = Inr r' \<Longrightarrow> wf_response r \<Longrightarrow> wf_response r'"
  by (induction ks arbitrary: r) (auto simp: fbind_eq_Inr dest: reply_op.keeps_wf [OF family])

end

text \<open>One OUT report: what \<open>HID_Task\<close> hands over, with the report selected at that time.\<close>

definition OUT_report ::
  "environment \<Rightarrow> USB_StandardReport_t \<times> bytes \<times> u8 \<Rightarrow> response \<Rightarrow> fault + response" where
  "OUT_report E k = (case k of (sel, D, n) \<Rightarrow> process_OUT_report E sel D n)"

definition valid_OUT :: "USB_StandardReport_t \<times> bytes \<times> u8 \<Rightarrow> bool" where
  "valid_OUT k = (case k of (sel, D, n) \<Rightarrow> wf_report sel \<and> length D = JOYSTICK_EPSIZE)"

interpretation out: reply_family "OUT_report E" valid_OUT for E
  by (rule reply_family.intro)
    (auto simp: valid_OUT_def OUT_report_def process_OUT_report_reply_op)

section \<open>Properties\<close>


definition idle_example :: USB_StandardReport_t where
  "idle_example = report_of_bytes [0x91, 0, 0x80, 0, 0, 8, 0x80, 0, 8, 0x80, 0x0c]"

definition quiet_environment :: environment where
  "quiet_environment = \<lparr>reg_value = \<lambda>_ _. 0, frame_number = \<lambda>_. 0, isr_state = \<lambda>_. None,
     data_mem = \<lambda>_. 0, signature_byte = \<lambda>_. 0\<rparr>"

lemma wf_idle_example [simp]: "wf_report idle_example"
  by (simp add: wf_report_def idle_example_def report_of_bytes_def)

lemma response_init_fields [simp]: "\<not> nextPacketReady response_init" "counter response_init = 0"
  by (simp_all add: response_init_def)


text \<open>
  Memory safety, exactly. With no reply pending, the dispatcher writes outside
  \<open>replyBuffer\<close> if and only if the report is a flash read of 45 to 250 bytes;
  nothing in the code rejects such a request.
\<close>

theorem process_OUT_report_fault_iff:
  assumes "wf_response r" "wf_report sel" "length D = JOYSTICK_EPSIZE" "\<not> nextPacketReady r"
  shows "process_OUT_report E sel D n r = Inl f \<longleftrightarrow> f = OutOfBounds \<and> overflow_request D n"
  using assms process_OUT_report_spec [of r sel D n E] process_OUT_report_overflow [of r sel D n E]
  by (cases "overflow_request D n") auto

theorem process_OUT_report_fault_iff_witness:
  "process_OUT_report quiet_environment idle_example
     ([0x01] @ replicate 9 0 @ [0x10, 0x00, 0x60, 0, 0, 45] @ replicate 48 0) 64 response_init
   = Inl OutOfBounds"
  using process_OUT_report_fault_iff [of response_init idle_example
      "[0x01] @ replicate 9 0 @ [0x10, 0x00, 0x60, 0, 0, 45] @ replicate 48 0"
      quiet_environment 64 OutOfBounds]
  by (simp add: wf_response_init overflow_request_def nth_append)

text \<open>
  First request wins. Between two transmissions, once a report has been
  answered, every further report is dropped: the buffer the console receives is
  the one prepared for the first of them.
\<close>

theorem OUT_reports_first_wins:
  assumes "list_all valid_OUT ks" "OUT_report E k r = Inr r'" "nextPacketReady r'"
  shows "frun (OUT_report E) (k # ks) r = OUT_report E k r"
  using assms by (rule out.first_answer_wins)

theorem OUT_reports_first_wins_witness:
  "frun (OUT_report quiet_environment)
     [(idle_example, [0x80, 0x02] @ replicate 62 0, 2), (idle_example, [0x80, 0x01] @ replicate 62 0, 2)]
     response_init = Inr (ready [0x81, 0x02] 0 response_init)"
proof -
  have "OUT_report quiet_environment (idle_example, [0x80, 0x02] @ replicate 62 0, 2) response_init
      = Inr (ready [0x81, 0x02] 0 response_init)"
    by (simp add: OUT_report_def process_OUT_report_spec wf_response_init overflow_request_def
        request_reply_def)
  with OUT_reports_first_wins [OF _ this, of "[(idle_example, [0x80, 0x01] @ replicate 62 0, 2)]"]
  show ?thesis
    by (simp add: valid_OUT_def ready_def)
qed

end
