(* ===== verification/Loops.thy ===== *)
theory Loops
  imports Prelude
begin

text \<open>
  Loops that may run forever. A turn of a loop either returns from the enclosing
  function, leaves the loop, or goes round again with new loop variables \<open>'c\<close>;
  the program state is \<open>'s\<close>. The rules below are the ones the component proofs use:
  an invariant rule, a rule for the absence of faults and a termination rule.
\<close>

datatype ('r, 'c) turn = Return 'r | Leave | Again 'c

partial_function (option) turn_loop ::
  "('c \<Rightarrow> 's \<Rightarrow> (('r, 'c) turn \<times> 's) outcome) \<Rightarrow> 'c \<Rightarrow> 's \<Rightarrow> ('r option \<times> 's) outcome" where
  "turn_loop step c s =
     (case step c s of
        None \<Rightarrow> None
      | Some (Inl e) \<Rightarrow> Some (Inl e)
      | Some (Inr (Return r, s)) \<Rightarrow> Some (Inr (Some r, s))
      | Some (Inr (Leave, s)) \<Rightarrow> Some (Inr (None, s))
      | Some (Inr (Again c, s)) \<Rightarrow> turn_loop step c s)"

declare turn_loop.simps [code]

lemma turn_loop_Return: "step c s = Some (Inr (Return r, t)) \<Longrightarrow> turn_loop step c s = Some (Inr (Some r, t))"
  by (simp add: turn_loop.simps)

lemma turn_loop_Leave: "step c s = Some (Inr (Leave, t)) \<Longrightarrow> turn_loop step c s = Some (Inr (None, t))"
  by (simp add: turn_loop.simps)

lemma turn_loop_Again: "step c s = Some (Inr (Again d, t)) \<Longrightarrow> turn_loop step c s = turn_loop step d t"
  by (simp add: turn_loop.simps)

lemma turn_loop_fault: "step c s = Some (Inl e) \<Longrightarrow> turn_loop step c s = Some (Inl e)"
  by (simp add: turn_loop.simps)

text \<open>
  The invariant rule for every way the loop can end. \<open>I\<close> is the invariant, \<open>Q\<close>
  holds when the loop ends with a result, \<open>F\<close> when it ends in a fault.
\<close>

lemma turn_loop_rule:
  assumes "turn_loop step c s = Some y" "I c s"
    and again: "\<And>c s d t. I c s \<Longrightarrow> step c s = Some (Inr (Again d, t)) \<Longrightarrow> I d t"
    and return: "\<And>c s r t. I c s \<Longrightarrow> step c s = Some (Inr (Return r, t)) \<Longrightarrow> Q (Some r) t"
    and leave: "\<And>c s t. I c s \<Longrightarrow> step c s = Some (Inr (Leave, t)) \<Longrightarrow> Q None t"
    and fault: "\<And>c s e. I c s \<Longrightarrow> step c s = Some (Inl e) \<Longrightarrow> F e"
  shows "case y of Inl e \<Rightarrow> F e | Inr (r, t) \<Rightarrow> Q r t"
proof -
  have "st = step \<longrightarrow> I c s \<longrightarrow> (case y of Inl e \<Rightarrow> F e | Inr (r, t) \<Rightarrow> Q r t)"
    if "turn_loop st c s = Some y" for st c s y
  proof (rule turn_loop.raw_induct [OF _ that, where P = "\<lambda>st c s y. st = step \<longrightarrow> I c s \<longrightarrow>
      (case y of Inl e \<Rightarrow> F e | Inr (r, t) \<Rightarrow> Q r t)"], intro impI)
    fix f st c s y
    assume IH: "\<And>st c s y. f st c s = Some y \<Longrightarrow>
        st = step \<longrightarrow> I c s \<longrightarrow> (case y of Inl e \<Rightarrow> F e | Inr (r, t) \<Rightarrow> Q r t)"
      and eq: "(case st c s of
        None \<Rightarrow> None
      | Some (Inl e) \<Rightarrow> Some (Inl e)
      | Some (Inr (Return r, s)) \<Rightarrow> Some (Inr (Some r, s))
      | Some (Inr (Leave, s)) \<Rightarrow> Some (Inr (None, s))
      | Some (Inr (Again c, s)) \<Rightarrow> f st c s) = Some y"
      and st: "st = step" and I: "I c s"
    have rec: "case y of Inl e \<Rightarrow> F e | Inr (r, t) \<Rightarrow> Q r t"
      if "step c s = Some (Inr (Again d, t))" "f step d t = Some y" for d t
      using IH [OF that(2)] again [OF I that(1)] by blast
    show "case y of Inl e \<Rightarrow> F e | Inr (r, t) \<Rightarrow> Q r t"
      using eq return [OF I] leave [OF I] fault [OF I] st
      by (auto split: option.split_asm sum.split_asm turn.split_asm dest: rec)
  qed
  with assms(1,2) show ?thesis by blast
qed

lemma turn_loop_inv:
  assumes "turn_loop step c s = Some (Inr (r, t))" "I c s"
    and "\<And>c s d t. I c s \<Longrightarrow> step c s = Some (Inr (Again d, t)) \<Longrightarrow> I d t"
    and "\<And>c s r t. I c s \<Longrightarrow> step c s = Some (Inr (Return r, t)) \<Longrightarrow> Q (Some r) t"
    and "\<And>c s t. I c s \<Longrightarrow> step c s = Some (Inr (Leave, t)) \<Longrightarrow> Q None t"
  shows "Q r t"
  using turn_loop_rule [OF assms(1), where I = I and Q = Q and F = "\<lambda>_. True"] assms(2-) by simp

lemma turn_loop_safe:
  assumes "I c s"
    and "\<And>c s d t. I c s \<Longrightarrow> step c s = Some (Inr (Again d, t)) \<Longrightarrow> I d t"
    and "\<And>c s e. I c s \<Longrightarrow> step c s \<noteq> Some (Inl e)"
  shows "turn_loop step c s \<noteq> Some (Inl e)"
proof
  assume "turn_loop step c s = Some (Inl e)"
  from turn_loop_rule [OF this, where I = I and Q = "\<lambda>_ _. True" and F = "\<lambda>_. False"] assms
  show False by auto
qed

text \<open>A loop whose turns always end and decrease a measure ends.\<close>

lemma turn_loop_terminates:
  assumes "I c s"
    and step: "\<And>c s. I c s \<Longrightarrow> \<exists>y. step c s = Some y"
    and again: "\<And>c s d t. I c s \<Longrightarrow> step c s = Some (Inr (Again d, t)) \<Longrightarrow>
      I d t \<and> (m d t :: nat) < m c s"
  shows "\<exists>y. turn_loop step c s = Some y"
  using assms(1)
proof (induction "m c s" arbitrary: c s rule: less_induct)
  case less
  from step [OF less.prems] obtain y where y: "step c s = Some y" ..
  show ?case
  proof (cases y)
    case (Inr p)
    then obtain t u where p: "y = Inr (t, u)" by (cases p) auto
    show ?thesis
    proof (cases t)
      case (Again d)
      with y p have "step c s = Some (Inr (Again d, u))" by simp
      from again [OF less.prems this] less.hyps turn_loop_Again [of step c s d u] this show ?thesis by auto
    qed (use y p in \<open>auto simp: turn_loop.simps\<close>)
  qed (use y in \<open>auto simp: turn_loop.simps\<close>)
qed

text \<open>A loop whose turn changes nothing never ends.\<close>

lemma turn_loop_endless:
  assumes "step c s = Some (Inr (Again c, s))"
  shows "turn_loop step c s = None"
proof (rule ccontr)
  assume "turn_loop step c s \<noteq> None"
  then obtain y where "turn_loop step c s = Some y" by blast
  from turn_loop_rule [OF this, where I = "\<lambda>d t. d = c \<and> t = s" and Q = "\<lambda>_ _. False" and F = "\<lambda>_. False"] assms
  show False by (auto split: sum.splits)
qed

text \<open>
  A run is calm if it does not fault and leaves a view of the state as it was.
\<close>

definition calm :: "('x \<Rightarrow> 'v) \<Rightarrow> 'v \<Rightarrow> 'x outcome \<Rightarrow> bool" where
  "calm view v m \<longleftrightarrow> (case m of None \<Rightarrow> True | Some (Inl e) \<Rightarrow> False | Some (Inr x) \<Rightarrow> view x = v)"

lemma calm_simps [simp]:
  "calm view v None" "\<not> calm view v (Some (Inl e))" "calm view v (Some (Inr x)) \<longleftrightarrow> view x = v"
  by (simp_all add: calm_def)

lemma calm_iff:
  "calm view v m \<longleftrightarrow> (\<forall>e. m \<noteq> Some (Inl e)) \<and> (\<forall>x. m = Some (Inr x) \<longrightarrow> view x = v)"
  by (auto simp: calm_def split: option.splits sum.splits)

lemma calm_obind_view:
  "calm view v m \<Longrightarrow> (\<And>x. view x = v \<Longrightarrow> calm view' w (f x)) \<Longrightarrow> calm view' w (obind m f)"
  by (auto simp: calm_iff obind_eq_Some)

lemma calm_obind:
  "calm view v m \<Longrightarrow> (\<And>x. view x = v \<Longrightarrow> calm view' v (f x)) \<Longrightarrow> calm view' v (obind m f)"
  by (rule calm_obind_view)

lemma calm_returns: "(\<And>x. m = Some x \<Longrightarrow> view x = v) \<Longrightarrow> calm view v (returns m)"
  by (cases m) simp_all

lemma calm_turn_loop_inv:
  assumes "I c" "view s = v"
    and step: "\<And>c s. I c \<Longrightarrow> view s = v \<Longrightarrow> calm (view \<circ> snd) v (step c s)"
    and again: "\<And>c s d t. I c \<Longrightarrow> view s = v \<Longrightarrow> step c s = Some (Inr (Again d, t)) \<Longrightarrow> I d"
  shows "calm (view \<circ> snd) v (turn_loop step c s)"
proof (cases "turn_loop step c s")
  case (Some y)
  have keep: "view t = v" if "I c \<and> view s = v" "step c s = Some (Inr (x, t))" for c s x t
    using step [of c s] that by simp
  have "case y of Inl e \<Rightarrow> False | Inr (r, t) \<Rightarrow> view t = v"
  proof (rule turn_loop_rule [OF Some, where I = "\<lambda>c s. I c \<and> view s = v"])
    show "I c \<and> view s = v" using assms(1,2) by simp
    show "I d \<and> view t = v" if "I c \<and> view s = v" "step c s = Some (Inr (Again d, t))" for c s d t
      using keep [OF that] again [of c s d t] that by simp
    show "view t = v" if "I c \<and> view s = v" "step c s = Some (Inr (Return r, t))" for c s r t
      using that by (rule keep)
    show "view t = v" if "I c \<and> view s = v" "step c s = Some (Inr (Leave, t))" for c s t
      using that by (rule keep)
    show False if "I c \<and> view s = v" "step c s = Some (Inl e)" for c s e
      using step [of c s] that by simp
  qed
  with Some show ?thesis by (cases y) auto
qed simp

lemma calm_turn_loop:
  assumes "view s = v" "\<And>c s. view s = v \<Longrightarrow> calm (view \<circ> snd) v (step c s)"
  shows "calm (view \<circ> snd) v (turn_loop step c s)"
  by (rule calm_turn_loop_inv [where I = "\<lambda>_. True"]) (use assms in simp_all)

end
