(* ===== verification/Endpoint.thy ===== *)
theory Endpoint
  imports Hardware Loops
begin

text \<open>
  LUFA's device state and its endpoint layer for AVR8 (\<open>USBTask.c\<close>,
  \<open>StdRequestType.h\<close>, \<open>Endpoint_AVR8.h\<close>, \<open>Endpoint_AVR8.c\<close>), in the configuration
  of this firmware: device only, ATmega16U2, no \<open>ORDERED_EP_CONFIG\<close>, control
  endpoint of 32 bytes.
\<close>

section \<open>State of the USB stack\<close>

record USB_Request_Header_t =
  bmRequestType :: u8
  bRequest :: u8
  wValue :: u16
  wIndex :: u16
  wLength :: u16

record usb = io_st +
  USB_DeviceState :: usb_device_state
  USB_ControlRequest :: USB_Request_Header_t
  USB_Device_ConfigurationNumber :: u8
  USB_Device_CurrentlySelfPowered :: bool
  USB_Device_RemoteWakeupEnabled :: bool
  USB_IsInitialized :: bool

text \<open>
  A read of the volatile variable \<open>USB_DeviceState\<close> in the main program: the
  interrupt routine may have stored a new value before it.
\<close>

definition read_DeviceState ::
  "environment \<Rightarrow> 'a usb_scheme \<Rightarrow> usb_device_state \<times> 'a usb_scheme" where
  "read_DeviceState E s =
     (let d = (case isr_state E (io_log s) of None \<Rightarrow> USB_DeviceState s | Some d \<Rightarrow> d)
      in (d, event (RdState d) (s\<lparr>USB_DeviceState := d\<rparr>)))"

abbreviation (input) ENDPOINT_EPNUM_MASK :: u8 where "ENDPOINT_EPNUM_MASK \<equiv> 0x0F"
abbreviation (input) ENDPOINT_DIR_IN :: u8 where "ENDPOINT_DIR_IN \<equiv> 0x80"
abbreviation (input) ENDPOINT_DIR_OUT :: u8 where "ENDPOINT_DIR_OUT \<equiv> 0x00"
abbreviation (input) ENDPOINT_CONTROLEP :: u8 where "ENDPOINT_CONTROLEP \<equiv> 0"
abbreviation (input) ENDPOINT_TOTAL_ENDPOINTS :: nat where "ENDPOINT_TOTAL_ENDPOINTS \<equiv> 5"
abbreviation (input) EP_TYPE_CONTROL :: u8 where "EP_TYPE_CONTROL \<equiv> 0x00"
abbreviation (input) EP_TYPE_INTERRUPT :: u8 where "EP_TYPE_INTERRUPT \<equiv> 0x03"
abbreviation (input) FIXED_CONTROL_ENDPOINT_SIZE :: nat where "FIXED_CONTROL_ENDPOINT_SIZE \<equiv> 32"
abbreviation (input) USB_STREAM_TIMEOUT_MS :: u8 where "USB_STREAM_TIMEOUT_MS \<equiv> 100"
abbreviation (input) REQDIR_DEVICETOHOST :: u8 where "REQDIR_DEVICETOHOST \<equiv> 0x80"
abbreviation (input) REQDIR_HOSTTODEVICE :: u8 where "REQDIR_HOSTTODEVICE \<equiv> 0x00"
abbreviation (input) REQTYPE_STANDARD :: u8 where "REQTYPE_STANDARD \<equiv> 0x00"
abbreviation (input) REQTYPE_CLASS :: u8 where "REQTYPE_CLASS \<equiv> 0x20"
abbreviation (input) REQREC_DEVICE :: u8 where "REQREC_DEVICE \<equiv> 0"
abbreviation (input) REQREC_INTERFACE :: u8 where "REQREC_INTERFACE \<equiv> 1"
abbreviation (input) REQREC_ENDPOINT :: u8 where "REQREC_ENDPOINT \<equiv> 2"

datatype readywait =
    ENDPOINT_READYWAIT_NoError | ENDPOINT_READYWAIT_EndpointStalled
  | ENDPOINT_READYWAIT_DeviceDisconnected | ENDPOINT_READYWAIT_BusSuspended
  | ENDPOINT_READYWAIT_Timeout

section \<open>Single-register operations\<close>

definition Endpoint_SelectEndpoint :: "u8 \<Rightarrow> 'a usb_scheme \<Rightarrow> 'a usb_scheme" where
  "Endpoint_SelectEndpoint Address s = wr UENUM (Address AND ENDPOINT_EPNUM_MASK) s"

definition Endpoint_BytesInEndpoint :: "environment \<Rightarrow> 'a usb_scheme \<Rightarrow> u16 \<times> 'a usb_scheme" where
  "Endpoint_BytesInEndpoint E s = (let (v, s) = rd E UEBCLX s in (ucast v, s))"

definition Endpoint_GetEndpointDirection ::
  "environment \<Rightarrow> 'a usb_scheme \<Rightarrow> u8 \<times> 'a usb_scheme" where
  "Endpoint_GetEndpointDirection E s =
     (let (b, s) = test_bit E UECFG0X EPDIR s
      in (if b then ENDPOINT_DIR_IN else ENDPOINT_DIR_OUT, s))"

definition Endpoint_GetCurrentEndpoint :: "environment \<Rightarrow> 'a usb_scheme \<Rightarrow> u8 \<times> 'a usb_scheme" where
  "Endpoint_GetCurrentEndpoint E s =
     (let (n, s) = rd E UENUM s; (d, s) = Endpoint_GetEndpointDirection E s
      in ((n AND ENDPOINT_EPNUM_MASK) OR d, s))"

definition Endpoint_ResetEndpoint :: "u8 \<Rightarrow> 'a usb_scheme \<Rightarrow> 'a usb_scheme" where
  "Endpoint_ResetEndpoint Address s =
     wr UERST 0 (wr UERST (BV (unat (Address AND ENDPOINT_EPNUM_MASK))) s)"

definition Endpoint_EnableEndpoint :: "environment \<Rightarrow> 'a usb_scheme \<Rightarrow> 'a usb_scheme" where
  "Endpoint_EnableEndpoint E s = set_bits E UECONX (BV EPEN) s"

definition Endpoint_DisableEndpoint :: "environment \<Rightarrow> 'a usb_scheme \<Rightarrow> 'a usb_scheme" where
  "Endpoint_DisableEndpoint E s = clr_bits E UECONX (BV EPEN) s"

definition Endpoint_IsEnabled :: "environment \<Rightarrow> 'a usb_scheme \<Rightarrow> bool \<times> 'a usb_scheme" where
  "Endpoint_IsEnabled E s = test_bit E UECONX EPEN s"

definition Endpoint_IsReadWriteAllowed :: "environment \<Rightarrow> 'a usb_scheme \<Rightarrow> bool \<times> 'a usb_scheme" where
  "Endpoint_IsReadWriteAllowed E s = test_bit E UEINTX RWAL s"

definition Endpoint_IsConfigured :: "environment \<Rightarrow> 'a usb_scheme \<Rightarrow> bool \<times> 'a usb_scheme" where
  "Endpoint_IsConfigured E s = test_bit E UESTA0X CFGOK s"

definition Endpoint_IsINReady :: "environment \<Rightarrow> 'a usb_scheme \<Rightarrow> bool \<times> 'a usb_scheme" where
  "Endpoint_IsINReady E s = test_bit E UEINTX TXINI s"

definition Endpoint_IsOUTReceived :: "environment \<Rightarrow> 'a usb_scheme \<Rightarrow> bool \<times> 'a usb_scheme" where
  "Endpoint_IsOUTReceived E s = test_bit E UEINTX RXOUTI s"

definition Endpoint_IsSETUPReceived :: "environment \<Rightarrow> 'a usb_scheme \<Rightarrow> bool \<times> 'a usb_scheme" where
  "Endpoint_IsSETUPReceived E s = test_bit E UEINTX RXSTPI s"

definition Endpoint_ClearSETUP :: "environment \<Rightarrow> 'a usb_scheme \<Rightarrow> 'a usb_scheme" where
  "Endpoint_ClearSETUP E s = clr_bits E UEINTX (BV RXSTPI) s"

definition Endpoint_ClearIN :: "environment \<Rightarrow> 'a usb_scheme \<Rightarrow> 'a usb_scheme" where
  "Endpoint_ClearIN E s = clr_bits E UEINTX (BV TXINI OR BV FIFOCON) s"

definition Endpoint_ClearOUT :: "environment \<Rightarrow> 'a usb_scheme \<Rightarrow> 'a usb_scheme" where
  "Endpoint_ClearOUT E s = clr_bits E UEINTX (BV RXOUTI OR BV FIFOCON) s"

definition Endpoint_StallTransaction :: "environment \<Rightarrow> 'a usb_scheme \<Rightarrow> 'a usb_scheme" where
  "Endpoint_StallTransaction E s = set_bits E UECONX (BV STALLRQ) s"

definition Endpoint_ClearStall :: "environment \<Rightarrow> 'a usb_scheme \<Rightarrow> 'a usb_scheme" where
  "Endpoint_ClearStall E s = set_bits E UECONX (BV STALLRQC) s"

definition Endpoint_IsStalled :: "environment \<Rightarrow> 'a usb_scheme \<Rightarrow> bool \<times> 'a usb_scheme" where
  "Endpoint_IsStalled E s = test_bit E UECONX STALLRQ s"

definition Endpoint_ResetDataToggle :: "environment \<Rightarrow> 'a usb_scheme \<Rightarrow> 'a usb_scheme" where
  "Endpoint_ResetDataToggle E s = set_bits E UECONX (BV RSTDT) s"

definition Endpoint_SetEndpointDirection ::
  "environment \<Rightarrow> u8 \<Rightarrow> 'a usb_scheme \<Rightarrow> 'a usb_scheme" where
  "Endpoint_SetEndpointDirection E DirectionMask s =
     (let (v, s) = rd E UECFG0X s
      in wr UECFG0X ((v AND NOT (BV EPDIR)) OR (if DirectionMask \<noteq> 0 then BV EPDIR else 0)) s)"

definition Endpoint_GetBusyBanks :: "environment \<Rightarrow> 'a usb_scheme \<Rightarrow> u8 \<times> 'a usb_scheme" where
  "Endpoint_GetBusyBanks E s = (let (v, s) = rd E UESTA0X s in (v AND 0x03, s))"

partial_function (option) Endpoint_AbortPendingIN ::
  "environment \<Rightarrow> 'a usb_scheme \<Rightarrow> 'a usb_scheme option" where
  "Endpoint_AbortPendingIN E s =
     (if fst (Endpoint_GetBusyBanks E s) \<noteq> 0
      then Option.bind (wait_bit_clear E UEINTX RXOUTI
             (set_bits E UEINTX (BV RXOUTI) (snd (Endpoint_GetBusyBanks E s))))
             (Endpoint_AbortPendingIN E)
      else Some (snd (Endpoint_GetBusyBanks E s)))"

definition Endpoint_GetEndpointInterrupts :: "environment \<Rightarrow> 'a usb_scheme \<Rightarrow> u8 \<times> 'a usb_scheme" where
  "Endpoint_GetEndpointInterrupts E s = rd E UEINT s"

definition Endpoint_HasEndpointInterrupted ::
  "environment \<Rightarrow> u8 \<Rightarrow> 'a usb_scheme \<Rightarrow> bool \<times> 'a usb_scheme" where
  "Endpoint_HasEndpointInterrupted E Address s =
     (let (v, s) = Endpoint_GetEndpointInterrupts E s
      in (bit v (unat (Address AND ENDPOINT_EPNUM_MASK)), s))"

section \<open>Reading and writing the endpoint bank\<close>

definition Endpoint_Read_8 :: "environment \<Rightarrow> 'a usb_scheme \<Rightarrow> u8 \<times> 'a usb_scheme" where
  "Endpoint_Read_8 E s = rd E UEDATX s"

definition Endpoint_Write_8 :: "u8 \<Rightarrow> 'a usb_scheme \<Rightarrow> 'a usb_scheme" where
  "Endpoint_Write_8 Data s = wr UEDATX Data s"

definition Endpoint_Discard_8 :: "environment \<Rightarrow> 'a usb_scheme \<Rightarrow> 'a usb_scheme" where
  "Endpoint_Discard_8 E s = (let (Dummy, s) = rd E UEDATX s in s)"

definition Endpoint_Read_16_LE :: "environment \<Rightarrow> 'a usb_scheme \<Rightarrow> u16 \<times> 'a usb_scheme" where
  "Endpoint_Read_16_LE E s =
     (let (b0, s) = rd E UEDATX s; (b1, s) = rd E UEDATX s in (join16 b1 b0, s))"

definition Endpoint_Read_16_BE :: "environment \<Rightarrow> 'a usb_scheme \<Rightarrow> u16 \<times> 'a usb_scheme" where
  "Endpoint_Read_16_BE E s =
     (let (b1, s) = rd E UEDATX s; (b0, s) = rd E UEDATX s in (join16 b1 b0, s))"

definition Endpoint_Write_16_LE :: "u16 \<Rightarrow> 'a usb_scheme \<Rightarrow> 'a usb_scheme" where
  "Endpoint_Write_16_LE Data s =
     wr UEDATX (ucast (drop_bit 8 Data)) (wr UEDATX (ucast (Data AND 0xFF)) s)"

definition Endpoint_Write_16_BE :: "u16 \<Rightarrow> 'a usb_scheme \<Rightarrow> 'a usb_scheme" where
  "Endpoint_Write_16_BE Data s =
     wr UEDATX (ucast (Data AND 0xFF)) (wr UEDATX (ucast (drop_bit 8 Data)) s)"

definition Endpoint_Discard_16 :: "environment \<Rightarrow> 'a usb_scheme \<Rightarrow> 'a usb_scheme" where
  "Endpoint_Discard_16 E s =
     (let (Dummy, s) = rd E UEDATX s; (Dummy, s) = rd E UEDATX s in s)"

text \<open>A 32-bit value from its bytes, most significant first.\<close>

definition join32 :: "u8 \<Rightarrow> u8 \<Rightarrow> u8 \<Rightarrow> u8 \<Rightarrow> u32" where
  "join32 b3 b2 b1 b0 =
     push_bit 24 (ucast b3) OR push_bit 16 (ucast b2) OR push_bit 8 (ucast b1) OR ucast b0"

definition Endpoint_Read_32_LE :: "environment \<Rightarrow> 'a usb_scheme \<Rightarrow> u32 \<times> 'a usb_scheme" where
  "Endpoint_Read_32_LE E s =
     (let (b0, s) = rd E UEDATX s; (b1, s) = rd E UEDATX s;
          (b2, s) = rd E UEDATX s; (b3, s) = rd E UEDATX s
      in (join32 b3 b2 b1 b0, s))"

definition Endpoint_Read_32_BE :: "environment \<Rightarrow> 'a usb_scheme \<Rightarrow> u32 \<times> 'a usb_scheme" where
  "Endpoint_Read_32_BE E s =
     (let (b3, s) = rd E UEDATX s; (b2, s) = rd E UEDATX s;
          (b1, s) = rd E UEDATX s; (b0, s) = rd E UEDATX s
      in (join32 b3 b2 b1 b0, s))"

definition Endpoint_Write_32_LE :: "u32 \<Rightarrow> 'a usb_scheme \<Rightarrow> 'a usb_scheme" where
  "Endpoint_Write_32_LE Data s =
     wr UEDATX (ucast (drop_bit 24 Data)) (wr UEDATX (ucast (drop_bit 16 Data))
       (wr UEDATX (ucast (drop_bit 8 Data)) (wr UEDATX (ucast (Data AND 0xFF)) s)))"

definition Endpoint_Write_32_BE :: "u32 \<Rightarrow> 'a usb_scheme \<Rightarrow> 'a usb_scheme" where
  "Endpoint_Write_32_BE Data s =
     wr UEDATX (ucast (Data AND 0xFF)) (wr UEDATX (ucast (drop_bit 8 Data))
       (wr UEDATX (ucast (drop_bit 16 Data)) (wr UEDATX (ucast (drop_bit 24 Data)) s)))"

definition Endpoint_Discard_32 :: "environment \<Rightarrow> 'a usb_scheme \<Rightarrow> 'a usb_scheme" where
  "Endpoint_Discard_32 E s =
     (let (Dummy, s) = rd E UEDATX s; (Dummy, s) = rd E UEDATX s;
          (Dummy, s) = rd E UEDATX s; (Dummy, s) = rd E UEDATX s in s)"

section \<open>Configuring endpoints\<close>

text \<open>
  The loop of \<open>Endpoint_BytesToEPSizeMask\<close>, on 16-bit \<open>CheckBytes\<close>: beyond 32768
  the shifted value wraps to zero and the loop does not end.
\<close>

partial_function (option) EPSizeMask_loop :: "u16 \<Rightarrow> u8 \<Rightarrow> u16 \<Rightarrow> u8 option" where
  "EPSizeMask_loop Bytes MaskVal CheckBytes =
     (if CheckBytes < Bytes then EPSizeMask_loop Bytes (MaskVal + 1) (push_bit 1 CheckBytes)
      else Some MaskVal)"

definition Endpoint_BytesToEPSizeMask :: "u16 \<Rightarrow> u8 option" where
  "Endpoint_BytesToEPSizeMask Bytes =
     Option.bind (EPSizeMask_loop Bytes 0 8) (\<lambda>MaskVal. Some (push_bit EPSIZE0 MaskVal))"

text \<open>
  The loop over the endpoints from \<open>EPNum\<close> up: each allocated endpoint above the
  one being configured is given back its configuration, so that the controller
  lays the banks out again in ascending order. \<open>k\<close> counts the endpoints left.
\<close>

fun ConfigureEndpoint_loop ::
  "environment \<Rightarrow> u8 \<Rightarrow> u8 \<Rightarrow> u8 \<Rightarrow> nat \<Rightarrow> 'a usb_scheme \<Rightarrow> bool \<times> 'a usb_scheme" where
  "ConfigureEndpoint_loop E Number UECFG0XData UECFG1XData 0 s =
     (True, Endpoint_SelectEndpoint Number s)"
| "ConfigureEndpoint_loop E Number UECFG0XData UECFG1XData (Suc k) s =
     (let EPNum = of_nat (ENDPOINT_TOTAL_ENDPOINTS - Suc k);
          s = Endpoint_SelectEndpoint EPNum s;
          (UECFG0XTemp, UECFG1XTemp, UEIENXTemp, s) =
            (if EPNum = Number then (UECFG0XData, UECFG1XData, 0, s)
             else let (c0, s) = rd E UECFG0X s; (c1, s) = rd E UECFG1X s; (ie, s) = rd E UEIENX s
                  in (c0, c1, ie, s))
      in if \<not> bit UECFG1XTemp ALLOC
         then ConfigureEndpoint_loop E Number UECFG0XData UECFG1XData k s
         else
           let s = Endpoint_DisableEndpoint E s;
               s = clr_bits E UECFG1X (BV ALLOC) s;
               s = Endpoint_EnableEndpoint E s;
               s = wr UECFG0X UECFG0XTemp s;
               s = wr UECFG1X UECFG1XTemp s;
               s = wr UEIENX UEIENXTemp s;
               (ok, s) = Endpoint_IsConfigured E s
           in if \<not> ok then (False, s)
              else ConfigureEndpoint_loop E Number UECFG0XData UECFG1XData k s)"

definition Endpoint_ConfigureEndpoint_Prv ::
  "environment \<Rightarrow> u8 \<Rightarrow> u8 \<Rightarrow> u8 \<Rightarrow> 'a usb_scheme \<Rightarrow> bool \<times> 'a usb_scheme" where
  "Endpoint_ConfigureEndpoint_Prv E Number UECFG0XData UECFG1XData s =
     ConfigureEndpoint_loop E Number UECFG0XData UECFG1XData
       (ENDPOINT_TOTAL_ENDPOINTS - unat Number) s"

definition Endpoint_ConfigureEndpoint ::
  "environment \<Rightarrow> u8 \<Rightarrow> u8 \<Rightarrow> u16 \<Rightarrow> u8 \<Rightarrow> 'a usb_scheme \<Rightarrow> (bool \<times> 'a usb_scheme) option" where
  "Endpoint_ConfigureEndpoint E Address Type Size Banks s =
     (let Number = Address AND ENDPOINT_EPNUM_MASK in
      if unat Number \<ge> ENDPOINT_TOTAL_ENDPOINTS then Some (False, s)
      else do {
        mask \<leftarrow> Endpoint_BytesToEPSizeMask Size;
        Some (Endpoint_ConfigureEndpoint_Prv E Number
          (push_bit EPTYPE0 Type OR (if Address AND ENDPOINT_DIR_IN \<noteq> 0 then BV EPDIR else 0))
          (BV ALLOC OR (if Banks > 1 then BV EPBK0 else 0) OR mask) s)
      })"

record USB_Endpoint_Table_t =
  ep_Address :: u8
  ep_Size :: u16
  ep_Type :: u8
  ep_Banks :: u8

fun Endpoint_ConfigureEndpointTable ::
  "environment \<Rightarrow> USB_Endpoint_Table_t list \<Rightarrow> 'a usb_scheme \<Rightarrow> (bool \<times> 'a usb_scheme) option" where
  "Endpoint_ConfigureEndpointTable E [] s = Some (True, s)"
| "Endpoint_ConfigureEndpointTable E (e # Table) s =
     (if ep_Address e = 0 then Endpoint_ConfigureEndpointTable E Table s
      else do {
        (ok, s) \<leftarrow> Endpoint_ConfigureEndpoint E (ep_Address e) (ep_Type e) (ep_Size e) (ep_Banks e) s;
        if \<not> ok then Some (False, s) else Endpoint_ConfigureEndpointTable E Table s
      })"

fun ClearEndpoints_loop :: "environment \<Rightarrow> nat \<Rightarrow> 'a usb_scheme \<Rightarrow> 'a usb_scheme" where
  "ClearEndpoints_loop E 0 s = s"
| "ClearEndpoints_loop E (Suc k) s =
     (let s = Endpoint_SelectEndpoint (of_nat (ENDPOINT_TOTAL_ENDPOINTS - Suc k)) s;
          s = wr UEIENX 0 s;
          s = wr UEINTX 0 s;
          s = wr UECFG1X 0 s
      in ClearEndpoints_loop E k (Endpoint_DisableEndpoint E s))"

definition Endpoint_ClearEndpoints :: "environment \<Rightarrow> 'a usb_scheme \<Rightarrow> 'a usb_scheme" where
  "Endpoint_ClearEndpoints E s =
     ClearEndpoints_loop E ENDPOINT_TOTAL_ENDPOINTS (wr UEINT 0 s)"

section \<open>Waiting\<close>

text \<open>
  \<open>while (!(flag)) \{ if (USB_DeviceState == DEVICE_STATE_Unattached) return; \}\<close>:
  leave the loop when the flag comes, return when the device was detached.
\<close>

definition unless_unattached_step ::
  "environment \<Rightarrow> nat \<Rightarrow> unit \<Rightarrow> 'a usb_scheme \<Rightarrow> ((unit, unit) turn \<times> 'a usb_scheme) outcome" where
  "unless_unattached_step E n u s =
     (let (flag, s) = test_bit E UEINTX n s in
      if flag then Some (Inr (Leave, s)) else
      let (d, s) = read_DeviceState E s in
      Some (Inr (if d = DEVICE_STATE_Unattached then Return () else Again (), s)))"

text \<open>The code after a loop: reached only if the loop did not return.\<close>

definition after_loop :: "('r option \<times> 's) outcome \<Rightarrow> ('s \<Rightarrow> ('r \<times> 's) outcome) \<Rightarrow> ('r \<times> 's) outcome" where
  "after_loop m f = obind m (\<lambda>(r, s). case r of Some r \<Rightarrow> Some (Inr (r, s)) | None \<Rightarrow> f s)"

definition Endpoint_ClearStatusStage :: "environment \<Rightarrow> 'a usb_scheme \<Rightarrow> 'a usb_scheme outcome" where
  "Endpoint_ClearStatusStage E s =
     obind
       (if bmRequestType (USB_ControlRequest s) AND REQDIR_DEVICETOHOST \<noteq> 0
        then after_loop (turn_loop (unless_unattached_step E RXOUTI) () s)
               (\<lambda>s. Some (Inr ((), Endpoint_ClearOUT E s)))
        else after_loop (turn_loop (unless_unattached_step E TXINI) () s)
               (\<lambda>s. Some (Inr ((), Endpoint_ClearIN E s))))
       (\<lambda>(_, s). Some (Inr s))"

definition USB_Device_GetFrameNumber :: "environment \<Rightarrow> 'a usb_scheme \<Rightarrow> u16 \<times> 'a usb_scheme" where
  "USB_Device_GetFrameNumber E s =
     (let v = frame_number E (io_log s) in (v, event (RdFrame v) s))"

text \<open>
  One turn of the endless loop of \<open>Endpoint_WaitUntilReady\<close>, with the remaining
  timeout and the previous frame number as loop variables.
\<close>

definition WaitUntilReady_step ::
  "environment \<Rightarrow> u8 \<times> u16 \<Rightarrow> 'a usb_scheme \<Rightarrow> ((readywait, u8 \<times> u16) turn \<times> 'a usb_scheme) outcome" where
  "WaitUntilReady_step E = (\<lambda>(TimeoutMSRem, PreviousFrameNumber) s.
     let (dir, s) = Endpoint_GetEndpointDirection E s;
         (ready, s) = (if dir = ENDPOINT_DIR_IN then Endpoint_IsINReady E s
                       else Endpoint_IsOUTReceived E s)
      in if ready then Some (Inr (Return ENDPOINT_READYWAIT_NoError, s)) else
      let (LCL, s) = read_DeviceState E s in
      if LCL = DEVICE_STATE_Unattached
      then Some (Inr (Return ENDPOINT_READYWAIT_DeviceDisconnected, s))
      else if LCL = DEVICE_STATE_Suspended then Some (Inr (Return ENDPOINT_READYWAIT_BusSuspended, s))
      else
      let (stalled, s) = Endpoint_IsStalled E s in
      if stalled then Some (Inr (Return ENDPOINT_READYWAIT_EndpointStalled, s))
      else
      let (CurrentFrameNumber, s) = USB_Device_GetFrameNumber E s in
      if CurrentFrameNumber \<noteq> PreviousFrameNumber then
        if TimeoutMSRem = 0 then Some (Inr (Return ENDPOINT_READYWAIT_Timeout, s))
        else Some (Inr (Again (TimeoutMSRem - 1, CurrentFrameNumber), s))
      else Some (Inr (Again (TimeoutMSRem, PreviousFrameNumber), s)))"

definition Endpoint_WaitUntilReady ::
  "environment \<Rightarrow> 'a usb_scheme \<Rightarrow> (readywait \<times> 'a usb_scheme) outcome" where
  "Endpoint_WaitUntilReady E s =
     (let (PreviousFrameNumber, s) = USB_Device_GetFrameNumber E s
      in after_loop (turn_loop (WaitUntilReady_step E) (USB_STREAM_TIMEOUT_MS, PreviousFrameNumber) s)
           (\<lambda>s. Some (Inr (ENDPOINT_READYWAIT_NoError, s))))"

section \<open>Effects of the single operations\<close>

text \<open>Most operations only add to the history.\<close>

lemmas endpoint_defs =
  Endpoint_SelectEndpoint_def Endpoint_BytesInEndpoint_def Endpoint_GetEndpointDirection_def
  Endpoint_GetCurrentEndpoint_def Endpoint_ResetEndpoint_def Endpoint_EnableEndpoint_def
  Endpoint_DisableEndpoint_def Endpoint_IsEnabled_def Endpoint_IsReadWriteAllowed_def
  Endpoint_IsConfigured_def Endpoint_IsINReady_def Endpoint_IsOUTReceived_def
  Endpoint_IsSETUPReceived_def Endpoint_ClearSETUP_def Endpoint_ClearIN_def Endpoint_ClearOUT_def
  Endpoint_StallTransaction_def Endpoint_ClearStall_def Endpoint_IsStalled_def
  Endpoint_ResetDataToggle_def Endpoint_SetEndpointDirection_def Endpoint_GetBusyBanks_def
  Endpoint_Read_8_def Endpoint_Write_8_def USB_Device_GetFrameNumber_def

lemmas endpoint_simps = endpoint_defs rd_pair set_bits_unfold clr_bits_unfold test_bit_unfold Let_def

lemma usb_fields_event [simp]:
  "USB_DeviceState (event e s) = USB_DeviceState s"
  "USB_ControlRequest (event e s) = USB_ControlRequest s"
  "USB_Device_ConfigurationNumber (event e s) = USB_Device_ConfigurationNumber s"
  "USB_Device_CurrentlySelfPowered (event e s) = USB_Device_CurrentlySelfPowered s"
  "USB_Device_RemoteWakeupEnabled (event e s) = USB_Device_RemoteWakeupEnabled s"
  "USB_IsInitialized (event e s) = USB_IsInitialized s"
  "usb.more (event e s) = usb.more s"
  by (simp_all add: event_def)

lemma usb_fields_wr [simp]:
  "USB_DeviceState (wr r v s) = USB_DeviceState s"
  "USB_ControlRequest (wr r v s) = USB_ControlRequest s"
  "USB_Device_ConfigurationNumber (wr r v s) = USB_Device_ConfigurationNumber s"
  "USB_Device_CurrentlySelfPowered (wr r v s) = USB_Device_CurrentlySelfPowered s"
  "USB_Device_RemoteWakeupEnabled (wr r v s) = USB_Device_RemoteWakeupEnabled s"
  "USB_IsInitialized (wr r v s) = USB_IsInitialized s"
  "usb.more (wr r v s) = usb.more s"
  by (simp_all add: wr_def)

lemma usb_fields_read_DeviceState [simp]:
  "USB_ControlRequest (snd (read_DeviceState E s)) = USB_ControlRequest s"
  "USB_Device_ConfigurationNumber (snd (read_DeviceState E s)) = USB_Device_ConfigurationNumber s"
  "USB_Device_CurrentlySelfPowered (snd (read_DeviceState E s)) = USB_Device_CurrentlySelfPowered s"
  "USB_Device_RemoteWakeupEnabled (snd (read_DeviceState E s)) = USB_Device_RemoteWakeupEnabled s"
  "USB_IsInitialized (snd (read_DeviceState E s)) = USB_IsInitialized s"
  "usb.more (snd (read_DeviceState E s)) = usb.more s"
  "USB_DeviceState (snd (read_DeviceState E s)) = fst (read_DeviceState E s)"
  "io_log (snd (read_DeviceState E s)) = RdState (fst (read_DeviceState E s)) # io_log s"
  by (simp_all add: read_DeviceState_def Let_def)

text \<open>
  What transfers and waiting leave alone: everything but the history and the
  device state the interrupt routine may have stored.
\<close>

definition same_usb :: "'a usb_scheme \<Rightarrow> 'a usb_scheme \<Rightarrow> bool" where
  "same_usb s s' \<longleftrightarrow>
     USB_ControlRequest s' = USB_ControlRequest s \<and>
     USB_Device_ConfigurationNumber s' = USB_Device_ConfigurationNumber s \<and>
     USB_Device_CurrentlySelfPowered s' = USB_Device_CurrentlySelfPowered s \<and>
     USB_Device_RemoteWakeupEnabled s' = USB_Device_RemoteWakeupEnabled s \<and>
     USB_IsInitialized s' = USB_IsInitialized s \<and> usb.more s' = usb.more s"

lemma same_usb_refl [simp]: "same_usb s s"
  by (simp add: same_usb_def)

lemma same_usb_trans: "same_usb s t \<Longrightarrow> same_usb t u \<Longrightarrow> same_usb s u"
  by (simp add: same_usb_def)

lemma same_usb_event [simp]: "same_usb s (event e t) \<longleftrightarrow> same_usb s t"
  by (simp add: same_usb_def)

lemma same_usb_wr [simp]: "same_usb s (wr r v t) \<longleftrightarrow> same_usb s t"
  by (simp add: same_usb_def)

lemma same_usb_read_DeviceState [simp]:
  "same_usb s (snd (read_DeviceState E t)) \<longleftrightarrow> same_usb s t"
  by (simp add: same_usb_def)

text \<open>Calm runs: no fault, and the data of the application untouched.\<close>

lemma calm_after_loop:
  assumes "calm (view \<circ> snd) v m" "\<And>s. view s = v \<Longrightarrow> calm (view \<circ> snd) v (f s)"
  shows "calm (view \<circ> snd) v (after_loop m f)"
  unfolding after_loop_def
  by (rule calm_obind [OF assms(1)]) (use assms(2) in \<open>auto split: option.splits\<close>)

lemma usb_more_wait_bit: "wait_bit E r n s = Some t \<Longrightarrow> usb.more t = usb.more s"
  by (drule wait_bit_more) (cases s; cases t; simp)

text \<open>The status stage reads, and writes no register but \<open>UEINTX\<close>.\<close>

lemma calm_status_view:
  assumes "\<And>r v s. view (event (Rd r v) s) = view s" "\<And>s. view (snd (read_DeviceState E s)) = view s"
    and "\<And>v s. view (wr UEINTX v s) = view s"
  shows "calm view (view s) (Endpoint_ClearStatusStage E s)"
proof -
  have loop: "calm (view \<circ> snd) (view s) (turn_loop (unless_unattached_step E n) () s)" for n
    by (rule calm_turn_loop)
      (auto simp: unless_unattached_step_def split_def test_bit_unfold rd_pair Let_def assms)
  have "calm (view \<circ> snd) (view s)
     (if bmRequestType (USB_ControlRequest s) AND REQDIR_DEVICETOHOST \<noteq> 0
      then after_loop (turn_loop (unless_unattached_step E RXOUTI) () s)
             (\<lambda>s. Some (Inr ((), Endpoint_ClearOUT E s)))
      else after_loop (turn_loop (unless_unattached_step E TXINI) () s)
             (\<lambda>s. Some (Inr ((), Endpoint_ClearIN E s))))"
    by (auto intro!: calm_after_loop loop simp: endpoint_simps assms)
  then show ?thesis unfolding Endpoint_ClearStatusStage_def
    by (rule calm_obind) (auto simp: split_def)
qed

lemma calm_ClearStatusStage: "calm usb.more (usb.more s) (Endpoint_ClearStatusStage E s)"
  by (rule calm_status_view) simp_all

lemma calm_WaitUntilReady: "calm (usb.more \<circ> snd) (usb.more s) (Endpoint_WaitUntilReady E s)"
  unfolding Endpoint_WaitUntilReady_def Let_def split_def
  by (intro calm_after_loop calm_turn_loop)
    (auto simp: WaitUntilReady_step_def endpoint_simps split_def)

lemma usb_more_io: "io_st.more t = io_st.more (s :: 'a usb_scheme) \<Longrightarrow> usb.more t = usb.more s"
  by (cases s; cases t; simp)

text \<open>Configuring an endpoint only talks to the hardware.\<close>

lemma more_ConfigureEndpoint_loop:
  "io_st.more (snd (ConfigureEndpoint_loop E n d0 d1 k s)) = io_st.more s"
  by (induction k arbitrary: s) (auto simp: endpoint_simps split_def)

lemma more_ConfigureEndpoint:
  "Endpoint_ConfigureEndpoint E Address Type Size Banks s = Some (ok, t) \<Longrightarrow>
   io_st.more t = io_st.more s"
  by (auto simp: Endpoint_ConfigureEndpoint_def Endpoint_ConfigureEndpoint_Prv_def Let_def
      bind_eq_Some_conv split: if_splits)
    (metis snd_conv more_ConfigureEndpoint_loop)+

lemma usb_more_ConfigureEndpoint:
  "Endpoint_ConfigureEndpoint E Address Type Size Banks s = Some (ok, t) \<Longrightarrow> usb.more t = usb.more s"
  using more_ConfigureEndpoint usb_more_io by blast

lemma EPSizeMask_32: "Endpoint_BytesToEPSizeMask 32 = Some 0x20"
  by (simp add: Endpoint_BytesToEPSizeMask_def EPSizeMask_loop.simps)

lemma EPSizeMask_64: "Endpoint_BytesToEPSizeMask 64 = Some 0x30"
  by (simp add: Endpoint_BytesToEPSizeMask_def EPSizeMask_loop.simps)

end
