(* ===== verification/Receiver.thy ===== *)
theory Receiver
  imports Crc Datatypes Board Response Endpoint
begin

text \<open>
  The UART side of \<open>Joystick.c\<close>: the receive interrupt with its synchronisation
  state machine, the translation of a packet into a controller report, the idle
  report and the callback that selects the report before each transmission.
\<close>

section \<open>State of the firmware\<close>

datatype State_t = SYNCED | SYNC_START | SYNC_1 | OUT_OF_SYNC

text \<open>\<open>selectedReport\<close> points to one of two static reports.\<close>

datatype selected = controllerReport_ptr | idleReport_ptr

record firmware = usb +
  serialInput :: Serial_Input_Packet_t
  controllerReport :: USB_StandardReport_t
  idleReport :: USB_StandardReport_t
  selectedReport :: selected
  state :: State_t
  millis :: u16
  response_manager :: response

definition selected_report :: "firmware \<Rightarrow> USB_StandardReport_t" where
  "selected_report s = (case selectedReport s of
      controllerReport_ptr \<Rightarrow> controllerReport s | idleReport_ptr \<Rightarrow> idleReport s)"

abbreviation (input) MILLIS_UNTIL_PAUSE :: u16 where "MILLIS_UNTIL_PAUSE \<equiv> 120"
abbreviation (input) MILLIS_UNTIL_HOME :: u16 where "MILLIS_UNTIL_HOME \<equiv> 800"
abbreviation (input) MILLIS_HOME_PRESSED :: u16 where "MILLIS_HOME_PRESSED \<equiv> 200"

section \<open>From a packet to a report\<close>

text \<open>Whether a button mask is set, \<open>(button & m) == m\<close>.\<close>

definition pressed :: "u16 \<Rightarrow> JoystickButtons_t \<Rightarrow> bool" where
  "pressed button m \<longleftrightarrow> button AND button_value m = button_value m"

text \<open>Two 12-bit stick axes in three bytes.\<close>

definition stick_bytes :: "u16 \<Rightarrow> u16 \<Rightarrow> bytes" where
  "stick_bytes x y =
     [ucast (x AND 0xFF),
      ucast (push_bit 4 (y AND 0x0F) OR drop_bit 8 (x AND 0xF00)),
      ucast (drop_bit 4 (y AND 0xFF0))]"

definition stick_axis :: "u8 \<Rightarrow> u16" where
  "stick_axis b = push_bit 4 (ucast b) OR 0x08"

definition populate_report_from_serial ::
  "Serial_Input_Packet_t \<Rightarrow> USB_StandardReport_t \<Rightarrow> USB_StandardReport_t" where
  "populate_report_from_serial serialInputPacket standardReport =
     (let button = join16 (input serialInputPacket ! 0) (input serialInputPacket ! 1);
          dpad = input serialInputPacket ! 2;
          lx = stick_axis (input serialInputPacket ! 3);
          ly = stick_axis (input serialInputPacket ! 4);
          rx = stick_axis (input serialInputPacket ! 5);
          ry = stick_axis (input serialInputPacket ! 6)
      in standardReport\<lparr>
        connection_info := 1,
        battery_level := battery_value BATTERY_FULL OR battery_value BATTERY_CHARGING,
        button_y := pressed button SWITCH_Y,
        button_x := pressed button SWITCH_X,
        button_b := pressed button SWITCH_B,
        button_a := pressed button SWITCH_A,
        button_right_sr := False,
        button_right_sl := False,
        button_r := pressed button SWITCH_R,
        button_zr := pressed button SWITCH_ZR,
        button_minus := pressed button SWITCH_MINUS,
        button_plus := pressed button SWITCH_PLUS,
        button_thumb_r := pressed button SWITCH_RCLICK,
        button_thumb_l := pressed button SWITCH_LCLICK,
        button_home := pressed button SWITCH_HOME,
        button_capture := pressed button SWITCH_CAPTURE,
        dummy := 0,
        charging_grip := True,
        dpad_down := dpad \<in> {hat_value HAT_BOTTOM_RIGHT, hat_value HAT_BOTTOM, hat_value HAT_BOTTOM_LEFT},
        dpad_up := dpad \<in> {hat_value HAT_TOP, hat_value HAT_TOP_RIGHT, hat_value HAT_TOP_LEFT},
        dpad_right := dpad \<in> {hat_value HAT_TOP_RIGHT, hat_value HAT_RIGHT, hat_value HAT_BOTTOM_RIGHT},
        dpad_left := dpad \<in> {hat_value HAT_BOTTOM_LEFT, hat_value HAT_LEFT, hat_value HAT_TOP_LEFT},
        button_left_sr := False,
        button_left_sl := False,
        button_l := pressed button SWITCH_L,
        button_zl := pressed button SWITCH_ZL,
        analog := stick_bytes lx ly @ stick_bytes rx ry,
        vibrator_input_report := 0\<rparr>)"

text \<open>The report after \<open>memset(standardReport, 0, sizeof(USB_StandardReport_t))\<close>.\<close>

definition zero_report :: USB_StandardReport_t where
  "zero_report = report_of_bytes (replicate sizeof_USB_StandardReport_t 0)"

definition initialize_idle_report :: "USB_StandardReport_t \<Rightarrow> USB_StandardReport_t" where
  "initialize_idle_report standardReport =
     zero_report\<lparr>
       connection_info := 1,
       battery_level := battery_value BATTERY_FULL OR battery_value BATTERY_CHARGING,
       charging_grip := True,
       analog := stick_bytes 0x0800 0x0800 @ stick_bytes 0x0800 0x0800,
       vibrator_input_report := 0x0c\<rparr>"

section \<open>The receive interrupt\<close>

text \<open>
  Answers go out through \<open>send_byte\<close>, which may wait: the handler returns \<open>None\<close>
  if it waits forever. The byte array is written only at an index below 8, its
  length.
\<close>

definition rx_synced :: "environment \<Rightarrow> u8 \<Rightarrow> firmware \<Rightarrow> firmware option" where
  "rx_synced E b s =
     (let si = serialInput s in
      if received_bytes si < 8 then
        Some (s\<lparr>serialInput := si\<lparr>
          input := (input si)[unat (received_bytes si) := b],
          received_bytes := received_bytes si + 1,
          crc8_ccitt := avr_crc8_ccitt_update (crc8_ccitt si) b\<rparr>\<rparr>)
      else do {
        s \<leftarrow> (if crc8_ccitt si \<noteq> b then
               if b = command_value COMMAND_SYNC_START then
                 send_byte E (response_value RESP_SYNC_START) (s\<lparr>state := SYNC_START\<rparr>)
               else send_byte E (response_value RESP_UPDATE_NACK) s
             else do {
               s \<leftarrow> send_byte E (response_value RESP_UPDATE_ACK) s;
               Some (s\<lparr>controllerReport :=
                        populate_report_from_serial (serialInput s) (controllerReport s),
                      selectedReport := controllerReport_ptr,
                      millis := 0\<rparr>)
             });
        Some (s\<lparr>serialInput := (serialInput s)\<lparr>received_bytes := 0, crc8_ccitt := 0\<rparr>\<rparr>)
      })"

definition rx_byte :: "environment \<Rightarrow> u8 \<Rightarrow> firmware \<Rightarrow> firmware option" where
  "rx_byte E b s = do {
     s \<leftarrow> (case state s of
             SYNCED \<Rightarrow> rx_synced E b s
           | SYNC_START \<Rightarrow>
               if b = command_value COMMAND_SYNC_1
               then send_byte E (response_value RESP_SYNC_1) (s\<lparr>state := SYNC_1\<rparr>)
               else Some (s\<lparr>state := OUT_OF_SYNC\<rparr>)
           | SYNC_1 \<Rightarrow>
               if b = command_value COMMAND_SYNC_2
               then send_byte E (response_value RESP_SYNC_OK) (s\<lparr>state := SYNCED\<rparr>)
               else Some (s\<lparr>state := OUT_OF_SYNC\<rparr>)
           | OUT_OF_SYNC \<Rightarrow> Some s);
     if state s = OUT_OF_SYNC \<and> b = command_value COMMAND_SYNC_START
     then send_byte E (response_value RESP_SYNC_START) (s\<lparr>state := SYNC_START\<rparr>)
     else Some s
   }"

definition USART1_RX_vect :: "environment \<Rightarrow> firmware \<Rightarrow> firmware option" where
  "USART1_RX_vect E s = do {
     (b, s) \<leftarrow> recv_byte E s;
     rx_byte E b s
   }"

section \<open>Selecting the report to send\<close>

abbreviation (input) LEDMASK_NOT_SYNCED :: u8 where "LEDMASK_NOT_SYNCED \<equiv> LEDS_NO_LEDS"
abbreviation (input) LEDMASK_SYNCED :: u8 where "LEDMASK_SYNCED \<equiv> LEDS_ALL_LEDS"
abbreviation (input) LEDMASK_PAUSE_EMPTY_BUFFER :: u8 where "LEDMASK_PAUSE_EMPTY_BUFFER \<equiv> LEDS_LED1"
abbreviation (input) LEDMASK_PAUSE_HOME_BUFFER :: u8 where "LEDMASK_PAUSE_HOME_BUFFER \<equiv> LEDS_LED2"

definition beforeSend_synced :: "environment \<Rightarrow> firmware \<Rightarrow> firmware" where
  "beforeSend_synced E s =
     (if millis s \<ge> MILLIS_UNTIL_PAUSE then
        let s = (if millis s \<ge> MILLIS_UNTIL_HOME \<and> millis s < MILLIS_UNTIL_HOME + MILLIS_HOME_PRESSED
                 then (LEDs_SetAllLEDs E LEDMASK_PAUSE_HOME_BUFFER s)
                   \<lparr>idleReport := (idleReport s)\<lparr>button_home := True\<rparr>,
                    selectedReport := idleReport_ptr\<rparr>
                 else (LEDs_SetAllLEDs E LEDMASK_PAUSE_EMPTY_BUFFER s)
                   \<lparr>idleReport := (idleReport s)\<lparr>button_home := False\<rparr>,
                    selectedReport := idleReport_ptr\<rparr>)
        in if millis s < MILLIS_UNTIL_HOME + MILLIS_HOME_PRESSED
           then s\<lparr>millis := millis s + 8\<rparr> else s
      else (LEDs_SetAllLEDs E LEDMASK_SYNCED s)
             \<lparr>selectedReport := controllerReport_ptr, millis := millis s + 8\<rparr>)"

definition run_beforeSend :: "environment \<Rightarrow> firmware \<Rightarrow> firmware" where
  "run_beforeSend E s =
     (let s = disable_rx_isr E s;
          s = (if state s = SYNCED then beforeSend_synced E s
               else (LEDs_SetAllLEDs E LEDMASK_NOT_SYNCED s)
                      \<lparr>idleReport := (idleReport s)\<lparr>button_home := False\<rparr>,
                       selectedReport := idleReport_ptr\<rparr>)
      in enable_rx_isr E s)"

section \<open>The protocol the receiver implements\<close>

text \<open>
  The abstract receiver: the bytes collected so far when synchronised, and the
  three steps of the handshake. A step yields the next state, the answer to send
  and the packet it accepts.
\<close>

datatype proto = Synced bytes | Start | Step1 | Out

fun proto_next :: "u8 \<Rightarrow> proto \<Rightarrow> proto" where
  "proto_next b (Synced p) =
     (if length p < 8 then Synced (p @ [b])
      else if crc8_of p \<noteq> b \<and> b = 0xFF then Start else Synced [])"
| "proto_next b Start = (if b = 0x33 then Step1 else if b = 0xFF then Start else Out)"
| "proto_next b Step1 = (if b = 0xCC then Synced [] else if b = 0xFF then Start else Out)"
| "proto_next b Out = (if b = 0xFF then Start else Out)"

fun proto_answer :: "u8 \<Rightarrow> proto \<Rightarrow> bytes" where
  "proto_answer b (Synced p) =
     (if length p < 8 then []
      else if crc8_of p = b then [0x91] else if b = 0xFF then [0xFF] else [0x92])"
| "proto_answer b Start = (if b = 0x33 then [0xCC] else if b = 0xFF then [0xFF] else [])"
| "proto_answer b Step1 = (if b = 0xCC then [0x33] else if b = 0xFF then [0xFF] else [])"
| "proto_answer b Out = (if b = 0xFF then [0xFF] else [])"

fun proto_accepts :: "u8 \<Rightarrow> proto \<Rightarrow> bool" where
  "proto_accepts b (Synced p) \<longleftrightarrow> length p = 8 \<and> crc8_of p = b"
| "proto_accepts b _ \<longleftrightarrow> False"

definition rx_abs :: "firmware \<Rightarrow> proto" where
  "rx_abs s = (case state s of
      SYNCED \<Rightarrow> Synced (take (unat (received_bytes (serialInput s))) (input (serialInput s)))
    | SYNC_START \<Rightarrow> Start | SYNC_1 \<Rightarrow> Step1 | OUT_OF_SYNC \<Rightarrow> Out)"

text \<open>
  The invariant of the packet buffer: at most eight bytes are collected, their
  running checksum is up to date, and outside the synchronised state the buffer
  is empty, so that a new session starts at a packet boundary.
\<close>

definition rx_inv :: "firmware \<Rightarrow> bool" where
  "rx_inv s \<longleftrightarrow>
     length (input (serialInput s)) = 8 \<and>
     unat (received_bytes (serialInput s)) \<le> 8 \<and>
     crc8_ccitt (serialInput s) =
       crc8_of (take (unat (received_bytes (serialInput s))) (input (serialInput s))) \<and>
     (state s \<noteq> SYNCED \<longrightarrow> received_bytes (serialInput s) = 0)"

lemma send_byte_log:
  assumes "send_byte E c s = Some s'"
  obtains l where "s' = s\<lparr>io_log := l\<rparr>" "written l = written (io_log s) @ [(UDR1, c)]"
  using send_byte_Some(1,2) [OF assms] log_update by metis

text \<open>What one received byte does, in terms of the abstract receiver.\<close>

definition rx_effect :: "u8 \<Rightarrow> firmware \<Rightarrow> firmware \<Rightarrow> bool" where
  "rx_effect b s s' \<longleftrightarrow>
     rx_inv s' \<and> rx_abs s' = proto_next b (rx_abs s) \<and>
     written (io_log s') = written (io_log s) @ map (Pair UDR1) (proto_answer b (rx_abs s)) \<and>
     idleReport s' = idleReport s \<and> response_manager s' = response_manager s \<and>
     USB_DeviceState s' = USB_DeviceState s \<and>
     (if proto_accepts b (rx_abs s)
      then controllerReport s' = populate_report_from_serial (serialInput s) (controllerReport s) \<and>
           selectedReport s' = controllerReport_ptr \<and> millis s' = 0
      else controllerReport s' = controllerReport s \<and>
           selectedReport s' = selectedReport s \<and> millis s' = millis s)"

lemma u8_less_8: "(w :: u8) < 8 \<longleftrightarrow> unat w < 8"
  by (simp add: word_less_nat_alt)

lemma rx_fill:
  assumes "rx_inv s" "state s = SYNCED" "received_bytes (serialInput s) < 8"
    and "rx_byte E b s = Some s'"
  shows "rx_effect b s s'"
proof -
  let ?n = "unat (received_bytes (serialInput s))" and ?i = "input (serialInput s)"
  from assms(3) have n: "?n < 8" by (simp add: u8_less_8)
  then have n1: "unat (received_bytes (serialInput s) + 1) = Suc ?n"
    by (subst unat_add_lem [THEN iffD1]) auto
  from assms(1) have len: "length ?i = 8" by (simp add: rx_inv_def)
  from assms n show ?thesis
    by (auto simp: rx_effect_def rx_byte_def rx_synced_def rx_inv_def rx_abs_def Let_def n1 len
        take_Suc_conv_app_nth)
qed

lemma rx_check:
  assumes "rx_inv s" "state s = SYNCED" "\<not> received_bytes (serialInput s) < 8"
    and "rx_byte E b s = Some s'"
  shows "rx_effect b s s'"
proof -
  let ?si = "serialInput s"
  from assms(1,3) have n: "unat (received_bytes ?si) = 8" "length (input ?si) = 8"
    by (auto simp: rx_inv_def u8_less_8)
  with assms(1) have crc: "crc8_ccitt ?si = crc8_of (input ?si)" by (simp add: rx_inv_def)
  from assms(2) n have rx_abs: "rx_abs s = Synced (input ?si)" by (simp add: rx_abs_def)
  note def = rx_byte_def rx_synced_def Let_def
  consider (ack) "crc8_ccitt ?si = b" | (sync) "crc8_ccitt ?si \<noteq> b" "b = 0xFF"
    | (nack) "crc8_ccitt ?si \<noteq> b" "b \<noteq> 0xFF" by blast
  then show ?thesis
  proof cases
    case ack
    with assms(2-4) obtain t where t: "send_byte E 0x91 s = Some t"
      "s' = t\<lparr>controllerReport := populate_report_from_serial (serialInput t) (controllerReport t),
        selectedReport := controllerReport_ptr, millis := 0,
        serialInput := (serialInput t)\<lparr>received_bytes := 0, crc8_ccitt := 0\<rparr>\<rparr>"
      by (auto simp: def bind_eq_Some_conv split: if_splits)
        (erule send_byte_log, auto)+
    from t(1) obtain l where "t = s\<lparr>io_log := l\<rparr>" "written l = written (io_log s) @ [(UDR1, 0x91)]"
      by (rule send_byte_log)
    with t(2) ack crc n assms(2) show ?thesis
      by (auto simp: rx_effect_def rx_inv_def rx_abs rx_abs_def)
  next
    case sync
    with assms(2-4) obtain t where t: "send_byte E 0xFF (s\<lparr>state := SYNC_START\<rparr>) = Some t"
      "s' = t\<lparr>serialInput := (serialInput t)\<lparr>received_bytes := 0, crc8_ccitt := 0\<rparr>\<rparr>"
      by (auto simp: def bind_eq_Some_conv split: if_splits)
        (erule send_byte_log, auto)+
    from t(1) obtain l where "t = s\<lparr>state := SYNC_START, io_log := l\<rparr>"
      "written l = written (io_log s) @ [(UDR1, 0xFF)]"
      by (rule send_byte_log) auto
    with t(2) sync crc n assms(2) show ?thesis
      by (auto simp: rx_effect_def rx_inv_def rx_abs rx_abs_def)
  next
    case nack
    with assms(2-4) obtain t where t: "send_byte E 0x92 s = Some t"
      "s' = t\<lparr>serialInput := (serialInput t)\<lparr>received_bytes := 0, crc8_ccitt := 0\<rparr>\<rparr>"
      by (auto simp: def bind_eq_Some_conv split: if_splits)
    from t(1) obtain l where "t = s\<lparr>io_log := l\<rparr>" "written l = written (io_log s) @ [(UDR1, 0x92)]"
      by (rule send_byte_log)
    with t(2) nack crc n assms(2) show ?thesis
      by (auto simp: rx_effect_def rx_inv_def rx_abs rx_abs_def)
  qed
qed

lemma rx_handshake:
  assumes "rx_inv s" "state s \<noteq> SYNCED" "rx_byte E b s = Some s'"
  shows "rx_effect b s s'"
  using assms
  by (cases "state s")
    (auto simp: rx_byte_def bind_eq_Some_conv rx_effect_def rx_inv_def rx_abs_def split: if_splits
      elim!: send_byte_log)

lemma rx_byte_refines:
  "rx_inv s \<Longrightarrow> rx_byte E b s = Some s' \<Longrightarrow> rx_effect b s s'"
  using rx_fill rx_check rx_handshake by blast

section \<open>The receiver answers as long as the transmitter drains\<close>

text \<open>The hardware hypothesis: whenever the transmitter is polled, it becomes empty after some polls.\<close>

definition transmitter_drains :: "environment \<Rightarrow> bool" where
  "transmitter_drains E \<longleftrightarrow> (\<forall>l. \<exists>k. bit (reg_value E UCSR1A (polled E UCSR1A k l)) UDRE1)"

lemma send_byte_total: "transmitter_drains E \<Longrightarrow> \<exists>s'. send_byte E c s = Some s'"
  using send_byte_returns unfolding transmitter_drains_def by blast

lemma rx_byte_total:
  assumes "transmitter_drains E"
  shows "\<exists>s'. rx_byte E b s = Some s'"
proof -
  note send = send_byte_total [OF assms]
  have synced: "\<exists>t. rx_synced E b s = Some t"
    using send [of "response_value RESP_SYNC_START" "s\<lparr>state := SYNC_START\<rparr>"]
      send [of "response_value RESP_UPDATE_NACK" s] send [of "response_value RESP_UPDATE_ACK" s]
    by (auto simp: rx_synced_def Let_def)
  then have "\<exists>t. (case state s of SYNCED \<Rightarrow> rx_synced E b s
      | SYNC_START \<Rightarrow> if b = command_value COMMAND_SYNC_1
          then send_byte E (response_value RESP_SYNC_1) (s\<lparr>state := SYNC_1\<rparr>)
          else Some (s\<lparr>state := OUT_OF_SYNC\<rparr>)
      | SYNC_1 \<Rightarrow> if b = command_value COMMAND_SYNC_2
          then send_byte E (response_value RESP_SYNC_OK) (s\<lparr>state := SYNCED\<rparr>)
          else Some (s\<lparr>state := OUT_OF_SYNC\<rparr>)
      | OUT_OF_SYNC \<Rightarrow> Some s) = Some t"
    using send [of "response_value RESP_SYNC_1" "s\<lparr>state := SYNC_1\<rparr>"]
      send [of "response_value RESP_SYNC_OK" "s\<lparr>state := SYNCED\<rparr>"]
    by (cases "state s") auto
  then obtain t where t: "(case state s of SYNCED \<Rightarrow> rx_synced E b s
      | SYNC_START \<Rightarrow> if b = command_value COMMAND_SYNC_1
          then send_byte E (response_value RESP_SYNC_1) (s\<lparr>state := SYNC_1\<rparr>)
          else Some (s\<lparr>state := OUT_OF_SYNC\<rparr>)
      | SYNC_1 \<Rightarrow> if b = command_value COMMAND_SYNC_2
          then send_byte E (response_value RESP_SYNC_OK) (s\<lparr>state := SYNCED\<rparr>)
          else Some (s\<lparr>state := OUT_OF_SYNC\<rparr>)
      | OUT_OF_SYNC \<Rightarrow> Some s) = Some t" ..
  show ?thesis
    unfolding rx_byte_def t using send [of "response_value RESP_SYNC_START" "t\<lparr>state := SYNC_START\<rparr>"]
    by simp
qed

text \<open>A stream of received bytes.\<close>

fun rx_run :: "environment \<Rightarrow> bytes \<Rightarrow> firmware \<Rightarrow> firmware option" where
  "rx_run E [] s = Some s"
| "rx_run E (b # bs) s = Option.bind (rx_byte E b s) (rx_run E bs)"

fun answers :: "bytes \<Rightarrow> proto \<Rightarrow> bytes" where
  "answers [] q = []"
| "answers (b # bs) q = proto_answer b q @ answers bs (proto_next b q)"

lemma rx_run_refines:
  assumes "rx_inv s" "rx_run E bs s = Some s'"
  shows "rx_inv s' \<and> rx_abs s' = fold proto_next bs (rx_abs s) \<and>
    written (io_log s') = written (io_log s) @ map (Pair UDR1) (answers bs (rx_abs s))"
  using assms
proof (induction bs arbitrary: s)
  case (Cons b bs)
  then obtain t where "rx_byte E b s = Some t" "rx_run E bs t = Some s'"
    by (auto simp: bind_eq_Some_conv)
  with Cons.IH [of t] rx_byte_refines [of s E b t] Cons.prems(1) show ?case
    by (simp add: rx_effect_def)
qed simp

lemma rx_run_total: "transmitter_drains E \<Longrightarrow> \<exists>s'. rx_run E bs s = Some s'"
proof (induction bs arbitrary: s)
  case (Cons b bs)
  with rx_byte_total [of E b s] show ?case by (auto simp: bind_eq_Some_conv)
qed simp

section \<open>Resynchronisation\<close>

definition proto_wf :: "proto \<Rightarrow> bool" where
  "proto_wf q \<longleftrightarrow> (\<forall>p. q = Synced p \<longrightarrow> length p \<le> 8)"

lemma proto_wf_next: "proto_wf q \<Longrightarrow> proto_wf (proto_next b q)"
  by (cases q) (auto simp: proto_wf_def)

lemma proto_wf_abs: "rx_inv s \<Longrightarrow> proto_wf (rx_abs s)"
  by (auto simp: proto_wf_def rx_abs_def rx_inv_def split: State_t.splits)

lemma start_FF: "(proto_next 0xFF ^^ n) Start = Start"
  by (induction n) simp_all

lemma fill_FF:
  "n + length p \<le> 8 \<Longrightarrow> (proto_next 0xFF ^^ n) (Synced p) = Synced (p @ replicate n 0xFF)"
  by (induction n) (simp_all add: replicate_append_same)

lemma FF_split:
  assumes "length p \<le> 8" "8 - length p < n"
  shows "(proto_next 0xFF ^^ n) (Synced p) =
    (proto_next 0xFF ^^ (n - (9 - length p)))
      (if crc8_of (p @ replicate (8 - length p) 0xFF) = 0xFF then Synced [] else Start)"
proof -
  have n: "n = (n - (9 - length p)) + Suc (8 - length p)" using assms by simp
  have "(proto_next 0xFF ^^ Suc (8 - length p)) (Synced p) =
      (if crc8_of (p @ replicate (8 - length p) 0xFF) = 0xFF then Synced [] else Start)"
    using assms(1) by (simp add: fill_FF)
  then show ?thesis by (subst n) (simp only: funpow_add o_apply)
qed

text \<open>
  The checksum of eight bytes \<open>0xFF\<close> is not \<open>0xFF\<close>, so a start sequence at a
  packet boundary succeeds with nine bytes and from any state with eighteen.
\<close>

lemma crc_FF: "crc8_of (replicate 8 0xFF) \<noteq> 0xFF"
  by code_simp

lemma sync_9: "8 < n \<Longrightarrow> (proto_next 0xFF ^^ n) (Synced []) = Start"
  using FF_split [of "[]" n] crc_FF by (simp add: start_FF)

lemma sync_18:
  assumes "proto_wf q" "18 \<le> n"
  shows "(proto_next 0xFF ^^ n) q = Start"
proof (cases q)
  case (Synced p)
  with assms(1) have len: "length p \<le> 8" by (simp add: proto_wf_def)
  with assms(2) have "8 < n - (9 - length p)" by simp
  from sync_9 [OF this] show ?thesis
    using FF_split [of p n] Synced len assms(2) by (simp add: start_FF)
next
  have "(proto_next 0xFF ^^ n) r = (proto_next 0xFF ^^ (n - 1)) (proto_next 0xFF r)" for r
    using assms(2) funpow_swap1 [of "proto_next 0xFF" "n - 1" r]
    by (cases n) simp_all
  then show "q = Start \<Longrightarrow> ?thesis" "q = Step1 \<Longrightarrow> ?thesis" "q = Out \<Longrightarrow> ?thesis"
    by (simp_all add: start_FF)
qed

text \<open>
  Nine start bytes, which is what the client sends, fail exactly when they
  complete a packet whose checksum they match.
\<close>

definition swallowed :: "proto \<Rightarrow> bool" where
  "swallowed q \<longleftrightarrow> (\<exists>p. q = Synced p \<and> crc8_of (p @ replicate (8 - length p) 0xFF) = 0xFF)"

lemma sync_nine_iff:
  assumes "proto_wf q"
  shows "(proto_next 0xFF ^^ 9) q = Start \<longleftrightarrow> \<not> swallowed q"
proof (cases q)
  case (Synced p)
  with assms have len: "length p \<le> 8" by (simp add: proto_wf_def)
  then have "9 - (9 - length p) = length p" by simp
  then show ?thesis
    using FF_split [of p 9] Synced len fill_FF [of "length p" "[]"]
    by (simp add: swallowed_def start_FF)
next
  have "(proto_next 0xFF ^^ 9) r = (proto_next 0xFF ^^ 8) (proto_next 0xFF r)" for r
    using funpow_swap1 [of "proto_next 0xFF" 8 r] by (simp add: eval_nat_numeral)
  then show "q = Start \<Longrightarrow> ?thesis" "q = Step1 \<Longrightarrow> ?thesis" "q = Out \<Longrightarrow> ?thesis"
    by (simp_all add: start_FF swallowed_def)
qed

end
