(* ===== verification/Session.thy ===== *)
theory Session
  imports Receiver
begin

text \<open>
  Properties of a UART session: what the client's packets do to the controller
  report, which corruptions are rejected, how a lost session is restored, and the
  timing of the connection-loss mode.
\<close>

section \<open>The report of a packet\<close>

text \<open>The report depends on the seven data bytes only, not on the report it overwrites.\<close>

definition report_of_packet :: "bytes \<Rightarrow> USB_StandardReport_t" where
  "report_of_packet p =
     populate_report_from_serial \<lparr>input = p, crc8_ccitt = 0, received_bytes = 0\<rparr> zero_report"

lemma populate_report_of_packet:
  "populate_report_from_serial si r = report_of_packet (input si)"
  by (cases r; cases si) (simp add: report_of_packet_def populate_report_from_serial_def Let_def
      zero_report_def report_of_bytes_def)

lemma wf_report_of_packet [simp]: "wf_report (report_of_packet p)"
  by (simp add: wf_report_def report_of_packet_def populate_report_from_serial_def Let_def
      stick_bytes_def)

text \<open>Each button of the mask is one bit of the packet.\<close>

fun button_bit :: "JoystickButtons_t \<Rightarrow> nat" where
  "button_bit SWITCH_Y = 0"
| "button_bit SWITCH_B = 1"
| "button_bit SWITCH_A = 2"
| "button_bit SWITCH_X = 3"
| "button_bit SWITCH_L = 4"
| "button_bit SWITCH_R = 5"
| "button_bit SWITCH_ZL = 6"
| "button_bit SWITCH_ZR = 7"
| "button_bit SWITCH_MINUS = 8"
| "button_bit SWITCH_PLUS = 9"
| "button_bit SWITCH_LCLICK = 10"
| "button_bit SWITCH_RCLICK = 11"
| "button_bit SWITCH_HOME = 12"
| "button_bit SWITCH_CAPTURE = 13"

lemma button_value_exp: "button_value m = push_bit (button_bit m) 1"
  by (cases m) simp_all

lemma pressed_bit: "pressed w m \<longleftrightarrow> bit w (button_bit m)"
proof -
  let ?k = "button_bit m"
  have k: "?k < 16" by (cases m) simp_all
  have "w AND push_bit ?k 1 = push_bit ?k 1" if "bit w ?k"
    by (rule bit_word_eqI) (use that in \<open>unfold bit_and_iff bit_push_bit_iff bit_1_iff, auto\<close>)
  moreover have "bit w ?k" if "w AND push_bit ?k 1 = push_bit ?k 1"
    using arg_cong [OF that, of "\<lambda>x. bit x ?k"] k
    by (simp only: bit_and_iff bit_push_bit_iff bit_1_iff) simp
  ultimately show ?thesis by (auto simp only: pressed_def button_value_exp)
qed

text \<open>How the console unpacks a stick: two 12-bit values from three bytes.\<close>

definition stick_x :: "bytes \<Rightarrow> u16" where
  "stick_x a = ucast (a ! 0) OR push_bit 8 (ucast (a ! 1 AND 0x0F))"

definition stick_y :: "bytes \<Rightarrow> u16" where
  "stick_y a = ucast (drop_bit 4 (a ! 1)) OR push_bit 4 (ucast (a ! 2))"

lemma masks12:
  "(0xFF :: u16) = mask 8" "(0x0F :: u16) = mask 4" "(0xF00 :: u16) = push_bit 8 (mask 4)"
  "(0xFF0 :: u16) = push_bit 4 (mask 8)" "(0x0F :: u8) = mask 4"
  by (simp_all add: mask_eq_exp_minus_1)

lemma stick_roundtrip:
  assumes "x < 0x1000" "y < 0x1000"
  shows "stick_x (stick_bytes x y) = x" "stick_y (stick_bytes x y) = y"
proof -
  have hi: "n < 12" if "w < 0x1000" "bit w n" for w :: u16 and n
  proof -
    from that(1) have "take_bit 12 w = w"
      by (simp add: take_bit_eq_self_iff_drop_bit_eq_0 drop_bit_eq_div div_word_less)
    with that(2) show ?thesis by (metis bit_take_bit_iff)
  qed
  show "stick_x (stick_bytes x y) = x"
    unfolding stick_x_def stick_bytes_def masks12
    by (rule bit_word_eqI) (auto simp: bit_simps dest: hi [OF assms(1)])
  show "stick_y (stick_bytes x y) = y"
    unfolding stick_y_def stick_bytes_def masks12
    by (rule bit_word_eqI)
      (auto simp: bit_simps dest: hi [OF assms(2)], metis le_add_diff_inverse not_less)
qed

lemma stick_axis_value: "unat (stick_axis b) = 16 * unat b + 8"
proof -
  have "push_bit 4 (ucast b :: u16) AND 2 ^ 3 = 0"
    by (rule bit_word_eqI) (unfold bit_and_iff bit_push_bit_iff bit_exp_iff, auto)
  then have "stick_axis b = push_bit 4 (ucast b) + 0x08"
    by (simp add: stick_axis_def disjunctive_add_eq_or)
  then have "unat (stick_axis b) = (unat (ucast b :: u16) * 16 + 8) mod 65536"
    by (simp add: push_bit_eq_mult unat_word_ariths mod_simps)
  then show ?thesis using unat_u8 [of b] by (simp add: unsigned_ucast_eq take_bit_eq_mod)
qed

text \<open>
  How the console reads the eleven report bytes: byte and bit of every button
  and direction.
\<close>

fun console_bit :: "JoystickButtons_t \<Rightarrow> nat \<times> nat" where
  "console_bit SWITCH_Y = (1, 0)"
| "console_bit SWITCH_X = (1, 1)"
| "console_bit SWITCH_B = (1, 2)"
| "console_bit SWITCH_A = (1, 3)"
| "console_bit SWITCH_R = (1, 6)"
| "console_bit SWITCH_ZR = (1, 7)"
| "console_bit SWITCH_MINUS = (2, 0)"
| "console_bit SWITCH_PLUS = (2, 1)"
| "console_bit SWITCH_RCLICK = (2, 2)"
| "console_bit SWITCH_LCLICK = (2, 3)"
| "console_bit SWITCH_HOME = (2, 4)"
| "console_bit SWITCH_CAPTURE = (2, 5)"
| "console_bit SWITCH_L = (3, 6)"
| "console_bit SWITCH_ZL = (3, 7)"

definition console_pressed :: "bytes \<Rightarrow> JoystickButtons_t \<Rightarrow> bool" where
  "console_pressed rep m = (case console_bit m of (i, n) \<Rightarrow> bit (rep ! i) n)"

lemma console_pressed_packet:
  "console_pressed (report_bytes (report_of_packet p)) m \<longleftrightarrow>
   bit (join16 (p ! 0) (p ! 1)) (button_bit m)"
  by (cases m)
    (simp_all add: console_pressed_def report_bytes_def report_of_packet_def
      populate_report_from_serial_def Let_def bit_byte_of_bits pressed_bit)

lemma console_sticks_packet:
  fixes p :: bytes
  defines "rep \<equiv> report_bytes (report_of_packet p)"
  shows "stick_x (drop 4 rep) = stick_axis (p ! 3)" "stick_y (drop 4 rep) = stick_axis (p ! 4)"
    "stick_x (drop 7 rep) = stick_axis (p ! 5)" "stick_y (drop 7 rep) = stick_axis (p ! 6)"
proof -
  have small: "stick_axis b < 0x1000" for b
    using unat_u8 [of b] by (simp add: word_less_nat_alt stick_axis_value)
  have prefix: "stick_x (stick_bytes x y @ zs) = stick_x (stick_bytes x y)"
    "stick_y (stick_bytes x y @ zs) = stick_y (stick_bytes x y)" for x y zs
    by (simp_all add: stick_x_def stick_y_def stick_bytes_def)
  have "drop 4 rep = stick_bytes (stick_axis (p ! 3)) (stick_axis (p ! 4)) @
      stick_bytes (stick_axis (p ! 5)) (stick_axis (p ! 6)) @ [0]"
    by (simp add: rep_def report_bytes_def report_of_packet_def populate_report_from_serial_def Let_def)
  moreover from this have "drop 7 rep = stick_bytes (stick_axis (p ! 5)) (stick_axis (p ! 6)) @ [0]"
    using drop_drop [of 3 4 rep] by (simp add: stick_bytes_def)
  ultimately show "stick_x (drop 4 rep) = stick_axis (p ! 3)" "stick_y (drop 4 rep) = stick_axis (p ! 4)"
    "stick_x (drop 7 rep) = stick_axis (p ! 5)" "stick_y (drop 7 rep) = stick_axis (p ! 6)"
    by (simp_all add: prefix stick_roundtrip small)
qed

text \<open>The directions of a hat value, clockwise from the top, and none for the centre or invalid values.\<close>

definition hat_directions :: "u8 \<Rightarrow> (bool \<times> bool) \<times> bool \<times> bool" where
  "hat_directions d = ((d \<in> {0, 1, 7}, d \<in> {3, 4, 5}), (d \<in> {5, 6, 7}, d \<in> {1, 2, 3}))"

lemma dpad_packet:
  "((dpad_up (report_of_packet p), dpad_down (report_of_packet p)),
    (dpad_left (report_of_packet p), dpad_right (report_of_packet p))) = hat_directions (p ! 2)"
  by (simp add: report_of_packet_def populate_report_from_serial_def Let_def hat_directions_def)

lemma hat_exclusive:
  assumes "hat_directions d = ((up, down), (left, right))"
  shows "\<not> (up \<and> down)" "\<not> (left \<and> right)"
proof -
  from assms have "up = (d \<in> {0, 1, 7})" "down = (d \<in> {3, 4, 5})" "left = (d \<in> {5, 6, 7})"
    "right = (d \<in> {1, 2, 3})" by (simp_all only: hat_directions_def prod.inject)
  moreover have "{0, 1, 7} \<inter> {3, 4, 5} = ({} :: u8 set)" "{5, 6, 7} \<inter> {1, 2, 3} = ({} :: u8 set)"
    by simp_all
  ultimately show "\<not> (up \<and> down)" "\<not> (left \<and> right)" by blast+
qed

section \<open>Packets\<close>

lemma fill_packet:
  "length p + length q \<le> 8 \<Longrightarrow> fold proto_next q (Synced p) = Synced (p @ q)"
  by (induction q arbitrary: p) simp_all

lemma fill_answers: "length p + length q \<le> 8 \<Longrightarrow> answers q (Synced p) = []"
  by (induction q arbitrary: p) simp_all

lemma answers_append: "answers (xs @ ys) q = answers xs q @ answers ys (fold proto_next xs q)"
  by (induction xs arbitrary: q) simp_all

lemma rx_run_append:
  "rx_run E (xs @ ys) s = Option.bind (rx_run E xs s) (rx_run E ys)"
proof (induction xs arbitrary: s)
  case (Cons b xs)
  then show ?case by (cases "rx_byte E b s") simp_all
qed simp

text \<open>While a packet is being collected nothing but the packet buffer changes.\<close>

lemma collect:
  assumes "rx_inv s" "rx_abs s = Synced p" "length p + length q \<le> 8" "rx_run E q s = Some t"
  shows "rx_inv t \<and> rx_abs t = Synced (p @ q) \<and> io_log t = io_log s \<and>
    controllerReport t = controllerReport s \<and> idleReport t = idleReport s \<and>
    selectedReport t = selectedReport s \<and> millis t = millis s"
  using assms
proof (induction q arbitrary: p s)
  case (Cons b q)
  then obtain u where u: "rx_byte E b s = Some u" "rx_run E q u = Some t"
    by (auto simp: bind_eq_Some_conv)
  from Cons.prems(2) have st: "state s = SYNCED"
    by (auto simp: rx_abs_def split: State_t.splits)
  from Cons.prems(1-3) st have len: "unat (received_bytes (serialInput s)) < 8"
    by (auto simp: rx_abs_def rx_inv_def)
  have "rx_effect b s u" using rx_byte_refines Cons.prems(1) u(1) by blast
  with Cons.prems(2,3) have *: "rx_inv u" "rx_abs u = Synced (p @ [b])"
    "controllerReport u = controllerReport s" "idleReport u = idleReport s"
    "selectedReport u = selectedReport s" "millis u = millis s"
    by (auto simp: rx_effect_def)
  from u(1) st len have "io_log u = io_log s"
    by (auto simp: rx_byte_def rx_synced_def u8_less_8 Let_def)
  with Cons.IH [OF *(1,2) _ u(2)] Cons.prems(3) * show ?case by simp
qed simp

lemma packet_step:
  assumes "rx_inv s" "rx_abs s = Synced []" "length p = 8" "rx_run E (p @ [b]) s = Some s'"
  obtains t where "rx_inv t" "rx_abs t = Synced p" "io_log t = io_log s" "rx_effect b t s'"
    "controllerReport t = controllerReport s" "idleReport t = idleReport s"
    "selectedReport t = selectedReport s" "millis t = millis s" "input (serialInput t) = p"
proof -
  from assms(4) obtain t where t: "rx_run E p s = Some t" "rx_byte E b t = Some s'"
    by (auto simp: rx_run_append bind_eq_Some_conv)
  from collect [OF assms(1,2) _ t(1)] assms(3) have *: "rx_inv t" "rx_abs t = Synced p"
    "io_log t = io_log s" "controllerReport t = controllerReport s" "idleReport t = idleReport s"
    "selectedReport t = selectedReport s" "millis t = millis s" by auto
  moreover have "rx_effect b t s'" using rx_byte_refines * t(2) by blast
  moreover have "input (serialInput t) = p"
    using *(1,2) assms(3) by (auto simp: rx_abs_def rx_inv_def split: State_t.splits)
  ultimately show thesis using that by blast
qed

lemma packet_accepted:
  assumes "rx_inv s" "rx_abs s = Synced []" "length p = 8" "rx_run E (p @ [crc8_of p]) s = Some s'"
  shows "rx_inv s' \<and> rx_abs s' = Synced [] \<and> controllerReport s' = report_of_packet p \<and>
    selectedReport s' = controllerReport_ptr \<and> millis s' = 0 \<and> idleReport s' = idleReport s \<and>
    written (io_log s') = written (io_log s) @ [(UDR1, 0x91)]"
proof -
  from packet_step [OF assms] obtain t where "rx_abs t = Synced p" "io_log t = io_log s"
    "rx_effect (crc8_of p) t s'" "idleReport t = idleReport s" "input (serialInput t) = p" .
  with assms(3) show ?thesis by (simp add: rx_effect_def populate_report_of_packet)
qed

lemma packet_rejected:
  assumes "rx_inv s" "rx_abs s = Synced []" "length p = 8" "b \<noteq> crc8_of p"
    and "rx_run E (p @ [b]) s = Some s'"
  shows "rx_inv s' \<and> rx_abs s' = (if b = 0xFF then Start else Synced []) \<and>
    controllerReport s' = controllerReport s \<and> selectedReport s' = selectedReport s \<and>
    millis s' = millis s \<and> idleReport s' = idleReport s \<and>
    written (io_log s') = written (io_log s) @ [(UDR1, if b = 0xFF then 0xFF else 0x92)]"
proof -
  from packet_step [OF assms(1-3,5)] obtain t where "rx_abs t = Synced p" "io_log t = io_log s"
    "rx_effect b t s'" "idleReport t = idleReport s" "controllerReport t = controllerReport s"
    "selectedReport t = selectedReport s" "millis t = millis s" .
  with assms(3,4) show ?thesis by (simp add: rx_effect_def)
qed

text \<open>Hamming distance of two packets; corrupting up to three bits breaks the checksum.\<close>

definition distance :: "bytes \<Rightarrow> bytes \<Rightarrow> nat" where
  "distance p q = weight (xor_bytes p q)"

lemma corruption_detected:
  assumes "length p = 8" "length q = 8" "distance (p @ [crc8_of p]) (q @ [b]) \<in> {1, 2, 3}"
  shows "b \<noteq> crc8_of q"
proof
  assume "b = crc8_of q"
  then have "crc8_of (p @ [crc8_of p]) = 0" "crc8_of (q @ [b]) = 0"
    by (simp_all only: crc8_of_valid)
  then have "crc8_of (xor_bytes (p @ [crc8_of p]) (q @ [b])) = 0"
    using assms(1,2) by (subst crc8_of_xor) simp_all
  moreover have "length (xor_bytes (p @ [crc8_of p]) (q @ [b])) = 9"
    using assms(1,2) by (simp add: xor_bytes_def)
  ultimately show False using crc8_detects [of "xor_bytes (p @ [crc8_of p]) (q @ [b])"] assms(3)
    by (simp add: distance_def)
qed

section \<open>Choosing the report\<close>

lemma more_fields:
  assumes "io_st.more s' = io_st.more (s :: firmware)"
  shows "state s' = state s" "millis s' = millis s" "idleReport s' = idleReport s"
    "controllerReport s' = controllerReport s" "serialInput s' = serialInput s"
    "selectedReport s' = selectedReport s" "response_manager s' = response_manager s"
    "USB_DeviceState s' = USB_DeviceState s"
proof -
  obtain l where "s' = s\<lparr>io_log := l\<rparr>" using log_update [OF assms] by blast
  then show "state s' = state s" "millis s' = millis s" "idleReport s' = idleReport s"
    "controllerReport s' = controllerReport s" "serialInput s' = serialInput s"
    "selectedReport s' = selectedReport s" "response_manager s' = response_manager s"
    "USB_DeviceState s' = USB_DeviceState s"
    by simp_all
qed

lemmas hardware_fields =
  more_fields [OF more_LEDs_SetAllLEDs] more_fields [OF more_disable_rx_isr]
  more_fields [OF more_enable_rx_isr]

text \<open>The timer saturates at one second, and each regime selects its report.\<close>

definition next_millis :: "u16 \<Rightarrow> u16" where
  "next_millis m = (if m < 1000 then m + 8 else m)"

lemma beforeSend_synced_eq:
  assumes "state s = SYNCED"
  shows "\<exists>l. run_beforeSend E s =
    (if millis s < 120 then s\<lparr>selectedReport := controllerReport_ptr\<rparr>
     else s\<lparr>idleReport := (idleReport s)\<lparr>button_home := 800 \<le> millis s \<and> millis s < 1000\<rparr>,
            selectedReport := idleReport_ptr\<rparr>)
    \<lparr>millis := next_millis (millis s), io_log := l\<rparr>"
proof -
  have small: "millis s < 1000" if "millis s < 120" using that by (simp add: word_less_nat_alt)
  obtain l where l: "disable_rx_isr E s = s\<lparr>io_log := l\<rparr>"
    using log_update [OF more_disable_rx_isr] by blast
  have leds: "\<exists>k. LEDs_SetAllLEDs E m u = u\<lparr>io_log := k\<rparr>" for m and u :: firmware
    using log_update [OF more_LEDs_SetAllLEDs] by blast
  have en: "\<exists>k. enable_rx_isr E u = u\<lparr>io_log := k\<rparr>" for u :: firmware
    using log_update [OF more_enable_rx_isr] by blast
  let ?s = "s\<lparr>io_log := l\<rparr>"
  consider (active) "millis s < 120" | (home) "\<not> millis s < 120" "800 \<le> millis s" "millis s < 1000"
    | (empty) "\<not> millis s < 120" "\<not> (800 \<le> millis s \<and> millis s < 1000)" by blast
  then have "\<exists>l. beforeSend_synced E ?s =
      (if millis s < 120 then s\<lparr>io_log := l, selectedReport := controllerReport_ptr\<rparr>
       else s\<lparr>io_log := l,
              idleReport := (idleReport s)\<lparr>button_home := 800 \<le> millis s \<and> millis s < 1000\<rparr>,
              selectedReport := idleReport_ptr\<rparr>)
      \<lparr>millis := next_millis (millis s)\<rparr>"
  proof cases
    case active
    with leds [of "0x30" ?s] small show ?thesis
      by (auto simp: beforeSend_synced_def next_millis_def)
  next
    case home
    with leds [of "0x10" ?s] show ?thesis
      by (auto simp: beforeSend_synced_def next_millis_def)
  next
    case empty
    with leds [of "0x20" ?s] show ?thesis
      by (auto simp: beforeSend_synced_def next_millis_def)
  qed
  then obtain k where k: "beforeSend_synced E ?s =
      (if millis s < 120 then s\<lparr>io_log := k, selectedReport := controllerReport_ptr\<rparr>
       else s\<lparr>io_log := k,
              idleReport := (idleReport s)\<lparr>button_home := 800 \<le> millis s \<and> millis s < 1000\<rparr>,
              selectedReport := idleReport_ptr\<rparr>)
      \<lparr>millis := next_millis (millis s)\<rparr>" ..
  with l assms en [of "beforeSend_synced E ?s"] show ?thesis
    by (auto simp: run_beforeSend_def Let_def)
qed

lemma beforeSend_synced_fields:
  assumes "state s = SYNCED"
  shows "state (run_beforeSend E s) = SYNCED"
    "millis (run_beforeSend E s) = next_millis (millis s)"
    "controllerReport (run_beforeSend E s) = controllerReport s"
    "serialInput (run_beforeSend E s) = serialInput s"
    "response_manager (run_beforeSend E s) = response_manager s"
    "selectedReport (run_beforeSend E s) =
       (if millis s < 120 then controllerReport_ptr else idleReport_ptr)"
    "idleReport (run_beforeSend E s) =
       (if millis s < 120 then idleReport s
        else (idleReport s)\<lparr>button_home := 800 \<le> millis s \<and> millis s < 1000\<rparr>)"
proof -
  obtain l where "run_beforeSend E s =
    (if millis s < 120 then s\<lparr>selectedReport := controllerReport_ptr\<rparr>
     else s\<lparr>idleReport := (idleReport s)\<lparr>button_home := 800 \<le> millis s \<and> millis s < 1000\<rparr>,
            selectedReport := idleReport_ptr\<rparr>)
    \<lparr>millis := next_millis (millis s), io_log := l\<rparr>"
    using beforeSend_synced_eq [OF assms, of E] ..
  with assms show "state (run_beforeSend E s) = SYNCED"
    "millis (run_beforeSend E s) = next_millis (millis s)"
    "controllerReport (run_beforeSend E s) = controllerReport s"
    "serialInput (run_beforeSend E s) = serialInput s"
    "response_manager (run_beforeSend E s) = response_manager s"
    "selectedReport (run_beforeSend E s) =
       (if millis s < 120 then controllerReport_ptr else idleReport_ptr)"
    "idleReport (run_beforeSend E s) =
       (if millis s < 120 then idleReport s
        else (idleReport s)\<lparr>button_home := 800 \<le> millis s \<and> millis s < 1000\<rparr>)"
    by (simp_all split: if_split)
qed

lemma beforeSend_unsynced_fields:
  assumes "state s \<noteq> SYNCED"
  shows "state (run_beforeSend E s) = state s" "millis (run_beforeSend E s) = millis s"
    "controllerReport (run_beforeSend E s) = controllerReport s"
    "serialInput (run_beforeSend E s) = serialInput s"
    "response_manager (run_beforeSend E s) = response_manager s"
    "selectedReport (run_beforeSend E s) = idleReport_ptr"
    "idleReport (run_beforeSend E s) = (idleReport s)\<lparr>button_home := False\<rparr>"
  using assms by (auto simp: run_beforeSend_def Let_def hardware_fields)

lemmas beforeSend_fields = beforeSend_synced_fields beforeSend_unsynced_fields

text \<open>The timer after \<open>n\<close> transmissions, starting from an accepted packet.\<close>

lemma next_millis_min:
  "next_millis (of_nat (min (8 * n) 1000)) = of_nat (min (8 * Suc n) 1000)"
proof -
  have "(of_nat (min (8 * n) 1000) :: u16) < 1000 \<longleftrightarrow> n < 125"
    by (auto simp: word_less_nat_alt unat_of_nat)
  then show ?thesis
    by (cases "n < 125") (auto simp: next_millis_def min_def)
qed

lemma beforeSend_iter:
  assumes "state s = SYNCED" "millis s = 0"
  shows "state ((run_beforeSend E ^^ n) s) = SYNCED \<and>
    millis ((run_beforeSend E ^^ n) s) = of_nat (min (8 * n) 1000) \<and>
    controllerReport ((run_beforeSend E ^^ n) s) = controllerReport s \<and>
    (\<exists>h. idleReport ((run_beforeSend E ^^ n) s) = (idleReport s)\<lparr>button_home := h\<rparr>)"
proof (induction n)
  case 0
  show ?case
    by (intro conjI exI [of _ "button_home (idleReport s)"]) (simp_all add: assms)
next
  case (Suc n)
  then show ?case
    by (auto simp: beforeSend_synced_fields next_millis_min)
qed

lemma timeline:
  assumes "state s = SYNCED" "millis s = 0"
  shows "selected_report ((run_beforeSend E ^^ Suc n) s) =
    (if n < 15 then controllerReport s
     else (idleReport s)\<lparr>button_home := 100 \<le> n \<and> n < 125\<rparr>)"
proof -
  let ?t = "(run_beforeSend E ^^ n) s"
  from beforeSend_iter [OF assms, of n E] obtain h where t: "state ?t = SYNCED"
    "millis ?t = of_nat (min (8 * n) 1000)" "controllerReport ?t = controllerReport s"
    "idleReport ?t = (idleReport s)\<lparr>button_home := h\<rparr>" by auto
  have m: "unat (millis ?t) = min (8 * n) 1000" by (simp add: t(2) unat_of_nat min_def)
  have "millis ?t < 120 \<longleftrightarrow> n < 15" "800 \<le> millis ?t \<longleftrightarrow> 100 \<le> n" "millis ?t < 1000 \<longleftrightarrow> n < 125"
    by (auto simp: word_less_nat_alt word_le_nat_alt m)
  with t show ?thesis
    by (simp add: selected_report_def beforeSend_synced_fields del: min_less_iff_conj)
qed

section \<open>Concrete states for examples\<close>

text \<open>Hardware whose status registers are always ready.\<close>

definition ready_environment :: environment where
  "ready_environment = \<lparr>reg_value = \<lambda>_ _. 0xFF, frame_number = \<lambda>_. 0, isr_state = \<lambda>_. None,
     data_mem = \<lambda>_. 0, signature_byte = \<lambda>_. 0\<rparr>"

lemma ready_environment_drains [simp]: "transmitter_drains ready_environment"
  unfolding transmitter_drains_def by (intro allI exI [of _ 0]) (simp add: ready_environment_def)

definition example_firmware :: "State_t \<Rightarrow> firmware" where
  "example_firmware st =
     \<lparr>io_log = [], USB_DeviceState = DEVICE_STATE_Configured,
      USB_ControlRequest = \<lparr>bmRequestType = 0, bRequest = 0, wValue = 0, wIndex = 0, wLength = 0\<rparr>,
      USB_Device_ConfigurationNumber = 1, USB_Device_CurrentlySelfPowered = False,
      USB_Device_RemoteWakeupEnabled = False, USB_IsInitialized = True,
      serialInput = \<lparr>input = replicate 8 0, crc8_ccitt = 0, received_bytes = 0\<rparr>,
      controllerReport = initialize_idle_report zero_report,
      idleReport = initialize_idle_report zero_report,
      selectedReport = idleReport_ptr, state = st, millis = 0, response_manager = response_init\<rparr>"

lemma example_firmware_simps [simp]:
  "rx_inv (example_firmware st)" "state (example_firmware st) = st" "millis (example_firmware st) = 0"
  "rx_abs (example_firmware SYNCED) = Synced []" "rx_abs (example_firmware OUT_OF_SYNC) = Out"
  "rx_abs (example_firmware SYNC_1) = Step1" "io_log (example_firmware st) = []"
  by (simp_all add: example_firmware_def rx_inv_def rx_abs_def)

section \<open>Properties\<close>

text \<open>
  C16. The receive interrupt implements the synchronisation protocol. For every
  byte and every state in which the buffer invariant holds, the handler returns
  (the transmitter drains), keeps the invariant, moves the abstract receiver as
  the protocol says, sends exactly the prescribed answer, and changes the
  controller report, the selection and the timer only when a packet is accepted.
\<close>

theorem rx_byte_correct:
  assumes "transmitter_drains E" "rx_inv s"
  shows "\<exists>s'. rx_byte E b s = Some s' \<and> rx_effect b s s'"
  using rx_byte_total [OF assms(1), of b s] rx_byte_refines [OF assms(2)] by blast

theorem rx_byte_correct_witness:
  "\<exists>s'. rx_byte ready_environment 0xCC (example_firmware SYNC_1) = Some s' \<and>
     rx_abs s' = Synced [] \<and> written (io_log s') = [(UDR1, 0x33)]"
  using rx_byte_correct [of ready_environment "example_firmware SYNC_1" "0xCC"]
  by (auto simp: rx_effect_def)

text \<open>
  C17. Resynchronisation from any state: eighteen or more start bytes followed by
  the two handshake bytes always end in the synchronised state at a packet
  boundary, whatever was received before; the last two answers confirm it.
\<close>

theorem resync:
  assumes "transmitter_drains E" "rx_inv s" "18 \<le> n"
  shows "\<exists>s'. rx_run E (replicate n 0xFF @ [0x33, 0xCC]) s = Some s' \<and> rx_inv s' \<and>
    rx_abs s' = Synced [] \<and>
    (\<exists>w. written (io_log s') = w @ [(UDR1, 0xCC), (UDR1, 0x33)])"
proof -
  obtain s' where s': "rx_run E (replicate n 0xFF @ [0x33, 0xCC]) s = Some s'"
    using rx_run_total [OF assms(1)] by blast
  with rx_run_refines [OF assms(2) s'] sync_18 [OF proto_wf_abs [OF assms(2)] assms(3)]
  show ?thesis by (auto simp: answers_append)
qed

theorem resync_witness:
  "\<exists>s'. rx_run ready_environment (replicate 18 0xFF @ [0x33, 0xCC]) (example_firmware SYNCED) = Some s' \<and>
     rx_abs s' = Synced []"
  using resync [of ready_environment "example_firmware SYNCED" 18] by auto



text \<open>
  End to end over the wire: a packet written by the client (eight bytes and
  its \<open>crc8\<close>) to a synchronised receiver at a packet boundary is acknowledged,
  becomes the controller report, is selected, and restarts the timer.
\<close>

theorem client_packet_accepted:
  assumes "transmitter_drains E" "rx_inv s" "rx_abs s = Synced []" "length p = 8"
  shows "\<exists>s'. rx_run E (map word_of_int (UART_write (map uint p))) s = Some s' \<and>
    rx_inv s' \<and> rx_abs s' = Synced [] \<and> controllerReport s' = report_of_packet p \<and>
    selected_report s' = report_of_packet p \<and> millis s' = 0 \<and> idleReport s' = idleReport s \<and>
    written (io_log s') = written (io_log s) @ [(UDR1, response_value RESP_UPDATE_ACK)]"
proof -
  have wire: "map word_of_int (UART_write (map uint p)) = p @ [crc8_of p]"
    by (simp add: UART_write_def crc8_uint o_def)
  obtain s' where s': "rx_run E (p @ [crc8_of p]) s = Some s'"
    using rx_run_total [OF assms(1)] by blast
  from packet_accepted [OF assms(2-4) s'] s' show ?thesis
    by (simp add: wire selected_report_def)
qed

theorem client_packet_accepted_witness:
  "\<exists>s'. rx_run ready_environment (map word_of_int (UART_write (map uint (replicate 8 0x80 :: bytes))))
       (example_firmware SYNCED) = Some s' \<and> selected_report s' = report_of_packet (replicate 8 0x80)"
  using client_packet_accepted [of ready_environment "example_firmware SYNCED" "replicate 8 0x80"]
  by auto

text \<open>
  C19. Corruption is rejected: if the nine received bytes differ from a valid
  packet in one, two or three bits, the packet is not acknowledged and neither
  the report nor the selection nor the timer changes; the receiver answers with
  a negative acknowledgement, or starts to resynchronise on \<open>0xFF\<close>.
\<close>

theorem corrupted_packet_rejected:
  assumes "transmitter_drains E" "rx_inv s" "rx_abs s = Synced []" "length p = 8" "length q = 8"
    and "distance (p @ [crc8_of p]) (q @ [b]) \<in> {1, 2, 3}"
  shows "\<exists>s'. rx_run E (q @ [b]) s = Some s' \<and> rx_inv s' \<and>
    rx_abs s' = (if b = 0xFF then Start else Synced []) \<and>
    controllerReport s' = controllerReport s \<and> selectedReport s' = selectedReport s \<and>
    millis s' = millis s \<and> idleReport s' = idleReport s \<and>
    written (io_log s') = written (io_log s) @ [(UDR1, if b = 0xFF then 0xFF else 0x92)]"
proof -
  obtain s' where s': "rx_run E (q @ [b]) s = Some s'"
    using rx_run_total [OF assms(1)] by blast
  with packet_rejected [OF assms(2,3,5) corruption_detected [OF assms(4-6)] s'] show ?thesis
    by blast
qed

theorem corrupted_packet_rejected_witness:
  "\<exists>s'. rx_run ready_environment (replicate 8 0 @ [0x07]) (example_firmware SYNCED) = Some s' \<and>
     written (io_log s') = [(UDR1, 0x92)]"
proof -
  have "distance (replicate 8 0 @ [crc8_of (replicate 8 0)]) (replicate 8 0 @ [0x07]) = 3"
    by code_simp
  with corrupted_packet_rejected [of ready_environment "example_firmware SYNCED" "replicate 8 0"
      "replicate 8 0" "0x07"]
  show ?thesis by auto
qed

text \<open>
  C20. Connection loss, transmission by transmission. After an accepted packet and
  without a further one, the first 15 reports carry the controller state, the
  next 85 the idle state, the next 25 (200 ms at 8 ms per report) the idle state
  with HOME pressed, and all later ones the idle state again.
\<close>

theorem connection_loss_timeline:
  assumes "state s = SYNCED" "millis s = 0"
  shows "selected_report ((run_beforeSend E ^^ Suc n) s) =
    (if n < 15 then controllerReport s
     else (idleReport s)\<lparr>button_home := 100 \<le> n \<and> n < 125\<rparr>)"
  using assms by (rule timeline)

theorem connection_loss_timeline_witness:
  "button_home (selected_report
     ((run_beforeSend ready_environment ^^ Suc 100) (example_firmware SYNCED)))"
  using connection_loss_timeline [of "example_firmware SYNCED" 100 ready_environment] by simp

text \<open>
  What the console sees of a packet: every button bit of the report is the
  corresponding bit of the packet's 16-bit mask, and the four 12-bit axes are
  the packet's four bytes scaled by 16 and centred.
\<close>

theorem packet_report_contents:
  "console_pressed (report_bytes (report_of_packet p)) m = bit (join16 (p ! 0) (p ! 1)) (button_bit m) \<and>
   unat (stick_x (drop 4 (report_bytes (report_of_packet p)))) = 16 * unat (p ! 3) + 8 \<and>
   unat (stick_y (drop 4 (report_bytes (report_of_packet p)))) = 16 * unat (p ! 4) + 8 \<and>
   unat (stick_x (drop 7 (report_bytes (report_of_packet p)))) = 16 * unat (p ! 5) + 8 \<and>
   unat (stick_y (drop 7 (report_bytes (report_of_packet p)))) = 16 * unat (p ! 6) + 8"
  by (simp add: console_pressed_packet console_sticks_packet stick_axis_value)

text \<open>
  The direction pad: the four direction bits are those of the hat value,
  invalid values release the pad, and opposite directions are never pressed
  together.
\<close>

theorem packet_dpad:
  "((dpad_up (report_of_packet p), dpad_down (report_of_packet p)),
    (dpad_left (report_of_packet p), dpad_right (report_of_packet p))) = hat_directions (p ! 2) \<and>
   \<not> (dpad_up (report_of_packet p) \<and> dpad_down (report_of_packet p)) \<and>
   \<not> (dpad_left (report_of_packet p) \<and> dpad_right (report_of_packet p))"
  using dpad_packet [of p] hat_exclusive [OF dpad_packet [of p, symmetric]] by simp

end
