(* ===== verification/ControlStream.thy ===== *)
theory ControlStream
  imports Endpoint Loops
begin

text \<open>
  Transfers on the control endpoint (\<open>Template_Endpoint_Control_W.c\<close>,
  \<open>Template_Endpoint_Control_R.c\<close>, instantiated in \<open>EndpointStream_AVR8.c\<close>).
  The byte counters are 16 bits wide in the source; their loops keep them below
  the requested length and the endpoint size, so they are natural numbers here.
  \<open>i\<close> counts the bytes transferred so far: the byte accessed is \<open>i\<close> for the
  little-endian instances and counts down from the end for the others.
\<close>

datatype rwcstream =
    ENDPOINT_RWCSTREAM_NoError | ENDPOINT_RWCSTREAM_HostAborted
  | ENDPOINT_RWCSTREAM_DeviceDisconnected | ENDPOINT_RWCSTREAM_BusSuspended

section \<open>Writing\<close>

text \<open>The inner loop, which fills the bank up to the size of the endpoint.\<close>

fun control_fill ::
  "(nat \<Rightarrow> fault + u8) \<Rightarrow> nat \<Rightarrow> nat \<Rightarrow> nat \<Rightarrow> 'a usb_scheme \<Rightarrow>
   fault + nat \<times> nat \<times> nat \<times> 'a usb_scheme" where
  "control_fill rdb i 0 BytesInEndpoint s = Inr (i, 0, BytesInEndpoint, s)"
| "control_fill rdb i (Suc Length) BytesInEndpoint s =
     (if BytesInEndpoint < FIXED_CONTROL_ENDPOINT_SIZE
      then fbind (rdb i) (\<lambda>b.
        control_fill rdb (Suc i) Length (Suc BytesInEndpoint) (Endpoint_Write_8 b s))
      else Inr (i, Suc Length, BytesInEndpoint, s))"

definition control_W_step ::
  "environment \<Rightarrow> (nat \<Rightarrow> fault + u8) \<Rightarrow> nat \<times> nat \<times> bool \<Rightarrow> 'a usb_scheme \<Rightarrow>
   ((rwcstream, nat \<times> nat \<times> bool) turn \<times> 'a usb_scheme) outcome" where
  "control_W_step E rdb = (\<lambda>(i, Length, LastPacketFull) s.
     if Length = 0 \<and> \<not> LastPacketFull then Some (Inr (Leave, s)) else
      let (LCL, s) = read_DeviceState E s in
      if LCL = DEVICE_STATE_Unattached
      then Some (Inr (Return ENDPOINT_RWCSTREAM_DeviceDisconnected, s))
      else if LCL = DEVICE_STATE_Suspended then Some (Inr (Return ENDPOINT_RWCSTREAM_BusSuspended, s))
      else
      let (setup, s) = Endpoint_IsSETUPReceived E s in
      if setup then Some (Inr (Return ENDPOINT_RWCSTREAM_HostAborted, s))
      else
      let (out, s) = Endpoint_IsOUTReceived E s in
      if out then Some (Inr (Leave, s))
      else
      let (ready, s) = Endpoint_IsINReady E s in
      if ready then
        let (bytes, s) = Endpoint_BytesInEndpoint E s in
        Some (fbind (control_fill rdb i Length (unat bytes) s) (\<lambda>(i, Length, BytesInEndpoint, s).
        Inr (Again (i, Length, BytesInEndpoint = FIXED_CONTROL_ENDPOINT_SIZE), Endpoint_ClearIN E s)))
      else Some (Inr (Again (i, Length, LastPacketFull), s)))"

text \<open>The second loop: the status stage of the host.\<close>

definition control_W_status_step ::
  "environment \<Rightarrow> unit \<Rightarrow> 'a usb_scheme \<Rightarrow> ((rwcstream, unit) turn \<times> 'a usb_scheme) outcome" where
  "control_W_status_step E u s =
     (let (out, s) = Endpoint_IsOUTReceived E s in
      if out then Some (Inr (Leave, s)) else
      let (LCL, s) = read_DeviceState E s in
      if LCL = DEVICE_STATE_Unattached
      then Some (Inr (Return ENDPOINT_RWCSTREAM_DeviceDisconnected, s))
      else if LCL = DEVICE_STATE_Suspended then Some (Inr (Return ENDPOINT_RWCSTREAM_BusSuspended, s))
      else
      let (setup, s) = Endpoint_IsSETUPReceived E s in
      Some (Inr (if setup then Return ENDPOINT_RWCSTREAM_HostAborted else Again (), s)))"

definition Template_Endpoint_Control_W ::
  "environment \<Rightarrow> (nat \<Rightarrow> fault + u8) \<Rightarrow> u16 \<Rightarrow> 'a usb_scheme \<Rightarrow> (rwcstream \<times> 'a usb_scheme) outcome" where
  "Template_Endpoint_Control_W E rdb Length s =
     (let (Length, s) =
        (if Length > wLength (USB_ControlRequest s) then (wLength (USB_ControlRequest s), s)
         else if Length = 0 then (Length, Endpoint_ClearIN E s)
         else (Length, s))
      in after_loop (turn_loop (control_W_step E rdb) (0, unat Length, False) s) (\<lambda>s.
         after_loop (turn_loop (control_W_status_step E) () s) (\<lambda>s.
         Some (Inr (ENDPOINT_RWCSTREAM_NoError, s)))))"

text \<open>
  The instances differ in the order of the bytes and in where the buffer is: RAM,
  flash (\<open>pgm_read_byte\<close>) or EEPROM (\<open>eeprom_read_byte\<close>), a byte array in each case.
\<close>

definition Endpoint_Write_Control_Stream_LE ::
  "environment \<Rightarrow> bytes \<Rightarrow> u16 \<Rightarrow> 'a usb_scheme \<Rightarrow> (rwcstream \<times> 'a usb_scheme) outcome" where
  "Endpoint_Write_Control_Stream_LE E Buffer Length =
     Template_Endpoint_Control_W E (load Buffer) Length"

definition Endpoint_Write_Control_Stream_BE ::
  "environment \<Rightarrow> bytes \<Rightarrow> u16 \<Rightarrow> 'a usb_scheme \<Rightarrow> (rwcstream \<times> 'a usb_scheme) outcome" where
  "Endpoint_Write_Control_Stream_BE E Buffer Length =
     Template_Endpoint_Control_W E (\<lambda>i. load Buffer (unat Length - 1 - i)) Length"

definition Endpoint_Write_Control_PStream_LE ::
  "environment \<Rightarrow> bytes \<Rightarrow> u16 \<Rightarrow> 'a usb_scheme \<Rightarrow> (rwcstream \<times> 'a usb_scheme) outcome" where
  "Endpoint_Write_Control_PStream_LE E Buffer Length =
     Template_Endpoint_Control_W E (load Buffer) Length"

definition Endpoint_Write_Control_PStream_BE ::
  "environment \<Rightarrow> bytes \<Rightarrow> u16 \<Rightarrow> 'a usb_scheme \<Rightarrow> (rwcstream \<times> 'a usb_scheme) outcome" where
  "Endpoint_Write_Control_PStream_BE E Buffer Length =
     Template_Endpoint_Control_W E (\<lambda>i. load Buffer (unat Length - 1 - i)) Length"

section \<open>Reading\<close>

text \<open>
  The inner loop reads while the bank holds bytes. The buffer being filled is
  part of the state of the loop.
\<close>

fun control_drain ::
  "environment \<Rightarrow> (nat \<Rightarrow> nat) \<Rightarrow> nat \<Rightarrow> nat \<Rightarrow> bytes \<Rightarrow> 'a usb_scheme \<Rightarrow>
   fault + nat \<times> nat \<times> bytes \<times> 'a usb_scheme" where
  "control_drain E pos i 0 buf s = Inr (i, 0, buf, s)"
| "control_drain E pos i (Suc Length) buf s =
     (let (n, s) = Endpoint_BytesInEndpoint E s in
      if n = 0 then Inr (i, Suc Length, buf, s)
      else let (b, s) = Endpoint_Read_8 E s in
        fbind (store buf (pos i) b) (\<lambda>buf. control_drain E pos (Suc i) Length buf s))"

definition control_R_step ::
  "environment \<Rightarrow> (nat \<Rightarrow> nat) \<Rightarrow> nat \<times> nat \<Rightarrow> bytes \<times> 'a usb_scheme \<Rightarrow>
   ((rwcstream, nat \<times> nat) turn \<times> bytes \<times> 'a usb_scheme) outcome" where
  "control_R_step E pos = (\<lambda>(i, Length) (buf, s).
     if Length = 0 then Some (Inr (Leave, buf, s)) else
      let (LCL, s) = read_DeviceState E s in
      if LCL = DEVICE_STATE_Unattached
      then Some (Inr (Return ENDPOINT_RWCSTREAM_DeviceDisconnected, buf, s))
      else if LCL = DEVICE_STATE_Suspended
      then Some (Inr (Return ENDPOINT_RWCSTREAM_BusSuspended, buf, s))
      else
      let (setup, s) = Endpoint_IsSETUPReceived E s in
      if setup then Some (Inr (Return ENDPOINT_RWCSTREAM_HostAborted, buf, s))
      else
      let (out, s) = Endpoint_IsOUTReceived E s in
      if out then
        Some (fbind (control_drain E pos i Length buf s) (\<lambda>(i, Length, buf, s).
        Inr (Again (i, Length), buf, Endpoint_ClearOUT E s)))
      else Some (Inr (Again (i, Length), buf, s)))"

definition control_R_status_step ::
  "environment \<Rightarrow> unit \<Rightarrow> bytes \<times> 'a usb_scheme \<Rightarrow>
   ((rwcstream, unit) turn \<times> bytes \<times> 'a usb_scheme) outcome" where
  "control_R_status_step E u = (\<lambda>(buf, s).
     let (ready, s) = Endpoint_IsINReady E s in
      if ready then Some (Inr (Leave, buf, s)) else
      let (LCL, s) = read_DeviceState E s in
      Some (Inr (if LCL = DEVICE_STATE_Unattached then Return ENDPOINT_RWCSTREAM_DeviceDisconnected
       else if LCL = DEVICE_STATE_Suspended then Return ENDPOINT_RWCSTREAM_BusSuspended
       else Again (), buf, s)))"

definition Template_Endpoint_Control_R ::
  "environment \<Rightarrow> (nat \<Rightarrow> nat) \<Rightarrow> bytes \<Rightarrow> u16 \<Rightarrow> 'a usb_scheme \<Rightarrow>
   (rwcstream \<times> bytes \<times> 'a usb_scheme) outcome" where
  "Template_Endpoint_Control_R E pos Buffer Length s =
     (let s = (if Length = 0 then Endpoint_ClearOUT E s else s)
      in after_loop (turn_loop (control_R_step E pos) (0, unat Length) (Buffer, s)) (\<lambda>bs.
         after_loop (turn_loop (control_R_status_step E) () bs) (\<lambda>bs.
         Some (Inr (ENDPOINT_RWCSTREAM_NoError, bs)))))"

definition Endpoint_Read_Control_Stream_LE ::
  "environment \<Rightarrow> bytes \<Rightarrow> u16 \<Rightarrow> 'a usb_scheme \<Rightarrow> (rwcstream \<times> bytes \<times> 'a usb_scheme) outcome" where
  "Endpoint_Read_Control_Stream_LE E Buffer Length =
     Template_Endpoint_Control_R E (\<lambda>i. i) Buffer Length"

definition Endpoint_Read_Control_Stream_BE ::
  "environment \<Rightarrow> bytes \<Rightarrow> u16 \<Rightarrow> 'a usb_scheme \<Rightarrow> (rwcstream \<times> bytes \<times> 'a usb_scheme) outcome" where
  "Endpoint_Read_Control_Stream_BE E Buffer Length =
     Template_Endpoint_Control_R E (\<lambda>i. unat Length - 1 - i) Buffer Length"

section \<open>What a control write sends\<close>

lemma control_fill_Inr:
  assumes "control_fill rdb i n B s = Inr (i', n', B', s')"
  shows "\<exists>k. i' = i + k \<and> n = n' + k \<and> B' = B + k \<and> same_usb s s' \<and>
    (\<exists>bs. map Inr bs = map rdb [i..<i + k] \<and>
      written_to UEDATX (io_log s') = written_to UEDATX (io_log s) @ bs) \<and>
    (B \<le> FIXED_CONTROL_ENDPOINT_SIZE \<longrightarrow> B' \<le> FIXED_CONTROL_ENDPOINT_SIZE \<and>
      (n' = 0 \<or> B' = FIXED_CONTROL_ENDPOINT_SIZE))"
  using assms
proof (induction rdb i n B s rule: control_fill.induct)
  case (1 rdb i B s)
  then show ?case by auto
next
  case (2 rdb i n B s)
  show ?case
  proof (cases "B < FIXED_CONTROL_ENDPOINT_SIZE")
    case True
    with 2(2) obtain b where b: "rdb i = Inr b"
      "control_fill rdb (Suc i) n (Suc B) (Endpoint_Write_8 b s) = Inr (i', n', B', s')"
      by (auto simp: fbind_eq_Inr)
    from 2(1) [OF True b(2)] obtain k bs where k: "i' = Suc i + k" "n = n' + k" "B' = Suc B + k"
      "same_usb (Endpoint_Write_8 b s) s'" "map Inr bs = map rdb [Suc i..<Suc i + k]"
      "written_to UEDATX (io_log s') = written_to UEDATX (io_log (Endpoint_Write_8 b s)) @ bs"
      "B' \<le> 32 \<and> (n' = 0 \<or> B' = 32)" using True by auto
    then have "map Inr (b # bs) = map rdb [i..<i + Suc k]"
      using b(1) by (simp add: upt_conv_Cons del: upt_Suc)
    moreover have "same_usb s s'" using k(4) by (simp add: same_usb_def Endpoint_Write_8_def)
    moreover have "written_to UEDATX (io_log s') = written_to UEDATX (io_log s) @ b # bs"
      using k(6) by (simp add: Endpoint_Write_8_def)
    ultimately show ?thesis
      using k(1-3,7) by (intro exI [of _ "Suc k"]) (auto intro!: exI [of _ "b # bs"])
  qed (use 2(2) in auto)
qed

text \<open>
  From state \<open>s\<close> to \<open>s'\<close> the bytes \<open>i\<close>, \<open>i + 1\<close>, \<dots>, \<open>i + k - 1\<close> were written to
  the data register, and nothing else of the USB state changed.
\<close>

definition sent :: "(nat \<Rightarrow> fault + u8) \<Rightarrow> nat \<Rightarrow> nat \<Rightarrow> 'a usb_scheme \<Rightarrow> 'a usb_scheme \<Rightarrow> bool" where
  "sent rdb i k s s' \<longleftrightarrow> same_usb s s' \<and>
     (\<exists>bs. map Inr bs = map rdb [i..<i + k] \<and>
       written_to UEDATX (io_log s') = written_to UEDATX (io_log s) @ bs)"

lemma sent_0 [simp]: "same_usb s s' \<Longrightarrow> written_to UEDATX (io_log s') = written_to UEDATX (io_log s) \<Longrightarrow>
   sent rdb i 0 s s'"
  by (simp add: sent_def)

lemma sent_trans:
  assumes "sent rdb i k s t" "sent rdb (i + k) m t u"
  shows "sent rdb i (k + m) s u"
proof -
  from assms(1) obtain bs where bs: "same_usb s t" "map Inr bs = map rdb [i..<i + k]"
    "written_to UEDATX (io_log t) = written_to UEDATX (io_log s) @ bs" by (auto simp: sent_def)
  from assms(2) obtain cs where cs: "same_usb t u" "map Inr cs = map rdb [i + k..<i + k + m]"
    "written_to UEDATX (io_log u) = written_to UEDATX (io_log t) @ cs" by (auto simp: sent_def)
  have "same_usb s u" using bs(1) cs(1) by (rule same_usb_trans)
  moreover have "map Inr (bs @ cs) = map rdb [i..<i + (k + m)]"
    using bs(2) cs(2) upt_add_eq_append [of i "i + k" m] by (simp add: add.assoc)
  moreover have "written_to UEDATX (io_log u) = written_to UEDATX (io_log s) @ bs @ cs"
    using bs(3) cs(3) by simp
  ultimately show ?thesis unfolding sent_def by blast
qed

lemma control_W_step_effect:
  assumes "control_W_step E rdb (i, n, full) s = Some (Inr (t, s'))"
  shows "case t of
      Return r \<Rightarrow> sent rdb i 0 s s'
    | Leave \<Rightarrow> sent rdb i 0 s s' \<and> (n = 0 \<or> (\<exists>v l. io_log s' = Rd UEINTX v # l \<and> bit v RXOUTI))
    | Again (i', n', full') \<Rightarrow> (\<exists>k. i' = i + k \<and> n = n' + k \<and> sent rdb i k s s')"
  using assms
  by (auto simp: control_W_step_def endpoint_simps split_def fbind_eq_Inr sent_def
      split: if_splits dest!: control_fill_Inr)
    (auto simp: same_usb_def)

text \<open>
  The data loop sends a prefix of the data, in order, and all of it unless the
  host ends the transfer.
\<close>

lemma control_W_loop_effect:
  assumes "turn_loop (control_W_step E rdb) (0, n, full) s = Some (Inr (r, s'))"
  shows "\<exists>k \<le> n. sent rdb 0 k s s' \<and>
    (r = None \<longrightarrow> k = n \<or> (\<exists>v l. io_log s' = Rd UEINTX v # l \<and> bit v RXOUTI))"
proof -
  let ?I = "\<lambda>(i, m, full) t. i + m = n \<and> sent rdb 0 i s t"
  let ?Q = "\<lambda>r t. \<exists>k \<le> n. sent rdb 0 k s t \<and>
    (r = None \<longrightarrow> k = n \<or> (\<exists>v l. io_log t = Rd UEINTX v # l \<and> bit v RXOUTI))"
  show ?thesis
  proof (rule turn_loop_inv [where I = ?I and Q = ?Q, OF assms])
    show "?I (0, n, full) s" by simp
  next
    fix c t d u
    assume I: "?I c t" and step: "control_W_step E rdb c t = Some (Inr (Again d, u))"
    obtain i m f i' m' f' where c: "c = (i, m, f)" "d = (i', m', f')" by (cases c, cases d) auto
    from control_W_step_effect [OF step [unfolded c]] obtain k where "i' = i + k" "m = m' + k"
      "sent rdb i k t u" by auto
    with I c sent_trans [of rdb 0 i s t k u] show "?I d u" by auto
  next
    fix c t r u
    assume I: "?I c t" and step: "control_W_step E rdb c t = Some (Inr (Return r, u))"
    obtain i m f where c: "c = (i, m, f)" by (cases c) auto
    from control_W_step_effect [OF step [unfolded c]] I c sent_trans [of rdb 0 i s t 0 u]
    show "?Q (Some r) u" by (intro exI [of _ i]) auto
  next
    fix c t u
    assume I: "?I c t" and step: "control_W_step E rdb c t = Some (Inr (Leave, u))"
    obtain i m f where c: "c = (i, m, f)" by (cases c) auto
    from control_W_step_effect [OF step [unfolded c]] I c sent_trans [of rdb 0 i s t 0 u]
    show "?Q None u" by (intro exI [of _ i]) auto
  qed
qed

lemma after_loop_Inr:
  "after_loop m f = Some (Inr (r, t)) \<longleftrightarrow>
   m = Some (Inr (Some r, t)) \<or> (\<exists>s. m = Some (Inr (None, s)) \<and> f s = Some (Inr (r, t)))"
  by (auto simp: after_loop_def obind_eq_Some split: option.splits)

lemma after_loop_Inl:
  "after_loop m f = Some (Inl e) \<longleftrightarrow>
   m = Some (Inl e) \<or> (\<exists>s. m = Some (Inr (None, s)) \<and> f s = Some (Inl e))"
  by (auto simp: after_loop_def obind_eq_Some split: option.splits)

lemma control_W_status_effect:
  assumes "turn_loop (control_W_status_step E) () s = Some (Inr (r, s'))"
  shows "sent rdb i 0 s s'"
  using assms
proof (rule turn_loop_inv [where I = "\<lambda>_ t. sent rdb i 0 s t" and Q = "\<lambda>_ t. sent rdb i 0 s t"])
  have step: "sent rdb i 0 t u" if "control_W_status_step E c t = Some (Inr (x, u))" for c t x u
    using that by (auto simp: control_W_status_step_def endpoint_simps split_def sent_def same_usb_def
        split: if_splits)
  have trans: "sent rdb i 0 s u" if "sent rdb i 0 s t" "sent rdb i 0 t u" for t u
    using sent_trans [of rdb i 0 s t 0 u] that by simp
  show "sent rdb i 0 s u" if "sent rdb i 0 s t" "control_W_status_step E c t = Some (Inr (Again d, u))"
    for c t d u using trans step that by blast
  show "sent rdb i 0 s u" if "sent rdb i 0 s t" "control_W_status_step E c t = Some (Inr (Return r, u))"
    for c t r u using trans step that by blast
  show "sent rdb i 0 s u" if "sent rdb i 0 s t" "control_W_status_step E c t = Some (Inr (Leave, u))"
    for c t u using trans step that by blast
qed simp

text \<open>A whole control write sends a prefix of the requested data.\<close>

lemma control_W_prefix:
  assumes "Template_Endpoint_Control_W E rdb Length s = Some (Inr (r, s'))"
  shows "\<exists>k \<le> min (unat Length) (unat (wLength (USB_ControlRequest s))). sent rdb 0 k s s'"
proof -
  let ?L = "min (unat Length) (unat (wLength (USB_ControlRequest s)))"
  obtain n t where n: "n = ?L" "sent rdb 0 0 s t"
    and run: "after_loop (turn_loop (control_W_step E rdb) (0, n, False) t) (\<lambda>s.
         after_loop (turn_loop (control_W_status_step E) () s) (\<lambda>s.
         Some (Inr (ENDPOINT_RWCSTREAM_NoError, s)))) = Some (Inr (r, s'))"
  proof
    show "unat (if Length > wLength (USB_ControlRequest s) then wLength (USB_ControlRequest s)
       else Length) = ?L"
      by (auto simp: word_less_nat_alt min_def)
    show "sent rdb 0 0 s (if Length > wLength (USB_ControlRequest s) then s
      else if Length = 0 then Endpoint_ClearIN E s else s)"
      by (simp add: sent_def endpoint_simps)
  qed (use assms in \<open>auto simp: Template_Endpoint_Control_W_def split: if_splits\<close>)
  from run obtain q u where data: "turn_loop (control_W_step E rdb) (0, n, False) t = Some (Inr (q, u))"
    and rest: "u = s' \<or> (\<exists>r. turn_loop (control_W_status_step E) () u = Some (Inr (r, s')))"
    by (auto simp: after_loop_Inr)
  from control_W_loop_effect [OF data] obtain k where k: "k \<le> n" "sent rdb 0 k t u" by blast
  have "sent rdb 0 k s u" using sent_trans [of rdb 0 0 s t k u] n k by simp
  moreover have "sent rdb k 0 u s'" using rest control_W_status_effect [of E u _ s' rdb k] by auto
  ultimately have "sent rdb 0 k s s'" using sent_trans [of rdb 0 k s u 0 s'] by simp
  with k n show ?thesis by blast
qed

text \<open>No byte outside the buffer is read when the length does not exceed it.\<close>

lemma control_fill_safe:
  "\<forall>j < i + n. \<exists>b. rdb j = Inr b \<Longrightarrow> control_fill rdb i n B s \<noteq> Inl e"
proof (induction rdb i n B s rule: control_fill.induct)
  case (2 rdb i n B s)
  from 2(2) obtain b where "rdb i = Inr b" by fastforce
  with 2 show ?case by simp
qed simp

lemma control_W_step_safe:
  assumes "\<forall>j < i + n. \<exists>b. rdb j = Inr b"
  shows "control_W_step E rdb (i, n, full) s \<noteq> Some (Inl e)"
  using control_fill_safe [OF assms]
  by (auto simp: control_W_step_def split_def Let_def fbind_def split: if_splits sum.splits)

lemma control_W_safe:
  assumes "\<forall>j < unat Length. \<exists>b. rdb j = Inr b"
  shows "Template_Endpoint_Control_W E rdb Length s \<noteq> Some (Inl e)"
proof -
  have data: "turn_loop (control_W_step E rdb) (0, n, False) t \<noteq> Some (Inl e)"
    if "n \<le> unat Length" for n and t :: "'a usb_scheme"
  proof (rule turn_loop_safe [where I = "\<lambda>c t. fst c + fst (snd c) \<le> unat Length"])
    show "fst d + fst (snd d) \<le> unat Length"
      if "fst c + fst (snd c) \<le> unat Length"
        "control_W_step E rdb c u = Some (Inr (Again d, v))" for c d and u v :: "'a usb_scheme"
    proof -
      obtain i m f i' m' f' where "c = (i, m, f)" "d = (i', m', f')" by (cases c, cases d) auto
      with control_W_step_effect [of E rdb i m f u "Again d" v] that show ?thesis by auto
    qed
    show "control_W_step E rdb c u \<noteq> Some (Inl e)"
      if "fst c + fst (snd c) \<le> unat Length" for c e and u :: "'a usb_scheme"
    proof -
      obtain i m f where c: "c = (i, m, f)" by (cases c) auto
      with that assms have "\<forall>j < i + m. \<exists>b. rdb j = Inr b" by simp
      with c show ?thesis using control_W_step_safe by blast
    qed
  qed (use that in auto)
  have status: "turn_loop (control_W_status_step E) () t \<noteq> Some (Inl e)" for t :: "'a usb_scheme"
    by (rule turn_loop_safe [where I = "\<lambda>_ _. True"])
      (auto simp: control_W_status_step_def split_def Let_def)
  show ?thesis
    using data status unfolding Template_Endpoint_Control_W_def
    by (auto simp: after_loop_Inl word_less_nat_alt split: if_splits)
qed

lemma calm_control_W:
  assumes "unat Length \<le> length buf"
  shows "calm (usb.more \<circ> snd) (usb.more s) (Template_Endpoint_Control_W E (load buf) Length s)"
proof -
  have "\<forall>j < unat Length. \<exists>b. load buf j = Inr b" using assms by (simp add: load_in)
  from control_W_safe [OF this] show ?thesis
    by (auto simp: calm_iff sent_def same_usb_def dest: control_W_prefix)
qed

end
