(* ===== verification/DeviceRequests.thy ===== *)
theory DeviceRequests
  imports ControlStream
begin

text \<open>
  Standard control requests of a USB device (\<open>DeviceStandardReq.c\<close>, the inline
  functions of \<open>Device_AVR8.h\<close>) and the polling task (\<open>USBTask.c\<close>). LUFA calls back
  into the application for control requests, configuration changes and
  descriptors; the three callbacks are the argument \<open>app\<close>.
\<close>

section \<open>Model\<close>

record 's application =
  EVENT_ControlRequest :: "'s \<Rightarrow> 's outcome"
  EVENT_ConfigurationChanged :: "'s \<Rightarrow> 's outcome"
  GetDescriptor :: "u16 \<Rightarrow> u16 \<Rightarrow> u16 \<times> bytes"

abbreviation (input) REQ_GetStatus :: u8 where "REQ_GetStatus \<equiv> 0"
abbreviation (input) REQ_ClearFeature :: u8 where "REQ_ClearFeature \<equiv> 1"
abbreviation (input) REQ_SetFeature :: u8 where "REQ_SetFeature \<equiv> 3"
abbreviation (input) REQ_SetAddress :: u8 where "REQ_SetAddress \<equiv> 5"
abbreviation (input) REQ_GetDescriptor :: u8 where "REQ_GetDescriptor \<equiv> 6"
abbreviation (input) REQ_GetConfiguration :: u8 where "REQ_GetConfiguration \<equiv> 8"
abbreviation (input) REQ_SetConfiguration :: u8 where "REQ_SetConfiguration \<equiv> 9"
abbreviation (input) FEATURE_SEL_EndpointHalt :: u8 where "FEATURE_SEL_EndpointHalt \<equiv> 0"
abbreviation (input) FEATURE_SEL_DeviceRemoteWakeup :: u8 where "FEATURE_SEL_DeviceRemoteWakeup \<equiv> 1"
abbreviation (input) FEATURE_SELFPOWERED_ENABLED :: u8 where "FEATURE_SELFPOWERED_ENABLED \<equiv> 1"
abbreviation (input) FEATURE_REMOTE_WAKEUP_ENABLED :: u8 where "FEATURE_REMOTE_WAKEUP_ENABLED \<equiv> 2"
abbreviation (input) CONTROL_REQTYPE_RECIPIENT :: u8 where "CONTROL_REQTYPE_RECIPIENT \<equiv> 0x1F"
abbreviation (input) DTYPE_String :: u8 where "DTYPE_String \<equiv> 3"
abbreviation (input) USE_INTERNAL_SERIAL :: u8 where "USE_INTERNAL_SERIAL \<equiv> 0xDC"
abbreviation (input) FIXED_NUM_CONFIGURATIONS :: u8 where "FIXED_NUM_CONFIGURATIONS \<equiv> 1"
abbreviation (input) INTERNAL_SERIAL_START_ADDRESS :: u8 where "INTERNAL_SERIAL_START_ADDRESS \<equiv> 0x0E"

definition USB_Device_SetDeviceAddress :: "environment \<Rightarrow> u8 \<Rightarrow> 'a usb_scheme \<Rightarrow> 'a usb_scheme" where
  "USB_Device_SetDeviceAddress E Address s =
     (let (v, s) = rd E UDADDR s in wr UDADDR ((v AND BV ADDEN) OR (Address AND 0x7F)) s)"

definition USB_Device_EnableDeviceAddress :: "environment \<Rightarrow> u8 \<Rightarrow> 'a usb_scheme \<Rightarrow> 'a usb_scheme" where
  "USB_Device_EnableDeviceAddress E Address s = set_bits E UDADDR (BV ADDEN) s"

definition USB_Device_IsAddressSet :: "environment \<Rightarrow> 'a usb_scheme \<Rightarrow> bool \<times> 'a usb_scheme" where
  "USB_Device_IsAddressSet E s = test_bit E UDADDR ADDEN s"

definition USB_Device_SetAddress :: "environment \<Rightarrow> 'a usb_scheme \<Rightarrow> 'a usb_scheme outcome" where
  "USB_Device_SetAddress E s =
     (let DeviceAddress = ucast (wValue (USB_ControlRequest s) AND 0x7F);
          s = USB_Device_SetDeviceAddress E DeviceAddress s;
          s = Endpoint_ClearSETUP E s
      in obind (Endpoint_ClearStatusStage E s) (\<lambda>s.
         obind (returns (wait_bit E UEINTX TXINI s)) (\<lambda>s.
         Some (Inr ((USB_Device_EnableDeviceAddress E DeviceAddress s)
           \<lparr>USB_DeviceState := if DeviceAddress \<noteq> 0 then DEVICE_STATE_Addressed
              else DEVICE_STATE_Default\<rparr>)))))"

definition USB_Device_SetConfiguration ::
  "environment \<Rightarrow> 'a usb_scheme application \<Rightarrow> 'a usb_scheme \<Rightarrow> 'a usb_scheme outcome" where
  "USB_Device_SetConfiguration E app s =
     (if (ucast (wValue (USB_ControlRequest s)) :: u8) > FIXED_NUM_CONFIGURATIONS then Some (Inr s) else
      let s = Endpoint_ClearSETUP E s;
          s = s\<lparr>USB_Device_ConfigurationNumber := ucast (wValue (USB_ControlRequest s))\<rparr>
      in obind (Endpoint_ClearStatusStage E s) (\<lambda>s.
         let s = (if USB_Device_ConfigurationNumber s \<noteq> 0
                  then s\<lparr>USB_DeviceState := DEVICE_STATE_Configured\<rparr>
                  else let (b, s) = USB_Device_IsAddressSet E s in
                    s\<lparr>USB_DeviceState := if b then DEVICE_STATE_Configured else DEVICE_STATE_Powered\<rparr>)
         in EVENT_ConfigurationChanged app s))"

definition USB_Device_GetConfiguration :: "environment \<Rightarrow> 'a usb_scheme \<Rightarrow> 'a usb_scheme outcome" where
  "USB_Device_GetConfiguration E s =
     (let s = Endpoint_ClearSETUP E s;
          s = Endpoint_Write_8 (USB_Device_ConfigurationNumber s) s;
          s = Endpoint_ClearIN E s
      in Endpoint_ClearStatusStage E s)"

text \<open>
  \<open>USB_Device_GetSerialString\<close>: twenty hexadecimal digits from the signature row,
  low nibble first, read with interrupts disabled. \<open>k\<close> digits are left.
\<close>

fun serial_digits :: "environment \<Rightarrow> nat \<Rightarrow> u8 \<Rightarrow> nat \<Rightarrow> u16 list" where
  "serial_digits E SerialCharNum SigReadAddress 0 = []"
| "serial_digits E SerialCharNum SigReadAddress (Suc k) =
     (let SerialByte = signature_byte E SigReadAddress;
          (SerialByte, SigReadAddress) =
            (if odd SerialCharNum then (drop_bit 4 SerialByte, SigReadAddress + 1)
             else (SerialByte, SigReadAddress));
          SerialByte = SerialByte AND 0x0F
      in (if SerialByte \<ge> 10 then (65 - 10) + ucast SerialByte else 48 + ucast SerialByte)
         # serial_digits E (Suc SerialCharNum) SigReadAddress k)"

definition USB_Device_GetSerialString :: "environment \<Rightarrow> 'a usb_scheme \<Rightarrow> u16 list \<times> 'a usb_scheme" where
  "USB_Device_GetSerialString E s =
     (let (CurrentGlobalInt, s) = rd E SREG s;
          s = event (LibCall Cli) s;
          UnicodeString = serial_digits E 0 INTERNAL_SERIAL_START_ADDRESS 20
      in (UnicodeString, wr SREG CurrentGlobalInt s))"

definition USB_Device_GetInternalSerialDescriptor ::
  "environment \<Rightarrow> 'a usb_scheme \<Rightarrow> 'a usb_scheme outcome" where
  "USB_Device_GetInternalSerialDescriptor E s =
     (let (UnicodeString, s) = USB_Device_GetSerialString E s;
          SignatureDescriptor = [2 + 20 * 2, DTYPE_String] @ concat (map le16 UnicodeString);
          s = Endpoint_ClearSETUP E s
      in obind (Endpoint_Write_Control_Stream_LE E SignatureDescriptor
                  (of_nat (length SignatureDescriptor)) s) (\<lambda>(_, s).
         Some (Inr (Endpoint_ClearOUT E s))))"

definition USB_Device_GetDescriptor ::
  "environment \<Rightarrow> 'a usb_scheme application \<Rightarrow> 'a usb_scheme \<Rightarrow> 'a usb_scheme outcome" where
  "USB_Device_GetDescriptor E app s =
     (if wValue (USB_ControlRequest s) = join16 DTYPE_String USE_INTERNAL_SERIAL
      then USB_Device_GetInternalSerialDescriptor E s else
      let (DescriptorSize, Descriptor) =
        GetDescriptor app (wValue (USB_ControlRequest s)) (wIndex (USB_ControlRequest s))
      in if DescriptorSize = 0 then Some (Inr s) else
         let s = Endpoint_ClearSETUP E s in
         obind (Endpoint_Write_Control_PStream_LE E Descriptor DescriptorSize s) (\<lambda>(_, s).
         Some (Inr (Endpoint_ClearOUT E s))))"

definition USB_Device_GetStatus :: "environment \<Rightarrow> 'a usb_scheme \<Rightarrow> 'a usb_scheme outcome" where
  "USB_Device_GetStatus E s =
     (let answer = (\<lambda>CurrentStatus s.
            let s = Endpoint_ClearSETUP E s;
                s = Endpoint_Write_16_LE (ucast (CurrentStatus :: u8)) s;
                s = Endpoint_ClearIN E s
            in Endpoint_ClearStatusStage E s)
      in if bmRequestType (USB_ControlRequest s) =
           REQDIR_DEVICETOHOST OR REQTYPE_STANDARD OR REQREC_DEVICE then
           answer ((if USB_Device_CurrentlySelfPowered s then FEATURE_SELFPOWERED_ENABLED else 0) OR
                   (if USB_Device_RemoteWakeupEnabled s then FEATURE_REMOTE_WAKEUP_ENABLED else 0)) s
         else if bmRequestType (USB_ControlRequest s) =
           REQDIR_DEVICETOHOST OR REQTYPE_STANDARD OR REQREC_ENDPOINT then
           let EndpointIndex = ucast (wIndex (USB_ControlRequest s)) AND ENDPOINT_EPNUM_MASK in
           if unat EndpointIndex \<ge> ENDPOINT_TOTAL_ENDPOINTS then Some (Inr s) else
           let s = Endpoint_SelectEndpoint EndpointIndex s;
               (stalled, s) = Endpoint_IsStalled E s;
               s = Endpoint_SelectEndpoint ENDPOINT_CONTROLEP s
           in answer (of_bool stalled) s
         else Some (Inr s))"

definition USB_Device_ClearSetFeature :: "environment \<Rightarrow> 'a usb_scheme \<Rightarrow> 'a usb_scheme outcome" where
  "USB_Device_ClearSetFeature E s =
     (let finish = (\<lambda>s.
            let s = Endpoint_SelectEndpoint ENDPOINT_CONTROLEP s;
                s = Endpoint_ClearSETUP E s
            in Endpoint_ClearStatusStage E s);
          req = USB_ControlRequest s;
          recipient = bmRequestType req AND CONTROL_REQTYPE_RECIPIENT
      in if recipient = REQREC_DEVICE then
           if (ucast (wValue req) :: u8) = FEATURE_SEL_DeviceRemoteWakeup
           then finish (s\<lparr>USB_Device_RemoteWakeupEnabled := bRequest req = REQ_SetFeature\<rparr>)
           else Some (Inr s)
         else if recipient = REQREC_ENDPOINT then
           if (ucast (wValue req) :: u8) = FEATURE_SEL_EndpointHalt then
             let EndpointIndex = ucast (wIndex req) AND ENDPOINT_EPNUM_MASK in
             if EndpointIndex = ENDPOINT_CONTROLEP \<or> unat EndpointIndex \<ge> ENDPOINT_TOTAL_ENDPOINTS
             then Some (Inr s) else
             let s = Endpoint_SelectEndpoint EndpointIndex s;
                 (enabled, s) = Endpoint_IsEnabled E s;
                 s = (if enabled then
                        if bRequest req = REQ_SetFeature then Endpoint_StallTransaction E s
                        else Endpoint_ResetDataToggle E
                               (Endpoint_ResetEndpoint EndpointIndex (Endpoint_ClearStall E s))
                      else s)
             in finish s
           else finish s
         else Some (Inr s))"

text \<open>
  The eight bytes of the request are stored one by one over the header, which is
  little-endian in memory.
\<close>

definition read_request :: "environment \<Rightarrow> 'a usb_scheme \<Rightarrow> 'a usb_scheme" where
  "read_request E s =
     (let (b0, s) = Endpoint_Read_8 E s; (b1, s) = Endpoint_Read_8 E s;
          (b2, s) = Endpoint_Read_8 E s; (b3, s) = Endpoint_Read_8 E s;
          (b4, s) = Endpoint_Read_8 E s; (b5, s) = Endpoint_Read_8 E s;
          (b6, s) = Endpoint_Read_8 E s; (b7, s) = Endpoint_Read_8 E s
      in s\<lparr>USB_ControlRequest := \<lparr>bmRequestType = b0, bRequest = b1, wValue = join16 b3 b2,
           wIndex = join16 b5 b4, wLength = join16 b7 b6\<rparr>\<rparr>)"

definition standard_request ::
  "environment \<Rightarrow> 'a usb_scheme application \<Rightarrow> 'a usb_scheme \<Rightarrow> 'a usb_scheme outcome" where
  "standard_request E app s =
     (let bmRequestType = bmRequestType (USB_ControlRequest s);
          req = bRequest (USB_ControlRequest s);
          to_host = (\<lambda>recipient. bmRequestType = REQDIR_DEVICETOHOST OR REQTYPE_STANDARD OR recipient);
          to_device = (\<lambda>recipient. bmRequestType = REQDIR_HOSTTODEVICE OR REQTYPE_STANDARD OR recipient)
      in if req = REQ_GetStatus then
           if to_host REQREC_DEVICE \<or> to_host REQREC_ENDPOINT then USB_Device_GetStatus E s
           else Some (Inr s)
         else if req = REQ_ClearFeature \<or> req = REQ_SetFeature then
           if to_device REQREC_DEVICE \<or> to_device REQREC_ENDPOINT then USB_Device_ClearSetFeature E s
           else Some (Inr s)
         else if req = REQ_SetAddress then
           if to_device REQREC_DEVICE then USB_Device_SetAddress E s else Some (Inr s)
         else if req = REQ_GetDescriptor then
           if to_host REQREC_DEVICE \<or> to_host REQREC_INTERFACE then USB_Device_GetDescriptor E app s
           else Some (Inr s)
         else if req = REQ_GetConfiguration then
           if to_host REQREC_DEVICE then USB_Device_GetConfiguration E s else Some (Inr s)
         else if req = REQ_SetConfiguration then
           if to_device REQREC_DEVICE then USB_Device_SetConfiguration E app s else Some (Inr s)
         else Some (Inr s))"

definition USB_Device_ProcessControlRequest ::
  "environment \<Rightarrow> 'a usb_scheme application \<Rightarrow> 'a usb_scheme \<Rightarrow> 'a usb_scheme outcome" where
  "USB_Device_ProcessControlRequest E app s =
     obind (EVENT_ControlRequest app (read_request E s)) (\<lambda>s.
     let (setup, s) = Endpoint_IsSETUPReceived E s in
     obind (if setup then standard_request E app s else Some (Inr s)) (\<lambda>s.
     let (setup, s) = Endpoint_IsSETUPReceived E s in
     Some (Inr (if setup then Endpoint_StallTransaction E (Endpoint_ClearSETUP E s) else s))))"

definition USB_DeviceTask ::
  "environment \<Rightarrow> 'a usb_scheme application \<Rightarrow> 'a usb_scheme \<Rightarrow> 'a usb_scheme outcome" where
  "USB_DeviceTask E app s =
     (let (d, s) = read_DeviceState E s in
      if d = DEVICE_STATE_Unattached then Some (Inr s) else
      let (PrevEndpoint, s) = Endpoint_GetCurrentEndpoint E s;
          s = Endpoint_SelectEndpoint ENDPOINT_CONTROLEP s;
          (setup, s) = Endpoint_IsSETUPReceived E s
      in obind (if setup then USB_Device_ProcessControlRequest E app s else Some (Inr s)) (\<lambda>s.
         Some (Inr (Endpoint_SelectEndpoint PrevEndpoint s))))"

definition USB_USBTask ::
  "environment \<Rightarrow> 'a usb_scheme application \<Rightarrow> 'a usb_scheme \<Rightarrow> 'a usb_scheme outcome" where
  "USB_USBTask E app s = USB_DeviceTask E app s"

section \<open>The contract of the application\<close>

text \<open>
  What LUFA relies on: the size a descriptor is announced with does not exceed the
  descriptor, and the callbacks neither fault nor touch the data of the
  application (\<open>usb.more\<close>), which other parts of the program own.
\<close>

locale device_application =
  fixes E :: environment and app :: "'a usb_scheme application"
  assumes descriptor_size:
      "unat (fst (GetDescriptor app v i)) \<le> length (snd (GetDescriptor app v i))"
    and control_request: "calm usb.more (usb.more s) (EVENT_ControlRequest app s)"
    and configuration_changed: "calm usb.more (usb.more s) (EVENT_ConfigurationChanged app s)"

lemma length_serial_digits [simp]: "length (serial_digits E n a k) = k"
  by (induction k arbitrary: n a) (simp_all add: Let_def split_def)

lemma length_concat_le16 [simp]: "length (concat (map le16 ws)) = 2 * length ws"
  by (induction ws) simp_all

lemma usb_more_read_request [simp]: "usb.more (read_request E s) = usb.more s"
  by (simp add: read_request_def endpoint_simps)

lemma usb_more_rd [simp]: "usb.more (snd (rd E r s)) = usb.more s"
  by (simp add: snd_rd)

lemmas request_simps = endpoint_simps USB_Device_SetDeviceAddress_def
  USB_Device_EnableDeviceAddress_def USB_Device_IsAddressSet_def Endpoint_Write_16_LE_def

lemma calm_status: "usb.more s = v \<Longrightarrow> calm usb.more v (Endpoint_ClearStatusStage E s)"
  using calm_ClearStatusStage by blast

lemma calm_SetAddress: "calm usb.more (usb.more s) (USB_Device_SetAddress E s)"
  unfolding USB_Device_SetAddress_def Let_def
  by (intro calm_obind [OF calm_status] calm_obind [OF calm_returns])
    (auto simp: request_simps dest: usb_more_wait_bit)

lemma calm_GetConfiguration: "calm usb.more (usb.more s) (USB_Device_GetConfiguration E s)"
  unfolding USB_Device_GetConfiguration_def Let_def
  by (intro calm_status) (simp add: request_simps)

lemma calm_GetStatus: "calm usb.more (usb.more s) (USB_Device_GetStatus E s)"
  by (auto simp: USB_Device_GetStatus_def request_simps split_def intro!: calm_status)

lemma calm_ClearSetFeature: "calm usb.more (usb.more s) (USB_Device_ClearSetFeature E s)"
  by (auto simp: USB_Device_ClearSetFeature_def request_simps split_def intro!: calm_status)

lemma calm_GetInternalSerialDescriptor:
  "calm usb.more (usb.more s) (USB_Device_GetInternalSerialDescriptor E s)"
proof -
  let ?d = "[2 + 20 * 2, DTYPE_String] @
    concat (map le16 (serial_digits E 0 INTERNAL_SERIAL_START_ADDRESS 20))"
  have "calm (usb.more \<circ> snd) (usb.more t)
      (Endpoint_Write_Control_Stream_LE E ?d (of_nat (length ?d)) t)" for t :: "'a usb_scheme"
    unfolding Endpoint_Write_Control_Stream_LE_def by (rule calm_control_W) simp
  then have "calm (usb.more \<circ> snd) (usb.more s)
      (Endpoint_Write_Control_Stream_LE E ?d (of_nat (length ?d)) t)"
    if "usb.more t = usb.more s" for t :: "'a usb_scheme" using that by metis
  then show ?thesis
    unfolding USB_Device_GetInternalSerialDescriptor_def USB_Device_GetSerialString_def Let_def
      split_def prod.sel
    by (intro calm_obind [where view = "usb.more \<circ> snd"]) (simp_all add: request_simps)
qed

context device_application
begin

lemma calm_GetDescriptor: "calm usb.more (usb.more s) (USB_Device_GetDescriptor E app s)"
proof -
  have W: "calm (usb.more \<circ> snd) (usb.more s) (Endpoint_Write_Control_PStream_LE E
      (snd (GetDescriptor app v i)) (fst (GetDescriptor app v i)) t)"
    if "usb.more t = usb.more s" for t v i
    using calm_control_W [OF descriptor_size, of t E v i] that
    by (simp add: Endpoint_Write_Control_PStream_LE_def)
  then show ?thesis
    unfolding USB_Device_GetDescriptor_def Let_def split_def
    using calm_GetInternalSerialDescriptor [of s E]
    by (auto simp: request_simps intro!: calm_obind [OF W])
qed

lemma calm_SetConfiguration: "calm usb.more (usb.more s) (USB_Device_SetConfiguration E app s)"
proof -
  have "calm usb.more (usb.more s) (EVENT_ConfigurationChanged app t)"
    if "usb.more t = usb.more s" for t using configuration_changed [of t] that by simp
  then show ?thesis
    unfolding USB_Device_SetConfiguration_def Let_def split_def
    by (auto simp: request_simps intro!: calm_obind [OF calm_status])
qed

lemma calm_standard_request: "calm usb.more (usb.more s) (standard_request E app s)"
  using calm_GetStatus calm_ClearSetFeature calm_SetAddress calm_GetDescriptor calm_GetConfiguration
    calm_SetConfiguration
  by (auto simp: standard_request_def Let_def)

lemma calm_ProcessControlRequest:
  "calm usb.more (usb.more s) (USB_Device_ProcessControlRequest E app s)"
proof -
  have "calm usb.more (usb.more s) (EVENT_ControlRequest app (read_request E s))"
    using control_request [of "read_request E s"] by simp
  moreover have "calm usb.more (usb.more s) (standard_request E app t)"
    if "usb.more t = usb.more s" for t using calm_standard_request [of t] that by simp
  ultimately show ?thesis
    unfolding USB_Device_ProcessControlRequest_def Let_def split_def
    by (auto simp: request_simps intro!: calm_obind [where view = usb.more])
qed

lemma calm_USBTask: "calm usb.more (usb.more s) (USB_USBTask E app s)"
proof -
  have "calm usb.more (usb.more s) (USB_Device_ProcessControlRequest E app t)"
    if "usb.more t = usb.more s" for t using calm_ProcessControlRequest [of t] that by simp
  then show ?thesis
    unfolding USB_USBTask_def USB_DeviceTask_def Let_def split_def
    by (auto simp: request_simps intro!: calm_obind [where view = usb.more])
qed

end

end
