(* ===== verification/Descriptors.thy ===== *)
theory Descriptors
  imports DeviceRequests
begin

text \<open>
  The descriptors of the emulated Pro Controller (\<open>Descriptors.c\<close>, \<open>Descriptors.h\<close>),
  built from LUFA's descriptor structures (\<open>StdDescriptors.h\<close>, \<open>HIDClassCommon.h\<close>)
  and report item macros (\<open>HIDReportData.h\<close>), with their bytes in flash, and the
  callback that hands them out.
\<close>

section \<open>Structures and their layout\<close>

record USB_Descriptor_Header_t =
  hdr_Size :: u8
  hdr_Type :: u8

record USB_Descriptor_Device_t =
  dev_Header :: USB_Descriptor_Header_t
  USBSpecification :: u16
  dev_Class :: u8
  dev_SubClass :: u8
  dev_Protocol :: u8
  Endpoint0Size :: u8
  VendorID :: u16
  ProductID :: u16
  ReleaseNumber :: u16
  ManufacturerStrIndex :: u8
  ProductStrIndex :: u8
  SerialNumStrIndex :: u8
  NumberOfConfigurations :: u8

record USB_Descriptor_Configuration_Header_t =
  cfg_Header :: USB_Descriptor_Header_t
  TotalConfigurationSize :: u16
  TotalInterfaces :: u8
  ConfigurationNumber :: u8
  ConfigurationStrIndex :: u8
  ConfigAttributes :: u8
  MaxPowerConsumption :: u8

record USB_Descriptor_Interface_t =
  if_Header :: USB_Descriptor_Header_t
  InterfaceNumber :: u8
  AlternateSetting :: u8
  TotalEndpoints :: u8
  if_Class :: u8
  if_SubClass :: u8
  if_Protocol :: u8
  InterfaceStrIndex :: u8

record USB_HID_Descriptor_HID_t =
  hid_Header :: USB_Descriptor_Header_t
  HIDSpec :: u16
  CountryCode :: u8
  TotalReportDescriptors :: u8
  HIDReportType :: u8
  HIDReportLength :: u16

record USB_Descriptor_Endpoint_t =
  epd_Header :: USB_Descriptor_Header_t
  EndpointAddress :: u8
  Attributes :: u8
  EndpointSize :: u16
  PollingIntervalMS :: u8

record USB_Descriptor_String_t =
  str_Header :: USB_Descriptor_Header_t
  UnicodeString :: "u16 list"

record USB_Descriptor_Configuration_t =
  Config :: USB_Descriptor_Configuration_Header_t
  HID_Interface :: USB_Descriptor_Interface_t
  HID_JoystickHID :: USB_HID_Descriptor_HID_t
  HID_ReportOUTEndpoint :: USB_Descriptor_Endpoint_t
  HID_ReportINEndpoint :: USB_Descriptor_Endpoint_t

text \<open>Packed, little-endian memory images.\<close>

definition header_bytes :: "USB_Descriptor_Header_t \<Rightarrow> bytes" where
  "header_bytes h = [hdr_Size h, hdr_Type h]"

definition device_bytes :: "USB_Descriptor_Device_t \<Rightarrow> bytes" where
  "device_bytes d = header_bytes (dev_Header d) @ le16 (USBSpecification d)
     @ [dev_Class d, dev_SubClass d, dev_Protocol d, Endpoint0Size d]
     @ le16 (VendorID d) @ le16 (ProductID d) @ le16 (ReleaseNumber d)
     @ [ManufacturerStrIndex d, ProductStrIndex d, SerialNumStrIndex d, NumberOfConfigurations d]"

definition config_header_bytes :: "USB_Descriptor_Configuration_Header_t \<Rightarrow> bytes" where
  "config_header_bytes d = header_bytes (cfg_Header d) @ le16 (TotalConfigurationSize d)
     @ [TotalInterfaces d, ConfigurationNumber d, ConfigurationStrIndex d, ConfigAttributes d,
        MaxPowerConsumption d]"

definition interface_bytes :: "USB_Descriptor_Interface_t \<Rightarrow> bytes" where
  "interface_bytes d = header_bytes (if_Header d)
     @ [InterfaceNumber d, AlternateSetting d, TotalEndpoints d, if_Class d, if_SubClass d,
        if_Protocol d, InterfaceStrIndex d]"

definition hid_bytes :: "USB_HID_Descriptor_HID_t \<Rightarrow> bytes" where
  "hid_bytes d = header_bytes (hid_Header d) @ le16 (HIDSpec d)
     @ [CountryCode d, TotalReportDescriptors d, HIDReportType d] @ le16 (HIDReportLength d)"

definition endpoint_bytes :: "USB_Descriptor_Endpoint_t \<Rightarrow> bytes" where
  "endpoint_bytes d = header_bytes (epd_Header d) @ [EndpointAddress d, Attributes d]
     @ le16 (EndpointSize d) @ [PollingIntervalMS d]"

definition string_bytes :: "USB_Descriptor_String_t \<Rightarrow> bytes" where
  "string_bytes d = header_bytes (str_Header d) @ concat (map le16 (UnicodeString d))"

definition configuration_bytes :: "USB_Descriptor_Configuration_t \<Rightarrow> bytes" where
  "configuration_bytes d = config_header_bytes (Config d) @ interface_bytes (HID_Interface d)
     @ hid_bytes (HID_JoystickHID d) @ endpoint_bytes (HID_ReportOUTEndpoint d)
     @ endpoint_bytes (HID_ReportINEndpoint d)"

section \<open>Macros\<close>

abbreviation (input) DTYPE_Device :: u8 where "DTYPE_Device \<equiv> 0x01"
abbreviation (input) DTYPE_Configuration :: u8 where "DTYPE_Configuration \<equiv> 0x02"
abbreviation (input) DTYPE_Interface :: u8 where "DTYPE_Interface \<equiv> 0x04"
abbreviation (input) DTYPE_Endpoint :: u8 where "DTYPE_Endpoint \<equiv> 0x05"
abbreviation (input) DTYPE_HID :: u8 where "DTYPE_HID \<equiv> 0x21"
abbreviation (input) DTYPE_Report :: u8 where "DTYPE_Report \<equiv> 0x22"
abbreviation (input) NO_DESCRIPTOR :: nat where "NO_DESCRIPTOR \<equiv> 0"
abbreviation (input) JOYSTICK_IN_EPADDR :: u8 where "JOYSTICK_IN_EPADDR \<equiv> ENDPOINT_DIR_IN OR 1"
abbreviation (input) JOYSTICK_OUT_EPADDR :: u8 where "JOYSTICK_OUT_EPADDR \<equiv> ENDPOINT_DIR_OUT OR 2"

definition VERSION_BCD :: "u16 \<Rightarrow> u16 \<Rightarrow> u16 \<Rightarrow> u16" where
  "VERSION_BCD Major Minor Revision =
     push_bit 8 (Major AND 0xFF) OR push_bit 4 (Minor AND 0x0F) OR (Revision AND 0x0F)"

definition USB_CONFIG_POWER_MA :: "u16 \<Rightarrow> u8" where
  "USB_CONFIG_POWER_MA mA = ucast (drop_bit 1 mA)"

text \<open>\<open>USB_STRING_DESCRIPTOR(L"...")\<close>: the array holds the terminating zero, the size does not count it.\<close>

definition USB_STRING_DESCRIPTOR :: "string \<Rightarrow> USB_Descriptor_String_t" where
  "USB_STRING_DESCRIPTOR str =
     \<lparr>str_Header = \<lparr>hdr_Size = of_nat (2 + 2 * length str), hdr_Type = DTYPE_String\<rparr>,
      UnicodeString = map of_char str @ [0]\<rparr>"

definition USB_STRING_DESCRIPTOR_ARRAY :: "u16 list \<Rightarrow> USB_Descriptor_String_t" where
  "USB_STRING_DESCRIPTOR_ARRAY cs =
     \<lparr>str_Header = \<lparr>hdr_Size = of_nat (2 + 2 * length cs), hdr_Type = DTYPE_String\<rparr>, UnicodeString = cs\<rparr>"

text \<open>Report items: type, tag and data width in the first byte, little-endian data after it.\<close>

datatype data_bits = B0 | B8 | B16 | B32

fun HID_RI_DATA_BITS :: "data_bits \<Rightarrow> u8" where
  "HID_RI_DATA_BITS B0 = 0x00"
| "HID_RI_DATA_BITS B8 = 0x01"
| "HID_RI_DATA_BITS B16 = 0x02"
| "HID_RI_DATA_BITS B32 = 0x03"

fun HID_RI_ENCODE :: "data_bits \<Rightarrow> u32 \<Rightarrow> bytes" where
  "HID_RI_ENCODE B0 d = []"
| "HID_RI_ENCODE B8 d = [ucast d]"
| "HID_RI_ENCODE B16 d = [ucast d, ucast (drop_bit 8 d)]"
| "HID_RI_ENCODE B32 d = [ucast d, ucast (drop_bit 8 d), ucast (drop_bit 16 d), ucast (drop_bit 24 d)]"

definition HID_RI_ENTRY :: "u8 \<Rightarrow> u8 \<Rightarrow> data_bits \<Rightarrow> u32 \<Rightarrow> bytes" where
  "HID_RI_ENTRY Type Tag DataBits d = (Type OR Tag OR HID_RI_DATA_BITS DataBits) # HID_RI_ENCODE DataBits d"

abbreviation (input) HID_RI_TYPE_MAIN :: u8 where "HID_RI_TYPE_MAIN \<equiv> 0x00"
abbreviation (input) HID_RI_TYPE_GLOBAL :: u8 where "HID_RI_TYPE_GLOBAL \<equiv> 0x04"
abbreviation (input) HID_RI_TYPE_LOCAL :: u8 where "HID_RI_TYPE_LOCAL \<equiv> 0x08"

definition HID_RI_INPUT :: "data_bits \<Rightarrow> u32 \<Rightarrow> bytes" where "HID_RI_INPUT = HID_RI_ENTRY HID_RI_TYPE_MAIN 0x80"
definition HID_RI_OUTPUT :: "data_bits \<Rightarrow> u32 \<Rightarrow> bytes" where "HID_RI_OUTPUT = HID_RI_ENTRY HID_RI_TYPE_MAIN 0x90"
definition HID_RI_COLLECTION :: "data_bits \<Rightarrow> u32 \<Rightarrow> bytes" where "HID_RI_COLLECTION = HID_RI_ENTRY HID_RI_TYPE_MAIN 0xA0"
definition HID_RI_FEATURE :: "data_bits \<Rightarrow> u32 \<Rightarrow> bytes" where "HID_RI_FEATURE = HID_RI_ENTRY HID_RI_TYPE_MAIN 0xB0"
definition HID_RI_END_COLLECTION :: "data_bits \<Rightarrow> u32 \<Rightarrow> bytes" where "HID_RI_END_COLLECTION = HID_RI_ENTRY HID_RI_TYPE_MAIN 0xC0"
definition HID_RI_USAGE_PAGE :: "data_bits \<Rightarrow> u32 \<Rightarrow> bytes" where "HID_RI_USAGE_PAGE = HID_RI_ENTRY HID_RI_TYPE_GLOBAL 0x00"
definition HID_RI_LOGICAL_MINIMUM :: "data_bits \<Rightarrow> u32 \<Rightarrow> bytes" where "HID_RI_LOGICAL_MINIMUM = HID_RI_ENTRY HID_RI_TYPE_GLOBAL 0x10"
definition HID_RI_LOGICAL_MAXIMUM :: "data_bits \<Rightarrow> u32 \<Rightarrow> bytes" where "HID_RI_LOGICAL_MAXIMUM = HID_RI_ENTRY HID_RI_TYPE_GLOBAL 0x20"
definition HID_RI_PHYSICAL_MINIMUM :: "data_bits \<Rightarrow> u32 \<Rightarrow> bytes" where "HID_RI_PHYSICAL_MINIMUM = HID_RI_ENTRY HID_RI_TYPE_GLOBAL 0x30"
definition HID_RI_PHYSICAL_MAXIMUM :: "data_bits \<Rightarrow> u32 \<Rightarrow> bytes" where "HID_RI_PHYSICAL_MAXIMUM = HID_RI_ENTRY HID_RI_TYPE_GLOBAL 0x40"
definition HID_RI_UNIT_EXPONENT :: "data_bits \<Rightarrow> u32 \<Rightarrow> bytes" where "HID_RI_UNIT_EXPONENT = HID_RI_ENTRY HID_RI_TYPE_GLOBAL 0x50"
definition HID_RI_UNIT :: "data_bits \<Rightarrow> u32 \<Rightarrow> bytes" where "HID_RI_UNIT = HID_RI_ENTRY HID_RI_TYPE_GLOBAL 0x60"
definition HID_RI_REPORT_SIZE :: "data_bits \<Rightarrow> u32 \<Rightarrow> bytes" where "HID_RI_REPORT_SIZE = HID_RI_ENTRY HID_RI_TYPE_GLOBAL 0x70"
definition HID_RI_REPORT_ID :: "data_bits \<Rightarrow> u32 \<Rightarrow> bytes" where "HID_RI_REPORT_ID = HID_RI_ENTRY HID_RI_TYPE_GLOBAL 0x80"
definition HID_RI_REPORT_COUNT :: "data_bits \<Rightarrow> u32 \<Rightarrow> bytes" where "HID_RI_REPORT_COUNT = HID_RI_ENTRY HID_RI_TYPE_GLOBAL 0x90"
definition HID_RI_PUSH :: "data_bits \<Rightarrow> u32 \<Rightarrow> bytes" where "HID_RI_PUSH = HID_RI_ENTRY HID_RI_TYPE_GLOBAL 0xA0"
definition HID_RI_POP :: "data_bits \<Rightarrow> u32 \<Rightarrow> bytes" where "HID_RI_POP = HID_RI_ENTRY HID_RI_TYPE_GLOBAL 0xB0"
definition HID_RI_USAGE :: "data_bits \<Rightarrow> u32 \<Rightarrow> bytes" where "HID_RI_USAGE = HID_RI_ENTRY HID_RI_TYPE_LOCAL 0x00"
definition HID_RI_USAGE_MINIMUM :: "data_bits \<Rightarrow> u32 \<Rightarrow> bytes" where "HID_RI_USAGE_MINIMUM = HID_RI_ENTRY HID_RI_TYPE_LOCAL 0x10"
definition HID_RI_USAGE_MAXIMUM :: "data_bits \<Rightarrow> u32 \<Rightarrow> bytes" where "HID_RI_USAGE_MAXIMUM = HID_RI_ENTRY HID_RI_TYPE_LOCAL 0x20"

section \<open>The descriptors of the device\<close>

definition JoystickReport :: bytes where
  "JoystickReport = concat [
     HID_RI_USAGE_PAGE B8 1, HID_RI_LOGICAL_MINIMUM B8 0, HID_RI_USAGE B8 4, HID_RI_COLLECTION B8 1,
     HID_RI_REPORT_ID B8 48, HID_RI_USAGE_PAGE B8 1, HID_RI_USAGE_PAGE B8 9,
     HID_RI_USAGE_MINIMUM B8 1, HID_RI_USAGE_MAXIMUM B8 0x0A, HID_RI_LOGICAL_MINIMUM B8 0,
     HID_RI_LOGICAL_MAXIMUM B8 1, HID_RI_REPORT_SIZE B8 1, HID_RI_REPORT_COUNT B8 10,
     HID_RI_UNIT_EXPONENT B8 0, HID_RI_UNIT B8 0, HID_RI_INPUT B8 2,
     HID_RI_USAGE_PAGE B8 9, HID_RI_USAGE_MINIMUM B8 0x0B, HID_RI_USAGE_MAXIMUM B8 0x0E,
     HID_RI_LOGICAL_MINIMUM B8 0, HID_RI_LOGICAL_MAXIMUM B8 1, HID_RI_REPORT_SIZE B8 1,
     HID_RI_REPORT_COUNT B8 4, HID_RI_INPUT B8 2,
     HID_RI_REPORT_SIZE B8 1, HID_RI_REPORT_COUNT B8 2, HID_RI_INPUT B8 3,
     HID_RI_USAGE B32 0x010001, HID_RI_COLLECTION B8 0, HID_RI_USAGE B32 0x010030,
     HID_RI_USAGE B32 0x010031, HID_RI_USAGE B32 0x010032, HID_RI_USAGE B32 0x010035,
     HID_RI_LOGICAL_MINIMUM B8 0, HID_RI_LOGICAL_MAXIMUM B32 65535, HID_RI_REPORT_SIZE B8 16,
     HID_RI_REPORT_COUNT B8 4, HID_RI_INPUT B8 2, HID_RI_END_COLLECTION B0 0,
     HID_RI_USAGE B32 0x010039, HID_RI_LOGICAL_MINIMUM B8 0, HID_RI_LOGICAL_MAXIMUM B8 7,
     HID_RI_PHYSICAL_MINIMUM B8 0, HID_RI_PHYSICAL_MAXIMUM B16 315, HID_RI_UNIT B8 0x14,
     HID_RI_REPORT_SIZE B8 4, HID_RI_REPORT_COUNT B8 1, HID_RI_INPUT B8 2,
     HID_RI_USAGE_PAGE B8 9, HID_RI_USAGE_MINIMUM B8 0x0F, HID_RI_USAGE_MAXIMUM B8 0x12,
     HID_RI_LOGICAL_MINIMUM B8 0, HID_RI_LOGICAL_MAXIMUM B8 1, HID_RI_REPORT_SIZE B8 1,
     HID_RI_REPORT_COUNT B8 4, HID_RI_INPUT B8 2, HID_RI_REPORT_SIZE B8 8,
     HID_RI_REPORT_COUNT B8 52, HID_RI_INPUT B8 3,
     HID_RI_USAGE_PAGE B16 0xFF00,
     HID_RI_REPORT_ID B8 33, HID_RI_USAGE B8 1, HID_RI_REPORT_SIZE B8 8, HID_RI_REPORT_COUNT B8 63,
     HID_RI_INPUT B8 3,
     HID_RI_REPORT_ID B8 0x81, HID_RI_USAGE B8 2, HID_RI_REPORT_SIZE B8 8, HID_RI_REPORT_COUNT B8 63,
     HID_RI_INPUT B8 3,
     HID_RI_REPORT_ID B8 1, HID_RI_USAGE B8 3, HID_RI_REPORT_SIZE B8 8, HID_RI_REPORT_COUNT B8 63,
     HID_RI_OUTPUT B8 0x83,
     HID_RI_REPORT_ID B8 16, HID_RI_USAGE B8 4, HID_RI_REPORT_SIZE B8 8, HID_RI_REPORT_COUNT B8 63,
     HID_RI_OUTPUT B8 0x83,
     HID_RI_REPORT_ID B8 0x80, HID_RI_USAGE B8 5, HID_RI_REPORT_SIZE B8 8, HID_RI_REPORT_COUNT B8 63,
     HID_RI_OUTPUT B8 0x83,
     HID_RI_REPORT_ID B8 0x82, HID_RI_USAGE B8 6, HID_RI_REPORT_SIZE B8 8, HID_RI_REPORT_COUNT B8 63,
     HID_RI_OUTPUT B8 0x83,
     HID_RI_END_COLLECTION B0 0]"

definition DeviceDescriptor :: USB_Descriptor_Device_t where
  "DeviceDescriptor =
     \<lparr>dev_Header = \<lparr>hdr_Size = 18, hdr_Type = DTYPE_Device\<rparr>,
      USBSpecification = VERSION_BCD 2 0 0, dev_Class = 0, dev_SubClass = 0, dev_Protocol = 0,
      Endpoint0Size = of_nat FIXED_CONTROL_ENDPOINT_SIZE,
      VendorID = 0x057E, ProductID = 0x2009, ReleaseNumber = VERSION_BCD 2 1 0,
      ManufacturerStrIndex = 1, ProductStrIndex = 2, SerialNumStrIndex = 3,
      NumberOfConfigurations = FIXED_NUM_CONFIGURATIONS\<rparr>"

definition ConfigurationDescriptor :: USB_Descriptor_Configuration_t where
  "ConfigurationDescriptor =
     \<lparr>Config =
        \<lparr>cfg_Header = \<lparr>hdr_Size = 9, hdr_Type = DTYPE_Configuration\<rparr>,
         TotalConfigurationSize = 41, TotalInterfaces = 1, ConfigurationNumber = 1,
         ConfigurationStrIndex = 0, ConfigAttributes = 0x80 OR 0x20,
         MaxPowerConsumption = USB_CONFIG_POWER_MA 500\<rparr>,
      HID_Interface =
        \<lparr>if_Header = \<lparr>hdr_Size = 9, hdr_Type = DTYPE_Interface\<rparr>,
         InterfaceNumber = 0, AlternateSetting = 0, TotalEndpoints = 2,
         if_Class = 3, if_SubClass = 0, if_Protocol = 0, InterfaceStrIndex = 0\<rparr>,
      HID_JoystickHID =
        \<lparr>hid_Header = \<lparr>hdr_Size = 9, hdr_Type = DTYPE_HID\<rparr>,
         HIDSpec = VERSION_BCD 1 1 1, CountryCode = 0, TotalReportDescriptors = 1,
         HIDReportType = DTYPE_Report, HIDReportLength = of_nat (length JoystickReport)\<rparr>,
      HID_ReportOUTEndpoint =
        \<lparr>epd_Header = \<lparr>hdr_Size = 7, hdr_Type = DTYPE_Endpoint\<rparr>,
         EndpointAddress = JOYSTICK_OUT_EPADDR, Attributes = EP_TYPE_INTERRUPT,
         EndpointSize = 64, PollingIntervalMS = 8\<rparr>,
      HID_ReportINEndpoint =
        \<lparr>epd_Header = \<lparr>hdr_Size = 7, hdr_Type = DTYPE_Endpoint\<rparr>,
         EndpointAddress = JOYSTICK_IN_EPADDR, Attributes = EP_TYPE_INTERRUPT,
         EndpointSize = 64, PollingIntervalMS = 8\<rparr>\<rparr>"

definition LanguageString :: USB_Descriptor_String_t where
  "LanguageString = USB_STRING_DESCRIPTOR_ARRAY [0x0409]"

definition ManufacturerString :: USB_Descriptor_String_t where
  "ManufacturerString = USB_STRING_DESCRIPTOR ''Nintendo Co., Ltd.''"

definition ProductString :: USB_Descriptor_String_t where
  "ProductString = USB_STRING_DESCRIPTOR ''Pro Controller''"

definition SerialNumberString :: USB_Descriptor_String_t where
  "SerialNumberString = USB_STRING_DESCRIPTOR ''000000000001''"

text \<open>
  The size and the bytes from the returned address on: for the HID descriptor, which
  lies inside the configuration descriptor, the bytes up to the end of the latter.
  No descriptor is a size of zero.
\<close>

definition CALLBACK_USB_GetDescriptor :: "u16 \<Rightarrow> u16 \<Rightarrow> u16 \<times> bytes" where
  "CALLBACK_USB_GetDescriptor wVal wIdx =
     (let DescriptorType = (ucast (drop_bit 8 wVal) :: u8);
          DescriptorNumber = (ucast (wVal AND 0xFF) :: u8);
          str = (\<lambda>d. (ucast (hdr_Size (str_Header d)), string_bytes d))
      in if DescriptorType = DTYPE_Device then (18, device_bytes DeviceDescriptor)
         else if DescriptorType = DTYPE_Configuration then
           (41, configuration_bytes ConfigurationDescriptor)
         else if DescriptorType = DTYPE_String then
           if DescriptorNumber = 0 then str LanguageString
           else if DescriptorNumber = 1 then str ManufacturerString
           else if DescriptorNumber = 2 then str ProductString
           else if DescriptorNumber = 3 then str SerialNumberString
           else (of_nat NO_DESCRIPTOR, [])
         else if DescriptorType = DTYPE_HID then
           (9, drop 18 (configuration_bytes ConfigurationDescriptor))
         else if DescriptorType = DTYPE_Report then
           (of_nat (length JoystickReport), JoystickReport)
         else (of_nat NO_DESCRIPTOR, []))"

section \<open>Sizes and layout\<close>

lemma length_JoystickReport: "length JoystickReport = 203"
  by code_simp

lemma configuration_bytes_eq:
  "configuration_bytes ConfigurationDescriptor =
     [9, 2, 41, 0, 1, 1, 0, 0xA0, 250] @ [9, 4, 0, 0, 2, 3, 0, 0, 0] @
     [9, 0x21, 0x11, 1, 0, 1, 0x22, 203, 0] @ [7, 5, 0x02, 3, 64, 0, 8] @ [7, 5, 0x81, 3, 64, 0, 8]"
  by code_simp

lemma device_bytes_eq:
  "device_bytes DeviceDescriptor =
     [18, 1, 0, 2, 0, 0, 0, 32, 0x7E, 0x05, 0x09, 0x20, 0x10, 2, 1, 2, 3, 1]"
  by code_simp

lemma string_sizes:
  "hdr_Size (str_Header LanguageString) = 4" "length (string_bytes LanguageString) = 4"
  "hdr_Size (str_Header ManufacturerString) = 38" "length (string_bytes ManufacturerString) = 40"
  "hdr_Size (str_Header ProductString) = 30" "length (string_bytes ProductString) = 32"
  "hdr_Size (str_Header SerialNumberString) = 26" "length (string_bytes SerialNumberString) = 28"
  by code_simp+

lemma GetDescriptor_size:
  "unat (fst (CALLBACK_USB_GetDescriptor v i)) \<le> length (snd (CALLBACK_USB_GetDescriptor v i))"
  by (simp add: CALLBACK_USB_GetDescriptor_def Let_def string_sizes device_bytes_eq
      configuration_bytes_eq length_JoystickReport)

end
