(* ===== verification/EndpointStream.thy ===== *)
theory EndpointStream
  imports DeviceRequests
begin

text \<open>
  Transfers on the data endpoints (\<open>EndpointStream_AVR8.c\<close>,
  \<open>Template_Endpoint_RW.c\<close>). Between two packets a transfer runs \<open>USB_USBTask\<close>, so
  the functions take the application's callbacks. \<open>i\<close> is the number of bytes the
  data pointer has moved.
\<close>

section \<open>Model\<close>

text \<open>The error codes of \<open>Endpoint_WaitUntilReady\<close> are passed on with the same values.\<close>

datatype rwstream = RWSTREAM readywait | ENDPOINT_RWSTREAM_IncompleteTransfer

abbreviation ENDPOINT_RWSTREAM_NoError :: rwstream where
  "ENDPOINT_RWSTREAM_NoError \<equiv> RWSTREAM ENDPOINT_READYWAIT_NoError"

text \<open>
  \<open>if ((ErrorCode = Endpoint_WaitUntilReady())) return ErrorCode;\<close> followed by the
  rest of the function or of the loop body.
\<close>

definition if_ready ::
  "environment \<Rightarrow> (rwstream \<Rightarrow> 'a usb_scheme \<Rightarrow> 'x outcome) \<Rightarrow> ('a usb_scheme \<Rightarrow> 'x outcome) \<Rightarrow>
   'a usb_scheme \<Rightarrow> 'x outcome" where
  "if_ready E err rest s =
     obind (Endpoint_WaitUntilReady E s) (\<lambda>(ErrorCode, s).
     if ErrorCode \<noteq> ENDPOINT_READYWAIT_NoError then err (RWSTREAM ErrorCode) s else rest s)"

text \<open>
  The loop of the template. Loop variables: pointer position, remaining length,
  bytes in this transfer. State: the optional \<open>*BytesProcessed\<close>, the buffer and the
  device. \<open>transfer\<close> moves one byte between the buffer and the endpoint, \<open>clear\<close> is
  \<open>Endpoint_ClearIN\<close> or \<open>Endpoint_ClearOUT\<close>.
\<close>

definition RW_step ::
  "environment \<Rightarrow> 'a usb_scheme application \<Rightarrow> ('a usb_scheme \<Rightarrow> 'a usb_scheme) \<Rightarrow>
   (nat \<Rightarrow> bytes \<Rightarrow> 'a usb_scheme \<Rightarrow> fault + bytes \<times> 'a usb_scheme) \<Rightarrow>
   nat \<times> nat \<times> u16 \<Rightarrow> u16 option \<times> bytes \<times> 'a usb_scheme \<Rightarrow>
   ((rwstream, nat \<times> nat \<times> u16) turn \<times> u16 option \<times> bytes \<times> 'a usb_scheme) outcome" where
  "RW_step E app clear transfer = (\<lambda>(i, Length, BytesInTransfer) (BytesProcessed, buf, s).
     if Length = 0 then Some (Inr (Leave, BytesProcessed, buf, s)) else
      let (allowed, s) = Endpoint_IsReadWriteAllowed E s in
      if \<not> allowed then
        obind (USB_USBTask E app (clear s)) (\<lambda>s.
        case BytesProcessed of
          Some p \<Rightarrow> Some (Inr (Return ENDPOINT_RWSTREAM_IncompleteTransfer,
            Some (p + BytesInTransfer), buf, s))
        | None \<Rightarrow>
            if_ready E (\<lambda>e s. Some (Inr (Return e, None, buf, s)))
              (\<lambda>s. Some (Inr (Again (i, Length, BytesInTransfer), None, buf, s))) s)
      else
        Some (fbind (transfer i buf s) (\<lambda>(buf, s).
          Inr (Again (Suc i, Length - 1, BytesInTransfer + 1), BytesProcessed, buf, s))))"

definition Template_Endpoint_RW ::
  "environment \<Rightarrow> 'a usb_scheme application \<Rightarrow> ('a usb_scheme \<Rightarrow> 'a usb_scheme) \<Rightarrow>
   (nat \<Rightarrow> bytes \<Rightarrow> 'a usb_scheme \<Rightarrow> fault + bytes \<times> 'a usb_scheme) \<Rightarrow>
   bytes \<Rightarrow> u16 \<Rightarrow> u16 option \<Rightarrow> 'a usb_scheme \<Rightarrow>
   (rwstream \<times> u16 option \<times> bytes \<times> 'a usb_scheme) outcome" where
  "Template_Endpoint_RW E app clear transfer Buffer Length BytesProcessed s =
     if_ready E (\<lambda>e s. Some (Inr (e, BytesProcessed, Buffer, s)))
       (\<lambda>s. let (Length, i) = (case BytesProcessed of
                  Some p \<Rightarrow> (Length - p, unat p) | None \<Rightarrow> (Length, 0))
             in after_loop
                  (turn_loop (RW_step E app clear transfer) (i, unat Length, 0)
                     (BytesProcessed, Buffer, s))
                  (\<lambda>t. Some (Inr (ENDPOINT_RWSTREAM_NoError, t)))) s"

definition write_byte ::
  "(nat \<Rightarrow> nat) \<Rightarrow> nat \<Rightarrow> bytes \<Rightarrow> 'a usb_scheme \<Rightarrow> fault + bytes \<times> 'a usb_scheme" where
  "write_byte pos i buf s = fbind (load buf (pos i)) (\<lambda>b. Inr (buf, Endpoint_Write_8 b s))"

definition read_byte ::
  "environment \<Rightarrow> (nat \<Rightarrow> nat) \<Rightarrow> nat \<Rightarrow> bytes \<Rightarrow> 'a usb_scheme \<Rightarrow> fault + bytes \<times> 'a usb_scheme" where
  "read_byte E pos i buf s =
     (let (b, s) = Endpoint_Read_8 E s in fbind (store buf (pos i) b) (\<lambda>buf. Inr (buf, s)))"

definition Endpoint_Write_Stream_LE ::
  "environment \<Rightarrow> 'a usb_scheme application \<Rightarrow> bytes \<Rightarrow> u16 \<Rightarrow> u16 option \<Rightarrow> 'a usb_scheme \<Rightarrow>
   (rwstream \<times> u16 option \<times> bytes \<times> 'a usb_scheme) outcome" where
  "Endpoint_Write_Stream_LE E app = Template_Endpoint_RW E app (Endpoint_ClearIN E) (write_byte (\<lambda>i. i))"

definition Endpoint_Write_Stream_BE ::
  "environment \<Rightarrow> 'a usb_scheme application \<Rightarrow> bytes \<Rightarrow> u16 \<Rightarrow> u16 option \<Rightarrow> 'a usb_scheme \<Rightarrow>
   (rwstream \<times> u16 option \<times> bytes \<times> 'a usb_scheme) outcome" where
  "Endpoint_Write_Stream_BE E app Buffer Length =
     Template_Endpoint_RW E app (Endpoint_ClearIN E) (write_byte (\<lambda>i. unat Length - 1 - i)) Buffer Length"

definition Endpoint_Read_Stream_LE ::
  "environment \<Rightarrow> 'a usb_scheme application \<Rightarrow> bytes \<Rightarrow> u16 \<Rightarrow> u16 option \<Rightarrow> 'a usb_scheme \<Rightarrow>
   (rwstream \<times> u16 option \<times> bytes \<times> 'a usb_scheme) outcome" where
  "Endpoint_Read_Stream_LE E app = Template_Endpoint_RW E app (Endpoint_ClearOUT E) (read_byte E (\<lambda>i. i))"

definition Endpoint_Read_Stream_BE ::
  "environment \<Rightarrow> 'a usb_scheme application \<Rightarrow> bytes \<Rightarrow> u16 \<Rightarrow> u16 option \<Rightarrow> 'a usb_scheme \<Rightarrow>
   (rwstream \<times> u16 option \<times> bytes \<times> 'a usb_scheme) outcome" where
  "Endpoint_Read_Stream_BE E app Buffer Length =
     Template_Endpoint_RW E app (Endpoint_ClearOUT E) (read_byte E (\<lambda>i. unat Length - 1 - i)) Buffer Length"

text \<open>The streams that discard or send zero bytes; they do not run the USB task.\<close>

definition skip_step ::
  "environment \<Rightarrow> ('a usb_scheme \<Rightarrow> 'a usb_scheme) \<Rightarrow> ('a usb_scheme \<Rightarrow> 'a usb_scheme) \<Rightarrow> u16 \<Rightarrow>
   u16 \<Rightarrow> u16 option \<times> 'a usb_scheme \<Rightarrow>
   ((rwstream, u16) turn \<times> u16 option \<times> 'a usb_scheme) outcome" where
  "skip_step E clear transfer Length = (\<lambda>BytesInTransfer (BytesProcessed, s).
     if \<not> BytesInTransfer < Length then Some (Inr (Leave, BytesProcessed, s)) else
      let (allowed, s) = Endpoint_IsReadWriteAllowed E s in
      if \<not> allowed then
        let s = clear s in
        case BytesProcessed of
          Some p \<Rightarrow> Some (Inr (Return ENDPOINT_RWSTREAM_IncompleteTransfer, Some BytesInTransfer, s))
        | None \<Rightarrow>
            if_ready E (\<lambda>e s. Some (Inr (Return e, None, s)))
              (\<lambda>s. Some (Inr (Again BytesInTransfer, None, s))) s
      else Some (Inr (Again (BytesInTransfer + 1), BytesProcessed, transfer s)))"

definition skip_stream ::
  "environment \<Rightarrow> ('a usb_scheme \<Rightarrow> 'a usb_scheme) \<Rightarrow> ('a usb_scheme \<Rightarrow> 'a usb_scheme) \<Rightarrow>
   u16 \<Rightarrow> u16 option \<Rightarrow> 'a usb_scheme \<Rightarrow> (rwstream \<times> u16 option \<times> 'a usb_scheme) outcome" where
  "skip_stream E clear transfer Length BytesProcessed s =
     if_ready E (\<lambda>e s. Some (Inr (e, BytesProcessed, s)))
       (\<lambda>s. after_loop
              (turn_loop (skip_step E clear transfer Length)
                 (case BytesProcessed of Some p \<Rightarrow> p | None \<Rightarrow> 0) (BytesProcessed, s))
              (\<lambda>t. Some (Inr (ENDPOINT_RWSTREAM_NoError, t)))) s"

definition Endpoint_Discard_Stream ::
  "environment \<Rightarrow> u16 \<Rightarrow> u16 option \<Rightarrow> 'a usb_scheme \<Rightarrow> (rwstream \<times> u16 option \<times> 'a usb_scheme) outcome" where
  "Endpoint_Discard_Stream E = skip_stream E (Endpoint_ClearOUT E) (Endpoint_Discard_8 E)"

definition Endpoint_Null_Stream ::
  "environment \<Rightarrow> u16 \<Rightarrow> u16 option \<Rightarrow> 'a usb_scheme \<Rightarrow> (rwstream \<times> u16 option \<times> 'a usb_scheme) outcome" where
  "Endpoint_Null_Stream E = skip_stream E (Endpoint_ClearIN E) (Endpoint_Write_8 0)"

section \<open>A write neither faults nor touches the data of the application\<close>

definition RW_view :: "u16 option \<times> bytes \<times> 'a usb_scheme \<Rightarrow> u16 option \<times> bytes \<times> 'a" where
  "RW_view = (\<lambda>(p, buf, s). (p, buf, usb.more s))"

lemma RW_view_simp [simp]: "RW_view (p, buf, s) = (p, buf, usb.more s)"
  by (simp add: RW_view_def)

lemma calm_if_ready:
  assumes "usb.more s = v"
    and "\<And>e s. usb.more s = v \<Longrightarrow> calm view w (err e s)"
    and "\<And>s. usb.more s = v \<Longrightarrow> calm view w (rest s)"
  shows "calm view w (if_ready E err rest s)"
proof -
  have "calm (usb.more \<circ> snd) v (Endpoint_WaitUntilReady E s)"
    using calm_WaitUntilReady [of s E] assms(1) by simp
  then show ?thesis
    unfolding if_ready_def calm_iff obind_eq_Some
    using assms(2,3) by (auto simp: calm_iff split: if_splits)
qed

context device_application
begin

lemma calm_Write_Stream_LE:
  assumes "unat Length \<le> length buf"
  shows "calm (RW_view \<circ> snd) (None, buf, usb.more s) (Endpoint_Write_Stream_LE E app buf Length None s)"
proof -
  let ?step = "RW_step E app (Endpoint_ClearIN E) (write_byte (\<lambda>i. i))"
  let ?v = "(None, buf, usb.more s)"
  have task: "calm usb.more (usb.more s) (USB_USBTask E app t)" if "usb.more t = usb.more s" for t
    using calm_USBTask [of t] that by simp
  have clear: "usb.more (Endpoint_ClearIN E t) = usb.more t" for t :: "'a usb_scheme"
    by (simp add: request_simps)
  have step: "calm (RW_view \<circ> snd) ?v (?step (i, n, k) (None, buf, t))"
    if "i + n \<le> length buf" "usb.more t = usb.more s" for i n k t
    using that
    by (auto simp: RW_step_def split_def write_byte_def load_in clear endpoint_simps fbind_def
        intro!: calm_obind_view [OF task] calm_if_ready)
  have loop: "calm (RW_view \<circ> snd) ?v (turn_loop ?step (0, unat Length, 0) (None, buf, t))"
    if "usb.more t = usb.more s" for t
  proof (rule calm_turn_loop_inv [where I = "\<lambda>(i, n, k). i + n \<le> length buf"])
    show "case d of (i, n, k) \<Rightarrow> i + n \<le> length buf"
      if "case c of (i, n, k) \<Rightarrow> i + n \<le> length buf" "RW_view x = ?v"
        "?step c x = Some (Inr (Again d, y))" for c x d y
      using that
      by (auto simp: RW_step_def split_def Let_def write_byte_def fbind_eq_Inr obind_eq_Some if_ready_def
          split: if_splits option.splits)
    show "calm (RW_view \<circ> snd) ?v (?step c x)"
      if "case c of (i, n, k) \<Rightarrow> i + n \<le> length buf" "RW_view x = ?v" for c x
      using that step by (auto simp: RW_view_def split: prod.splits)
  qed (use assms that in simp_all)
  show ?thesis
    unfolding Endpoint_Write_Stream_LE_def Template_Endpoint_RW_def Let_def split_def option.case prod.sel
    by (intro calm_if_ready calm_after_loop loop) simp_all
qed

end

section \<open>What a write to an accepting endpoint sends\<close>

text \<open>The endpoint selected last.\<close>

fun current_ep :: "io list \<Rightarrow> u8 option" where
  "current_ep [] = None"
| "current_ep (Wr UENUM v # l) = Some v"
| "current_ep (e # l) = current_ep l"

lemma current_ep_simps [simp]:
  "current_ep (Rd r v # l) = current_ep l" "r \<noteq> UENUM \<Longrightarrow> current_ep (Wr r v # l) = current_ep l"
  by (cases r; simp)+

text \<open>
  The IN endpoint of the joystick, whenever it is selected, is ready and has room in
  its bank.
\<close>

definition IN_accepting :: "environment \<Rightarrow> bool" where
  "IN_accepting E \<longleftrightarrow> (\<forall>l. current_ep l = Some 1 \<longrightarrow> bit (reg_value E UEINTX l) TXINI \<and>
     bit (reg_value E UEINTX l) RWAL \<and> bit (reg_value E UECFG0X l) EPDIR)"

lemma IN_accepting_now:
  "IN_accepting E \<Longrightarrow> current_ep l = Some 1 \<Longrightarrow> bit (reg_value E UEINTX l) TXINI"
  "IN_accepting E \<Longrightarrow> current_ep l = Some 1 \<Longrightarrow> bit (reg_value E UEINTX l) RWAL"
  "IN_accepting E \<Longrightarrow> current_ep l = Some 1 \<Longrightarrow> bit (reg_value E UECFG0X l) EPDIR"
  unfolding IN_accepting_def by blast+

lemma WaitUntilReady_accepting:
  assumes "IN_accepting E" "current_ep (io_log s) = Some 1"
  obtains t where "Endpoint_WaitUntilReady E s = Some (Inr (ENDPOINT_READYWAIT_NoError, t))"
    and "io_st.more t = io_st.more s" "written (io_log t) = written (io_log s)"
    and "current_ep (io_log t) = Some 1"
proof -
  let ?s = "snd (USB_Device_GetFrameNumber E s)"
  let ?t = "snd (Endpoint_IsINReady E (snd (Endpoint_GetEndpointDirection E ?s)))"
  have "WaitUntilReady_step E (c, f) ?s = Some (Inr (Return ENDPOINT_READYWAIT_NoError, ?t))" for c f
    using assms by (simp add: WaitUntilReady_step_def endpoint_simps IN_accepting_now split_def)
  then have "Endpoint_WaitUntilReady E s = Some (Inr (ENDPOINT_READYWAIT_NoError, ?t))"
    by (simp add: Endpoint_WaitUntilReady_def split_def turn_loop_Return after_loop_def)
  then show thesis by (rule that) (use assms in \<open>simp_all add: endpoint_simps\<close>)
qed

lemma RW_loop_accepting:
  assumes "IN_accepting E" "current_ep (io_log s) = Some 1" "i + n \<le> length buf"
  shows "\<exists>t. turn_loop (RW_step E app clear (write_byte (\<lambda>i. i))) (i, n, k) (None, buf, s) =
      Some (Inr (None, None, buf, t)) \<and> io_st.more t = io_st.more s \<and>
    written (io_log t) = written (io_log s) @ map (Pair UEDATX) (take n (drop i buf))"
  using assms(2,3)
proof (induction n arbitrary: i k s)
  case 0
  have "RW_step E app clear (write_byte (\<lambda>i. i)) (i, 0, k) (None, buf, s) =
      Some (Inr (Leave, None, buf, s))" by (simp add: RW_step_def)
  then show ?case by (auto simp: turn_loop_Leave)
next
  case (Suc n)
  let ?t = "Endpoint_Write_8 (buf ! i) (snd (Endpoint_IsReadWriteAllowed E s))"
  have "RW_step E app clear (write_byte (\<lambda>i. i)) (i, Suc n, k) (None, buf, s) =
      Some (Inr (Again (Suc i, n, k + 1), None, buf, ?t))"
    using assms(1) Suc.prems
    by (simp add: RW_step_def write_byte_def load_in endpoint_simps IN_accepting_now)
  then have "turn_loop (RW_step E app clear (write_byte (\<lambda>i. i))) (i, Suc n, k) (None, buf, s) =
      turn_loop (RW_step E app clear (write_byte (\<lambda>i. i))) (Suc i, n, k + 1) (None, buf, ?t)"
    by (rule turn_loop_Again)
  moreover have "written (io_log ?t) = written (io_log s) @ [(UEDATX, buf ! i)]"
    "io_st.more ?t = io_st.more s" "current_ep (io_log ?t) = Some 1"
    using Suc.prems by (simp_all add: endpoint_simps)
  moreover have "take (Suc n) (drop i buf) = buf ! i # take n (drop (Suc i) buf)"
    using Suc.prems(2) by (metis Cons_nth_drop_Suc Suc_le_lessD add_Suc_right le_add1 le_trans
        not_less_eq_eq take_Suc_Cons)
  ultimately show ?case using Suc.IH [of ?t "Suc i" "k + 1"] Suc.prems by simp
qed

lemma Write_Stream_LE_accepting:
  assumes "IN_accepting E" "current_ep (io_log s) = Some 1" "unat Length \<le> length buf"
  obtains t where "Endpoint_Write_Stream_LE E app buf Length None s =
      Some (Inr (ENDPOINT_RWSTREAM_NoError, None, buf, t))"
    and "io_st.more t = io_st.more s"
    and "written (io_log t) = written (io_log s) @ map (Pair UEDATX) (take (unat Length) buf)"
proof -
  from assms(1,2) obtain u where u: "Endpoint_WaitUntilReady E s =
      Some (Inr (ENDPOINT_READYWAIT_NoError, u))" "io_st.more u = io_st.more s"
    "written (io_log u) = written (io_log s)" "current_ep (io_log u) = Some 1"
    by (rule WaitUntilReady_accepting)
  from RW_loop_accepting [OF assms(1) u(4), of 0 "unat Length" buf app "Endpoint_ClearIN E" 0] assms(3)
  obtain t where "turn_loop (RW_step E app (Endpoint_ClearIN E) (write_byte (\<lambda>i. i)))
      (0, unat Length, 0) (None, buf, u) = Some (Inr (None, None, buf, t))"
    "io_st.more t = io_st.more u"
    "written (io_log t) = written (io_log u) @ map (Pair UEDATX) (take (unat Length) buf)" by auto
  with u that [of t] show thesis
    by (simp add: Endpoint_Write_Stream_LE_def Template_Endpoint_RW_def if_ready_def after_loop_def)
qed

end
