(* ===== verification/UsbController.thy ===== *)
theory UsbController
  imports DeviceRequests
begin

text \<open>
  The USB controller of the ATmega16U2 and its general interrupt
  (\<open>USBController_AVR8\<close>, \<open>USBInterrupt_AVR8\<close>, \<open>Device_AVR8.c\<close>, \<open>Events.c\<close>), with
  \<open>USB_Options\<close> 0: regulator on, PLL managed by the library, full speed. This series
  has no VBUS detection, so suspension counts as disconnection.
\<close>

section \<open>Registers of the controller\<close>

abbreviation (input) USB_PLL_PSC :: u8 where "USB_PLL_PSC \<equiv> BV 2"

definition USB_Detach :: "environment \<Rightarrow> 'a usb_scheme \<Rightarrow> 'a usb_scheme" where
  "USB_Detach E s = set_bits E UDCON (BV DETACH) s"

definition USB_Attach :: "environment \<Rightarrow> 'a usb_scheme \<Rightarrow> 'a usb_scheme" where
  "USB_Attach E s = clr_bits E UDCON (BV DETACH) s"

definition USB_PLL_On :: "'a usb_scheme \<Rightarrow> 'a usb_scheme" where
  "USB_PLL_On s = wr PLLCSR (USB_PLL_PSC OR BV PLLE) (wr PLLCSR USB_PLL_PSC s)"

definition USB_PLL_Off :: "'a usb_scheme \<Rightarrow> 'a usb_scheme" where
  "USB_PLL_Off s = wr PLLCSR 0 s"

definition USB_PLL_IsReady :: "environment \<Rightarrow> 'a usb_scheme \<Rightarrow> bool \<times> 'a usb_scheme" where
  "USB_PLL_IsReady E s = test_bit E PLLCSR PLOCK s"

definition USB_REG_On :: "environment \<Rightarrow> 'a usb_scheme \<Rightarrow> 'a usb_scheme" where
  "USB_REG_On E s = clr_bits E REGCR (BV REGDIS) s"

definition USB_REG_Off :: "environment \<Rightarrow> 'a usb_scheme \<Rightarrow> 'a usb_scheme" where
  "USB_REG_Off E s = set_bits E REGCR (BV REGDIS) s"

definition USB_CLK_Freeze :: "environment \<Rightarrow> 'a usb_scheme \<Rightarrow> 'a usb_scheme" where
  "USB_CLK_Freeze E s = set_bits E USBCON (BV FRZCLK) s"

definition USB_CLK_Unfreeze :: "environment \<Rightarrow> 'a usb_scheme \<Rightarrow> 'a usb_scheme" where
  "USB_CLK_Unfreeze E s = clr_bits E USBCON (BV FRZCLK) s"

definition USB_Controller_Enable :: "environment \<Rightarrow> 'a usb_scheme \<Rightarrow> 'a usb_scheme" where
  "USB_Controller_Enable E s = set_bits E USBCON (BV USBE) s"

definition USB_Controller_Disable :: "environment \<Rightarrow> 'a usb_scheme \<Rightarrow> 'a usb_scheme" where
  "USB_Controller_Disable E s = clr_bits E USBCON (BV USBE) s"

definition USB_Controller_Reset :: "environment \<Rightarrow> 'a usb_scheme \<Rightarrow> 'a usb_scheme" where
  "USB_Controller_Reset E s = set_bits E USBCON (BV USBE) (clr_bits E USBCON (BV USBE) s)"

section \<open>Interrupt sources\<close>

datatype USB_Interrupts_t =
  USB_INT_WAKEUPI | USB_INT_SUSPI | USB_INT_EORSTI | USB_INT_SOFI | USB_INT_RXSTPI

fun int_enable_bit :: "USB_Interrupts_t \<Rightarrow> reg \<times> nat" where
  "int_enable_bit USB_INT_WAKEUPI = (UDIEN, 4)"
| "int_enable_bit USB_INT_SUSPI = (UDIEN, 0)"
| "int_enable_bit USB_INT_EORSTI = (UDIEN, 3)"
| "int_enable_bit USB_INT_SOFI = (UDIEN, 2)"
| "int_enable_bit USB_INT_RXSTPI = (UEIENX, 3)"

fun int_flag_bit :: "USB_Interrupts_t \<Rightarrow> reg \<times> nat" where
  "int_flag_bit USB_INT_WAKEUPI = (UDINT, WAKEUPI)"
| "int_flag_bit USB_INT_SUSPI = (UDINT, SUSPI)"
| "int_flag_bit USB_INT_EORSTI = (UDINT, EORSTI)"
| "int_flag_bit USB_INT_SOFI = (UDINT, SOFI)"
| "int_flag_bit USB_INT_RXSTPI = (UEINTX, RXSTPI)"

definition USB_INT_Enable :: "environment \<Rightarrow> USB_Interrupts_t \<Rightarrow> 'a usb_scheme \<Rightarrow> 'a usb_scheme" where
  "USB_INT_Enable E i s = (case int_enable_bit i of (r, n) \<Rightarrow> set_bits E r (BV n) s)"

definition USB_INT_Disable :: "environment \<Rightarrow> USB_Interrupts_t \<Rightarrow> 'a usb_scheme \<Rightarrow> 'a usb_scheme" where
  "USB_INT_Disable E i s = (case int_enable_bit i of (r, n) \<Rightarrow> clr_bits E r (BV n) s)"

definition USB_INT_Clear :: "environment \<Rightarrow> USB_Interrupts_t \<Rightarrow> 'a usb_scheme \<Rightarrow> 'a usb_scheme" where
  "USB_INT_Clear E i s = (case int_flag_bit i of (r, n) \<Rightarrow> clr_bits E r (BV n) s)"

definition USB_INT_IsEnabled :: "environment \<Rightarrow> USB_Interrupts_t \<Rightarrow> 'a usb_scheme \<Rightarrow> bool \<times> 'a usb_scheme" where
  "USB_INT_IsEnabled E i s = (case int_enable_bit i of (r, n) \<Rightarrow> test_bit E r n s)"

definition USB_INT_HasOccurred :: "environment \<Rightarrow> USB_Interrupts_t \<Rightarrow> 'a usb_scheme \<Rightarrow> bool \<times> 'a usb_scheme" where
  "USB_INT_HasOccurred E i s = (case int_flag_bit i of (r, n) \<Rightarrow> test_bit E r n s)"

definition USB_INT_DisableAllInterrupts :: "'a usb_scheme \<Rightarrow> 'a usb_scheme" where
  "USB_INT_DisableAllInterrupts s = wr UDIEN 0 s"

definition USB_INT_ClearAllInterrupts :: "'a usb_scheme \<Rightarrow> 'a usb_scheme" where
  "USB_INT_ClearAllInterrupts s = wr UDINT 0 s"

definition USB_Device_EnableSOFEvents :: "environment \<Rightarrow> 'a usb_scheme \<Rightarrow> 'a usb_scheme" where
  "USB_Device_EnableSOFEvents E s = USB_INT_Enable E USB_INT_SOFI s"

definition USB_Device_DisableSOFEvents :: "environment \<Rightarrow> 'a usb_scheme \<Rightarrow> 'a usb_scheme" where
  "USB_Device_DisableSOFEvents E s = USB_INT_Disable E USB_INT_SOFI s"

section \<open>Initialisation\<close>

definition USB_Init_Device :: "environment \<Rightarrow> 'a usb_scheme \<Rightarrow> 'a usb_scheme option" where
  "USB_Init_Device E s =
     (let s = s\<lparr>USB_DeviceState := DEVICE_STATE_Unattached, USB_Device_ConfigurationNumber := 0,
                USB_Device_RemoteWakeupEnabled := False, USB_Device_CurrentlySelfPowered := False\<rparr>
      in do {
        (_, s) \<leftarrow> Endpoint_ConfigureEndpoint E ENDPOINT_CONTROLEP EP_TYPE_CONTROL
                    (of_nat FIXED_CONTROL_ENDPOINT_SIZE) 1 s;
        let s = USB_INT_Clear E USB_INT_SUSPI s;
        let s = USB_INT_Enable E USB_INT_SUSPI s;
        let s = USB_INT_Enable E USB_INT_EORSTI s;
        Some (USB_Attach E s)
      })"

definition USB_ResetInterface :: "environment \<Rightarrow> 'a usb_scheme \<Rightarrow> 'a usb_scheme option" where
  "USB_ResetInterface E s =
     (let s = USB_INT_DisableAllInterrupts s;
          s = USB_INT_ClearAllInterrupts s;
          s = USB_Controller_Reset E s;
          s = USB_CLK_Unfreeze E s;
          s = USB_PLL_On s
      in do {
        s \<leftarrow> wait_bit E PLLCSR PLOCK s;
        USB_Init_Device E s
      })"

definition USB_Init :: "environment \<Rightarrow> 'a usb_scheme \<Rightarrow> 'a usb_scheme option" where
  "USB_Init E s = USB_ResetInterface E ((USB_REG_On E s)\<lparr>USB_IsInitialized := True\<rparr>)"

definition USB_Disable :: "environment \<Rightarrow> 'a usb_scheme \<Rightarrow> 'a usb_scheme" where
  "USB_Disable E s =
     (let s = USB_INT_DisableAllInterrupts s;
          s = USB_INT_ClearAllInterrupts s;
          s = USB_Detach E s;
          s = USB_Controller_Disable E s;
          s = USB_PLL_Off s
      in (USB_REG_Off E s)\<lparr>USB_IsInitialized := False\<rparr>)"

definition USB_Device_SendRemoteWakeup :: "environment \<Rightarrow> 'a usb_scheme \<Rightarrow> 'a usb_scheme option" where
  "USB_Device_SendRemoteWakeup E s = do {
     s \<leftarrow> wait_bit E PLLCSR PLOCK (USB_PLL_On s);
     wait_bit_clear E UDCON RMWKUP (set_bits E UDCON (BV RMWKUP) (USB_CLK_Unfreeze E s))
   }"

section \<open>The general USB interrupt\<close>

text \<open>The event handlers called here are empty: two in \<open>Joystick.c\<close>, two stubs of LUFA.\<close>

definition EVENT_USB_Device_Connect :: "'s \<Rightarrow> 's" where
  "EVENT_USB_Device_Connect s = s"

definition EVENT_USB_Device_Disconnect :: "'s \<Rightarrow> 's" where
  "EVENT_USB_Device_Disconnect s = s"

definition USB_Event_Stub :: "'s \<Rightarrow> 's" where
  "USB_Event_Stub s = s"

text \<open>\<open>if (USB_INT_HasOccurred(i) && USB_INT_IsEnabled(i)) body\<close>.\<close>

definition on_interrupt ::
  "environment \<Rightarrow> USB_Interrupts_t \<Rightarrow> ('a usb_scheme \<Rightarrow> 'a usb_scheme option) \<Rightarrow>
   'a usb_scheme \<Rightarrow> 'a usb_scheme option" where
  "on_interrupt E i body s =
     (let (occurred, s) = USB_INT_HasOccurred E i s in
      if \<not> occurred then Some s else
      let (enabled, s) = USB_INT_IsEnabled E i s in
      if enabled then body s else Some s)"

definition handle_SOFI :: "environment \<Rightarrow> 'a usb_scheme \<Rightarrow> 'a usb_scheme option" where
  "handle_SOFI E s = Some (USB_Event_Stub (USB_INT_Clear E USB_INT_SOFI s))"

definition handle_SUSPI :: "environment \<Rightarrow> 'a usb_scheme \<Rightarrow> 'a usb_scheme option" where
  "handle_SUSPI E s =
     (let s = USB_INT_Disable E USB_INT_SUSPI s;
          s = USB_INT_Enable E USB_INT_WAKEUPI s;
          s = USB_CLK_Freeze E s;
          s = USB_PLL_Off s
      in Some (EVENT_USB_Device_Disconnect (s\<lparr>USB_DeviceState := DEVICE_STATE_Unattached\<rparr>)))"

definition handle_WAKEUPI :: "environment \<Rightarrow> 'a usb_scheme \<Rightarrow> 'a usb_scheme option" where
  "handle_WAKEUPI E s = do {
     s \<leftarrow> wait_bit E PLLCSR PLOCK (USB_PLL_On s);
     let s = USB_CLK_Unfreeze E s;
     let s = USB_INT_Clear E USB_INT_WAKEUPI s;
     let s = USB_INT_Disable E USB_INT_WAKEUPI s;
     let s = USB_INT_Enable E USB_INT_SUSPI s;
     let s = (if USB_Device_ConfigurationNumber s \<noteq> 0
              then s\<lparr>USB_DeviceState := DEVICE_STATE_Configured\<rparr>
              else let (b, s) = USB_Device_IsAddressSet E s in
                s\<lparr>USB_DeviceState := if b then DEVICE_STATE_Addressed else DEVICE_STATE_Powered\<rparr>);
     Some (EVENT_USB_Device_Connect s)
   }"

definition handle_EORSTI :: "environment \<Rightarrow> 'a usb_scheme \<Rightarrow> 'a usb_scheme option" where
  "handle_EORSTI E s = do {
     let s = USB_INT_Clear E USB_INT_EORSTI s;
     let s = s\<lparr>USB_DeviceState := DEVICE_STATE_Default, USB_Device_ConfigurationNumber := 0\<rparr>;
     let s = USB_INT_Clear E USB_INT_SUSPI s;
     let s = USB_INT_Disable E USB_INT_SUSPI s;
     let s = USB_INT_Enable E USB_INT_WAKEUPI s;
     (_, s) \<leftarrow> Endpoint_ConfigureEndpoint E ENDPOINT_CONTROLEP EP_TYPE_CONTROL
                 (of_nat FIXED_CONTROL_ENDPOINT_SIZE) 1 s;
     Some (USB_Event_Stub s)
   }"

definition USB_GEN_vect :: "environment \<Rightarrow> 'a usb_scheme \<Rightarrow> 'a usb_scheme option" where
  "USB_GEN_vect E s = do {
     s \<leftarrow> on_interrupt E USB_INT_SOFI (handle_SOFI E) s;
     s \<leftarrow> on_interrupt E USB_INT_SUSPI (handle_SUSPI E) s;
     s \<leftarrow> on_interrupt E USB_INT_WAKEUPI (handle_WAKEUPI E) s;
     on_interrupt E USB_INT_EORSTI (handle_EORSTI E) s
   }"

section \<open>The controller starts\<close>

lemma ConfigureEndpoint_control:
  "\<exists>ok t. Endpoint_ConfigureEndpoint E ENDPOINT_CONTROLEP EP_TYPE_CONTROL
     (of_nat FIXED_CONTROL_ENDPOINT_SIZE) 1 s = Some (ok, t) \<and> usb.more t = usb.more s"
proof -
  obtain p where p: "Endpoint_ConfigureEndpoint E ENDPOINT_CONTROLEP EP_TYPE_CONTROL
     (of_nat FIXED_CONTROL_ENDPOINT_SIZE) 1 s = Some p"
    by (simp add: Endpoint_ConfigureEndpoint_def EPSizeMask_32)
  with usb_more_ConfigureEndpoint show ?thesis by (cases p) blast
qed

text \<open>The PLL locks after finitely many polls, whenever it is polled.\<close>

definition PLL_locks :: "environment \<Rightarrow> bool" where
  "PLL_locks E \<longleftrightarrow> (\<forall>l. \<exists>k. bit (reg_value E PLLCSR (polled E PLLCSR k l)) PLOCK)"

lemma USB_Init_total:
  assumes "PLL_locks E"
  shows "\<exists>t. USB_Init E s = Some t"
proof -
  have wait: "\<exists>t. wait_bit E PLLCSR PLOCK u = Some t" for u :: "'a usb_scheme"
  proof -
    obtain k where "bit (reg_value E PLLCSR (polled E PLLCSR k (io_log u))) PLOCK"
      using assms by (auto simp: PLL_locks_def)
    then show ?thesis by (rule wait_bit_returns)
  qed
  have dev: "\<exists>t. USB_Init_Device E u = Some t" for u :: "'a usb_scheme"
  proof -
    let ?u = "u\<lparr>USB_DeviceState := DEVICE_STATE_Unattached, USB_Device_ConfigurationNumber := 0,
                USB_Device_RemoteWakeupEnabled := False, USB_Device_CurrentlySelfPowered := False\<rparr>"
    obtain ok t where "Endpoint_ConfigureEndpoint E ENDPOINT_CONTROLEP EP_TYPE_CONTROL
        (of_nat FIXED_CONTROL_ENDPOINT_SIZE) 1 ?u = Some (ok, t)"
      using ConfigureEndpoint_control [of E ?u] by blast
    then show ?thesis by (simp add: USB_Init_Device_def)
  qed
  let ?s = "USB_PLL_On (USB_CLK_Unfreeze E (USB_Controller_Reset E (USB_INT_ClearAllInterrupts
    (USB_INT_DisableAllInterrupts ((USB_REG_On E s)\<lparr>USB_IsInitialized := True\<rparr>)))))"
  from wait [of ?s] obtain u where "wait_bit E PLLCSR PLOCK ?s = Some u" ..
  with dev [of u] show ?thesis by (simp add: USB_Init_def USB_ResetInterface_def)
qed

lemma more_eqD:
  assumes "io_st.more t = io_st.more (s :: 'a usb_scheme)"
  shows "USB_DeviceState t = USB_DeviceState s" "USB_IsInitialized t = USB_IsInitialized s"
    "USB_Device_ConfigurationNumber t = USB_Device_ConfigurationNumber s"
    "USB_ControlRequest t = USB_ControlRequest s" "usb.more t = usb.more s"
  using assms by (cases s; cases t; simp)+

lemmas controller_defs =
  USB_INT_Enable_def USB_INT_Disable_def USB_INT_Clear_def USB_INT_HasOccurred_def
  USB_INT_IsEnabled_def USB_CLK_Freeze_def USB_CLK_Unfreeze_def USB_PLL_On_def USB_PLL_Off_def
  USB_REG_On_def USB_REG_Off_def USB_Attach_def USB_Detach_def USB_Controller_Enable_def
  USB_Controller_Disable_def USB_Controller_Reset_def USB_INT_DisableAllInterrupts_def
  USB_INT_ClearAllInterrupts_def

lemma more_controller [simp]:
  "io_st.more (USB_INT_Enable E i s) = io_st.more s" "io_st.more (USB_INT_Disable E i s) = io_st.more s"
  "io_st.more (USB_INT_Clear E i s) = io_st.more s"
  "io_st.more (snd (USB_INT_HasOccurred E i s)) = io_st.more s"
  "io_st.more (snd (USB_INT_IsEnabled E i s)) = io_st.more s"
  "io_st.more (USB_Attach E s) = io_st.more s" "io_st.more (USB_REG_On E s) = io_st.more s"
  "io_st.more (USB_CLK_Freeze E s) = io_st.more s" "io_st.more (USB_CLK_Unfreeze E s) = io_st.more s"
  "io_st.more (USB_PLL_On s) = io_st.more s" "io_st.more (USB_PLL_Off s) = io_st.more s"
  "io_st.more (USB_Controller_Reset E s) = io_st.more s"
  "io_st.more (USB_INT_DisableAllInterrupts s) = io_st.more s"
  "io_st.more (USB_INT_ClearAllInterrupts s) = io_st.more s"
  by (simp_all add: controller_defs set_bits_unfold clr_bits_unfold test_bit_unfold Let_def split_def)

lemma USB_Init_state:
  assumes "USB_Init E s = Some t"
  shows "USB_DeviceState t = DEVICE_STATE_Unattached" "USB_Device_ConfigurationNumber t = 0"
    "USB_IsInitialized t" "usb.more t = usb.more s"
proof -
  let ?s = "USB_PLL_On (USB_CLK_Unfreeze E (USB_Controller_Reset E (USB_INT_ClearAllInterrupts
    (USB_INT_DisableAllInterrupts ((USB_REG_On E s)\<lparr>USB_IsInitialized := True\<rparr>)))))"
  from assms obtain u v ok where u: "wait_bit E PLLCSR PLOCK ?s = Some u"
    and v: "Endpoint_ConfigureEndpoint E ENDPOINT_CONTROLEP EP_TYPE_CONTROL
        (of_nat FIXED_CONTROL_ENDPOINT_SIZE) 1
        (u\<lparr>USB_DeviceState := DEVICE_STATE_Unattached, USB_Device_ConfigurationNumber := 0,
           USB_Device_RemoteWakeupEnabled := False, USB_Device_CurrentlySelfPowered := False\<rparr>) =
        Some (ok, v)"
    and t: "t = USB_Attach E (USB_INT_Enable E USB_INT_EORSTI (USB_INT_Enable E USB_INT_SUSPI
        (USB_INT_Clear E USB_INT_SUSPI v)))"
    by (auto simp: USB_Init_def USB_ResetInterface_def USB_Init_Device_def bind_eq_Some_conv Let_def)
  have "io_st.more u = io_st.more ((USB_REG_On E s)\<lparr>USB_IsInitialized := True\<rparr>)"
    using wait_bit_more [OF u] by simp
  from more_eqD [OF this] have "USB_IsInitialized u" "usb.more u = usb.more s"
    using more_eqD(5) [of "USB_REG_On E s" s] by simp_all
  moreover have tv: "io_st.more t = io_st.more v" by (simp add: t)
  ultimately show "USB_DeviceState t = DEVICE_STATE_Unattached" "USB_Device_ConfigurationNumber t = 0"
    "USB_IsInitialized t" "usb.more t = usb.more s"
    using more_eqD [OF more_ConfigureEndpoint [OF v]] more_eqD [OF tv] by simp_all
qed

end
