(* ===== verification/Joystick.thy ===== *)
theory Joystick
  imports Session Descriptors EndpointStream UsbController
begin

text \<open>
  The main program (\<open>Joystick.c\<close>) and \<open>send_IN_report\<close> of \<open>Response.c\<close>: hardware
  setup, the callbacks LUFA makes, the task that serves the two HID endpoints,
  and the whole firmware as a transition system in which the two interrupt
  routines run between the tasks of the main loop.
\<close>

section \<open>Callbacks\<close>

abbreviation (input) HID_REQ_SetIdle :: u8 where "HID_REQ_SetIdle \<equiv> 0x0A"

text \<open>A failed endpoint configuration ends in an endless loop, \<open>for (;;);\<close>.\<close>

definition EVENT_USB_Device_ConfigurationChanged :: "environment \<Rightarrow> firmware \<Rightarrow> firmware outcome" where
  "EVENT_USB_Device_ConfigurationChanged E s =
     obind (returns (Endpoint_ConfigureEndpoint E JOYSTICK_IN_EPADDR EP_TYPE_INTERRUPT 64 1 s)) (\<lambda>(ok1, s).
     obind (returns (Endpoint_ConfigureEndpoint E JOYSTICK_OUT_EPADDR EP_TYPE_INTERRUPT 64 1 s)) (\<lambda>(ok2, s).
     let ConfigSuccess = ok1 \<and> ok2 in
     if \<not> ConfigSuccess then let s = LEDs_SetAllLEDs E LEDMASK_NOT_SYNCED s in None
     else Some (Inr s)))"

definition EVENT_USB_Device_ControlRequest :: "environment \<Rightarrow> firmware \<Rightarrow> firmware outcome" where
  "EVENT_USB_Device_ControlRequest E s =
     (if bRequest (USB_ControlRequest s) = HID_REQ_SetIdle \<and>
         bmRequestType (USB_ControlRequest s) = REQDIR_HOSTTODEVICE OR REQTYPE_CLASS OR REQREC_INTERFACE
      then Endpoint_ClearStatusStage E (Endpoint_ClearSETUP E s)
      else Some (Inr s))"

definition joystick_app :: "environment \<Rightarrow> firmware application" where
  "joystick_app E =
     \<lparr>EVENT_ControlRequest = EVENT_USB_Device_ControlRequest E,
      EVENT_ConfigurationChanged = EVENT_USB_Device_ConfigurationChanged E,
      GetDescriptor = CALLBACK_USB_GetDescriptor\<rparr>"

section \<open>Serving the endpoints\<close>

text \<open>An operation of the response manager inside the firmware.\<close>

definition with_response :: "(response \<Rightarrow> fault + response) \<Rightarrow> firmware \<Rightarrow> firmware outcome" where
  "with_response f s =
     Some (fbind (f (response_manager s)) (\<lambda>r. Inr (s\<lparr>response_manager := r\<rparr>)))"

text \<open>Calling \<open>before_send\<close> and following \<open>selectedReportPtr\<close>, which are null before the setup.\<close>

definition call_before_send :: "environment \<Rightarrow> firmware \<Rightarrow> firmware outcome" where
  "call_before_send E s =
     (case before_send (response_manager s) of
        None \<Rightarrow> Some (Inl NullPointer)
      | Some CALLBACK_beforeSend \<Rightarrow> Some (Inr (run_beforeSend E s)))"

definition deref_selectedReport :: "firmware \<Rightarrow> fault + USB_StandardReport_t" where
  "deref_selectedReport s =
     (case selectedReportPtr (response_manager s) of
        None \<Rightarrow> Inl NullPointer
      | Some selectedReport_variable \<Rightarrow> Inr (selected_report s))"

text \<open>\<open>while (Endpoint_Write_Stream_LE(...) != ENDPOINT_RWSTREAM_NoError);\<close>\<close>

definition send_stream_step ::
  "environment \<Rightarrow> unit \<Rightarrow> firmware \<Rightarrow> ((unit, unit) turn \<times> firmware) outcome" where
  "send_stream_step E u s =
     obind (Endpoint_Write_Stream_LE E (joystick_app E) (replyBuffer (response_manager s))
              (of_nat JOYSTICK_EPSIZE) None s) (\<lambda>(e, _, _, s).
     Some (Inr (if e \<noteq> ENDPOINT_RWSTREAM_NoError then Again () else Leave, s)))"

definition send_IN_report :: "environment \<Rightarrow> firmware \<Rightarrow> firmware outcome" where
  "send_IN_report E s =
     obind (call_before_send E s) (\<lambda>s.
     obind (if \<not> nextPacketReady (response_manager s)
            then obind (Some (deref_selectedReport s)) (\<lambda>sel.
              with_response (prepare_standard_report E sel) s)
            else Some (Inr s)) (\<lambda>s.
     let s = Endpoint_SelectEndpoint JOYSTICK_IN_EPADDR s in
     obind (returns (wait_bit E UEINTX TXINI s)) (\<lambda>s.
     obind (turn_loop (send_stream_step E) () s) (\<lambda>(_, s).
     let s = Endpoint_ClearIN E s in
     Some (Inr (s\<lparr>response_manager := (response_manager s)\<lparr>nextPacketReady := False\<rparr>\<rparr>))))))"

text \<open>
  The loop that reads the OUT packet, with \<open>ReportSize\<close> as loop variable and
  \<open>switchResponseBuffer\<close>, cleared before, in the state. Bytes beyond the buffer
  are read and dropped.
\<close>

definition OUT_read_step ::
  "environment \<Rightarrow> nat \<Rightarrow> bytes \<times> firmware \<Rightarrow> ((nat, nat) turn \<times> bytes \<times> firmware) outcome" where
  "OUT_read_step E ReportSize = (\<lambda>(buf, s).
     let (allowed, s) = Endpoint_IsReadWriteAllowed E s in
     if \<not> allowed then Some (Inr (Return ReportSize, buf, s)) else
     let (b, s) = Endpoint_Read_8 E s in
     if ReportSize < JOYSTICK_EPSIZE
     then Some (fbind (store buf ReportSize b) (\<lambda>buf. Inr (Again (ReportSize + 1), buf, s)))
     else Some (Inr (Again ReportSize, buf, s)))"

definition read_OUT :: "environment \<Rightarrow> firmware \<Rightarrow> (nat \<times> bytes \<times> firmware) outcome" where
  "read_OUT E s =
     after_loop (turn_loop (OUT_read_step E) 0 (replicate JOYSTICK_EPSIZE 0, s))
       (\<lambda>t. Some (Inr (0, t)))"

definition HID_Task_OUT :: "environment \<Rightarrow> firmware \<Rightarrow> firmware outcome" where
  "HID_Task_OUT E s =
     (let s = Endpoint_SelectEndpoint JOYSTICK_OUT_EPADDR s;
          (received, s) = Endpoint_IsOUTReceived E s
      in if \<not> received then Some (Inr s) else
         obind (read_OUT E s) (\<lambda>(ReportSize, buf, s).
         let s = Endpoint_ClearOUT E s in
         obind (Some (deref_selectedReport s)) (\<lambda>sel.
         with_response (process_OUT_report E sel buf (of_nat ReportSize)) s)))"

definition HID_Task_IN :: "environment \<Rightarrow> firmware \<Rightarrow> firmware outcome" where
  "HID_Task_IN E s =
     (let s = Endpoint_SelectEndpoint JOYSTICK_IN_EPADDR s;
          (ready, s) = Endpoint_IsINReady E s
      in if ready then send_IN_report E s else Some (Inr s))"

definition HID_Task :: "environment \<Rightarrow> firmware \<Rightarrow> firmware outcome" where
  "HID_Task E s =
     (let (d, s) = read_DeviceState E s in
      if d \<noteq> DEVICE_STATE_Configured then Some (Inr s)
      else obind (HID_Task_OUT E s) (HID_Task_IN E))"

section \<open>Start\<close>

definition SetupHardware :: "environment \<Rightarrow> firmware \<Rightarrow> firmware option" where
  "SetupHardware E s =
     (let s = disable_watchdog E s;
          s = event (LibCall (ClockPrescaleSet 0)) s;
          s = USART_Init E s;
          s = LEDs_Init E s
      in USB_Init E s)"

text \<open>The static variables at reset.\<close>

definition boot :: firmware where
  "boot = \<lparr>io_log = [], USB_DeviceState = DEVICE_STATE_Unattached,
     USB_ControlRequest = \<lparr>bmRequestType = 0, bRequest = 0, wValue = 0, wIndex = 0, wLength = 0\<rparr>,
     USB_Device_ConfigurationNumber = 0, USB_Device_CurrentlySelfPowered = False,
     USB_Device_RemoteWakeupEnabled = False, USB_IsInitialized = False,
     serialInput = \<lparr>input = replicate 8 0, crc8_ccitt = 0, received_bytes = 0\<rparr>,
     controllerReport = zero_report, idleReport = zero_report, selectedReport = idleReport_ptr,
     state = OUT_OF_SYNC, millis = 0, response_manager = response_init\<rparr>"

definition main_init :: "environment \<Rightarrow> firmware \<Rightarrow> firmware outcome" where
  "main_init E s =
     (let s = s\<lparr>controllerReport := initialize_idle_report (controllerReport s)\<rparr>;
          s = s\<lparr>idleReport := initialize_idle_report (idleReport s)\<rparr>;
          s = s\<lparr>selectedReport := idleReport_ptr\<rparr>;
          s = s\<lparr>serialInput := \<lparr>input = replicate 8 0, crc8_ccitt = 0, received_bytes = 0\<rparr>\<rparr>
      in obind (with_response (setup_response_manager E CALLBACK_beforeSend selectedReport_variable) s) (\<lambda>s.
         obind (returns (SetupHardware E s)) (\<lambda>s.
         Some (Inr (event (LibCall Sei) s)))))"

definition main_turn :: "environment \<Rightarrow> firmware \<Rightarrow> firmware outcome" where
  "main_turn E s = obind (HID_Task E s) (USB_USBTask E (joystick_app E))"

end
