(* ===== verification/Firmware.thy ===== *)
theory Firmware
  imports Joystick
begin

text \<open>
  The firmware as a whole: its invariant, the absence of faults, the reports it
  reads from and sends to the console, and the reachable states under every
  interleaving of the main loop's tasks with the two interrupt routines.
\<close>

section \<open>The callbacks satisfy LUFA's contract\<close>

lemma calm_ConfigurationChanged:
  "calm usb.more (usb.more s) (EVENT_USB_Device_ConfigurationChanged E s)"
  unfolding EVENT_USB_Device_ConfigurationChanged_def Let_def
  by (auto simp: calm_iff obind_eq_Some returns_eq_Some dest!: usb_more_ConfigureEndpoint
      split: if_splits)

lemma calm_ControlRequest: "calm usb.more (usb.more s) (EVENT_USB_Device_ControlRequest E s)"
  by (auto simp: EVENT_USB_Device_ControlRequest_def request_simps intro!: calm_status)

interpretation joy: device_application E "joystick_app E" for E
  by unfold_locales
    (simp_all add: joystick_app_def GetDescriptor_size calm_ControlRequest calm_ConfigurationChanged)

section \<open>The invariant\<close>

text \<open>
  The receiver's invariant, well-formed reports and reply buffer, the idle report
  in one of its two forms, the pointers set, and a timer in steps of 8 ms up to
  one second.
\<close>

definition idle_form :: "USB_StandardReport_t \<Rightarrow> bool" where
  "idle_form r \<longleftrightarrow> (\<exists>h. r = (initialize_idle_report zero_report)\<lparr>button_home := h\<rparr>)"

lemma idle_form_home [simp]: "idle_form r \<Longrightarrow> idle_form (r\<lparr>button_home := h\<rparr>)"
  by (auto simp: idle_form_def)

lemma idle_form_idle [simp]: "idle_form (initialize_idle_report r)"
  unfolding idle_form_def
  by (rule exI [of _ False])
    (simp add: initialize_idle_report_def zero_report_def report_of_bytes_def)

definition fw_inv :: "firmware \<Rightarrow> bool" where
  "fw_inv s \<longleftrightarrow>
     rx_inv s \<and> wf_report (controllerReport s) \<and>
     idle_form (idleReport s) \<and>
     wf_response (response_manager s) \<and>
     before_send (response_manager s) = Some CALLBACK_beforeSend \<and>
     selectedReportPtr (response_manager s) = Some selectedReport_variable \<and>
     unat (millis s) \<le> 1000 \<and> 8 dvd unat (millis s)"

lemma firmware_fields:
  assumes "usb.more t = usb.more (s :: firmware)"
  shows "serialInput t = serialInput s" "controllerReport t = controllerReport s"
    "idleReport t = idleReport s" "selectedReport t = selectedReport s" "state t = state s"
    "millis t = millis s" "response_manager t = response_manager s"
  using assms by (cases s; cases t; simp)+

lemma fw_inv_more: "fw_inv s \<Longrightarrow> usb.more t = usb.more s \<Longrightarrow> fw_inv t"
  using firmware_fields [of t s] by (simp add: fw_inv_def rx_inv_def)

lemma wf_idle: "idle_form r \<Longrightarrow> wf_report r"
  by (auto simp: idle_form_def wf_report_def initialize_idle_report_def stick_bytes_def)

lemma wf_selected: "fw_inv s \<Longrightarrow> wf_report (selected_report s)"
  using wf_idle by (auto simp: fw_inv_def selected_report_def split: selected.splits)

lemma next_millis_8:
  assumes "unat m \<le> 1000" "8 dvd unat m"
  shows "unat (next_millis m) \<le> 1000" "8 dvd unat (next_millis m)"
proof -
  have "unat (m + 8) = unat m + 8" using assms(1) by (subst unat_add_lem [THEN iffD1]) auto
  moreover have "unat m + 8 \<le> 1000" if "unat m < 1000" using assms(2) that by presburger
  ultimately show "unat (next_millis m) \<le> 1000" "8 dvd unat (next_millis m)"
    using assms by (auto simp: next_millis_def word_less_nat_alt)
qed

lemma fw_inv_beforeSend: "fw_inv s \<Longrightarrow> fw_inv (run_beforeSend E s)"
proof (cases "state s = SYNCED")
  case True
  then show "fw_inv s \<Longrightarrow> ?thesis"
    by (simp add: fw_inv_def rx_inv_def beforeSend_synced_fields next_millis_8)
next
  case False
  then show "fw_inv s \<Longrightarrow> ?thesis"
    by (simp add: fw_inv_def rx_inv_def beforeSend_unsynced_fields)
qed

lemma wf_populate: "wf_report (populate_report_from_serial p r)"
  by (simp add: wf_report_def populate_report_from_serial_def Let_def stick_bytes_def)

lemma fw_inv_rx_byte: "fw_inv s \<Longrightarrow> rx_byte E b s = Some t \<Longrightarrow> fw_inv t"
  using rx_byte_refines [of s E b t]
  by (auto simp: fw_inv_def rx_effect_def wf_populate split: if_splits)

lemma fw_inv_USART1_RX: "fw_inv s \<Longrightarrow> USART1_RX_vect E s = Some t \<Longrightarrow> fw_inv t"
  by (auto simp: USART1_RX_vect_def bind_eq_Some_conv
      intro: fw_inv_rx_byte fw_inv_more [OF _ usb_more_io [OF recv_byte_Some(1)]])

lemma fw_inv_response:
  assumes "fw_inv s" "f (response_manager s) = Inr r" "reply_op f"
  shows "fw_inv (s\<lparr>response_manager := r\<rparr>)"
  using assms reply_op.keeps_wf [OF assms(3,2)] reply_op.keeps_pointers [OF assms(3,2)]
  by (simp add: fw_inv_def rx_inv_def)

section \<open>Reading an OUT packet\<close>

text \<open>
  The buffer after \<open>bs\<close> was read: its first 64 bytes, then zeros.
\<close>

definition OUT_buffer :: "bytes \<Rightarrow> bytes" where
  "OUT_buffer bs = padded (take JOYSTICK_EPSIZE bs)"

lemma length_OUT_buffer [simp]: "length (OUT_buffer bs) = JOYSTICK_EPSIZE"
  by (simp add: OUT_buffer_def)

lemma OUT_buffer_snoc:
  "length bs < JOYSTICK_EPSIZE \<Longrightarrow> (OUT_buffer bs)[length bs := b] = OUT_buffer (bs @ [b])"
  by (simp add: OUT_buffer_def list_update_padded)

lemma OUT_buffer_full:
  "JOYSTICK_EPSIZE \<le> length bs \<Longrightarrow> OUT_buffer (bs @ [b]) = OUT_buffer bs"
  by (simp add: OUT_buffer_def)

definition OUT_read ::
  "firmware \<Rightarrow> nat \<Rightarrow> bytes \<times> firmware \<Rightarrow> bool" where
  "OUT_read s n t \<longleftrightarrow> io_st.more (snd t) = io_st.more s \<and>
     (\<exists>bs. read_from UEDATX (io_log (snd t)) = read_from UEDATX (io_log s) @ bs \<and>
       fst t = OUT_buffer bs \<and> n = min JOYSTICK_EPSIZE (length bs))"

lemma OUT_read_step_again:
  assumes "OUT_read s n t" "OUT_read_step E n t = Some (Inr (Again m, u))"
  shows "OUT_read s m u"
proof -
  obtain buf v where t: "t = (buf, v)" by (cases t)
  from assms(1) t obtain bs where bs: "io_st.more v = io_st.more s"
    "read_from UEDATX (io_log v) = read_from UEDATX (io_log s) @ bs" "buf = OUT_buffer bs"
    "n = min JOYSTICK_EPSIZE (length bs)" by (auto simp: OUT_read_def)
  obtain b w where w: "io_st.more w = io_st.more v"
    "read_from UEDATX (io_log w) = read_from UEDATX (io_log v) @ [b]" and
    u: "if n < JOYSTICK_EPSIZE then m = n + 1 \<and> store buf n b = Inr (fst u) \<and> snd u = w
        else m = n \<and> u = (buf, w)"
    using assms(2) t by (fastforce simp: OUT_read_step_def endpoint_simps fbind_eq_Inr split: if_splits)
  show ?thesis
  proof (cases "length bs < JOYSTICK_EPSIZE")
    case True
    with u bs have "m = n + 1" "fst u = OUT_buffer (bs @ [b])" "snd u = w"
      by (auto simp: store_in OUT_buffer_snoc)
    with bs w True show ?thesis by (auto simp: OUT_read_def)
  next
    case False
    with u bs have "m = n" "fst u = OUT_buffer (bs @ [b])" "snd u = w"
      by (auto simp: OUT_buffer_full)
    with bs w False show ?thesis by (auto simp: OUT_read_def)
  qed
qed

lemma OUT_read_step_return:
  "OUT_read s n t \<Longrightarrow> OUT_read_step E n t = Some (Inr (Return m, u)) \<Longrightarrow> OUT_read s m u"
  by (auto simp: OUT_read_step_def OUT_read_def endpoint_simps split_def fbind_eq_Inr split: if_splits)

lemma OUT_read_step_total:
  "OUT_read s n t \<Longrightarrow> OUT_read_step E n t \<noteq> Some (Inl e) \<and> OUT_read_step E n t \<noteq> Some (Inr (Leave, u))"
  by (auto simp: OUT_read_step_def OUT_read_def endpoint_simps split_def store_in fbind_eq_Inr
      split: if_splits)

lemma read_OUT_ends:
  assumes "read_OUT E s = Some y"
  obtains bs t where "y = Inr (min JOYSTICK_EPSIZE (length bs), OUT_buffer bs, t)"
    "io_st.more t = io_st.more s"
    "read_from UEDATX (io_log t) = read_from UEDATX (io_log s) @ bs"
proof -
  let ?loop = "turn_loop (OUT_read_step E) 0 (replicate JOYSTICK_EPSIZE 0, s)"
  have init: "OUT_read s 0 (replicate JOYSTICK_EPSIZE 0, s)"
    by (simp add: OUT_read_def OUT_buffer_def padded_def)
  have loop: "case z of Inl e \<Rightarrow> False | Inr (r, t) \<Rightarrow> \<exists>n. r = Some n \<and> OUT_read s n t"
    if "?loop = Some z" for z
  proof (rule turn_loop_rule [OF that, where I = "OUT_read s"])
    show "OUT_read s d t" if "OUT_read s c x" "OUT_read_step E c x = Some (Inr (Again d, t))"
      for c x d t using that by (rule OUT_read_step_again)
    show "\<exists>n. Some r = Some n \<and> OUT_read s n t"
      if "OUT_read s c x" "OUT_read_step E c x = Some (Inr (Return r, t))" for c x r t
      using OUT_read_step_return [OF that] by simp
  qed (use init OUT_read_step_total in blast)+
  from assms obtain z where z: "?loop = Some z"
    by (auto simp: read_OUT_def after_loop_def obind_def split: option.splits)
  from loop [OF z] obtain n buf t where "z = Inr (Some n, buf, t)" "OUT_read s n (buf, t)"
    by (auto split: sum.splits)
  with z assms that show thesis
    by (auto simp: read_OUT_def after_loop_def OUT_read_def)
qed

section \<open>One OUT packet\<close>

lemma deref_inv: "fw_inv s \<Longrightarrow> deref_selectedReport s = Inr (selected_report s)"
  by (simp add: fw_inv_def deref_selectedReport_def)

lemma selected_report_more:
  "usb.more t = usb.more s \<Longrightarrow> selected_report t = selected_report s"
  using firmware_fields [of t s] by (simp add: selected_report_def split: selected.split)

lemma usb_more_ops [simp]:
  "usb.more (Endpoint_SelectEndpoint a s) = usb.more s"
  "usb.more (Endpoint_ClearOUT E s) = usb.more s"
  "usb.more (Endpoint_ClearIN E s) = usb.more s"
  "usb.more (snd (Endpoint_IsOUTReceived E s)) = usb.more s"
  "usb.more (snd (Endpoint_IsINReady E s)) = usb.more s"
  by (simp_all add: endpoint_simps)

lemma read_from_ops [simp]:
  "read_from UEDATX (io_log (Endpoint_SelectEndpoint a s)) = read_from UEDATX (io_log s)"
  "read_from UEDATX (io_log (Endpoint_ClearOUT E s)) = read_from UEDATX (io_log s)"
  "read_from UEDATX (io_log (snd (Endpoint_IsOUTReceived E s))) = read_from UEDATX (io_log s)"
  by (simp_all add: endpoint_simps)

text \<open>Either there is no packet, or its bytes are read and handed to the dispatcher.\<close>

lemma HID_Task_OUT_cases:
  assumes "fw_inv s" "HID_Task_OUT E s = Some y"
  obtains (none) t where "y = Inr t" "usb.more t = usb.more s"
      "read_from UEDATX (io_log t) = read_from UEDATX (io_log s)"
  | (packet) bs t where "usb.more t = usb.more s"
      "read_from UEDATX (io_log t) = read_from UEDATX (io_log s) @ bs"
      "y = fbind (process_OUT_report E (selected_report s) (OUT_buffer bs)
             (of_nat (min JOYSTICK_EPSIZE (length bs))) (response_manager s))
           (\<lambda>r. Inr (t\<lparr>response_manager := r\<rparr>))"
proof -
  let ?s1 = "Endpoint_SelectEndpoint JOYSTICK_OUT_EPADDR s"
  let ?s2 = "snd (Endpoint_IsOUTReceived E ?s1)"
  show thesis
  proof (cases "fst (Endpoint_IsOUTReceived E ?s1)")
    case False
    then have "y = Inr ?s2" using assms(2) by (simp add: HID_Task_OUT_def split_def Let_def)
    then show thesis by (rule none) simp_all
  next
    case True
    then have run: "obind (read_OUT E ?s2) (\<lambda>(ReportSize, buf, s).
         obind (Some (deref_selectedReport (Endpoint_ClearOUT E s))) (\<lambda>sel.
         with_response (process_OUT_report E sel buf (of_nat ReportSize)) (Endpoint_ClearOUT E s)))
       = Some y" using assms(2) by (simp add: HID_Task_OUT_def split_def Let_def)
    then obtain z where z: "read_OUT E ?s2 = Some z" by (auto simp: obind_eq_Some)
    then obtain bs t where t: "z = Inr (min JOYSTICK_EPSIZE (length bs), OUT_buffer bs, t)"
      "io_st.more t = io_st.more ?s2"
      "read_from UEDATX (io_log t) = read_from UEDATX (io_log ?s2) @ bs" by (rule read_OUT_ends)
    let ?t = "Endpoint_ClearOUT E t"
    have more: "usb.more ?t = usb.more s" using usb_more_io [OF t(2)] by simp
    with assms(1) have "fw_inv ?t" by (rule fw_inv_more)
    with run z t(1) firmware_fields [OF more] selected_report_more [OF more]
    have "y = fbind (process_OUT_report E (selected_report s) (OUT_buffer bs)
             (of_nat (min JOYSTICK_EPSIZE (length bs))) (response_manager s))
           (\<lambda>r. Inr (?t\<lparr>response_manager := r\<rparr>))"
      by (simp add: deref_inv with_response_def)
    with more t(3) show thesis by (intro packet [of ?t bs]) simp_all
  qed
qed

lemma fw_inv_HID_Task_OUT:
  assumes "fw_inv s" "HID_Task_OUT E s = Some (Inr t)"
  shows "fw_inv t"
  using assms
proof (cases rule: HID_Task_OUT_cases)
  case (none u)
  with assms(1) show ?thesis using fw_inv_more by simp
next
  case (packet bs u)
  let ?f = "process_OUT_report E (selected_report s) (OUT_buffer bs)
             (of_nat (min JOYSTICK_EPSIZE (length bs)))"
  from packet(3) [symmetric] obtain r where r: "?f (response_manager s) = Inr r"
    "t = u\<lparr>response_manager := r\<rparr>" by (auto simp: fbind_eq_Inr)
  have "fw_inv u" using assms(1) packet(1) by (rule fw_inv_more)
  moreover have "response_manager u = response_manager s" using packet(1) by (rule firmware_fields)
  ultimately show ?thesis
    unfolding r(2) using r(1)
    by (intro fw_inv_response [where f = ?f]) (simp_all add: process_OUT_report_reply_op)
qed

lemma HID_Task_OUT_fault:
  assumes "fw_inv s" "HID_Task_OUT E s = Some (Inl f)"
  shows "f = OutOfBounds \<and> \<not> nextPacketReady (response_manager s) \<and>
    (\<exists>bs. overflow_request (OUT_buffer bs) (of_nat (min JOYSTICK_EPSIZE (length bs))))"
  using assms
proof (cases rule: HID_Task_OUT_cases)
  case (packet bs u)
  let ?n = "of_nat (min JOYSTICK_EPSIZE (length bs)) :: u8"
  let ?f = "process_OUT_report E (selected_report s) (OUT_buffer bs) ?n"
  from packet(3) have f: "?f (response_manager s) = Inl f"
    by (cases "?f (response_manager s)") simp_all
  from assms(1) have wf: "wf_response (response_manager s)" "wf_report (selected_report s)"
    by (auto simp: fw_inv_def wf_selected)
  have pending: "\<not> nextPacketReady (response_manager s)"
  proof
    assume "nextPacketReady (response_manager s)"
    with reply_op.pending_kept [OF process_OUT_report_reply_op] f show False by simp
  qed
  moreover have "overflow_request (OUT_buffer bs) ?n"
  proof (rule ccontr)
    assume "\<not> overflow_request (OUT_buffer bs) ?n"
    with process_OUT_report_spec [of _ _ "OUT_buffer bs" ?n E] pending wf f show False by simp
  qed
  moreover have "f = OutOfBounds"
    using process_OUT_report_overflow [of "response_manager s" "selected_report s" "OUT_buffer bs" ?n E]
      calculation wf f by simp
  ultimately show ?thesis by blast
qed simp

section \<open>Sending a report\<close>

text \<open>The packet the next IN transfer carries.\<close>

definition next_packet :: "firmware \<Rightarrow> response \<Rightarrow> bytes" where
  "next_packet s r = (if nextPacketReady r then replyBuffer r
     else padded (0x30 # (counter r + 3) # report_bytes (selected_report s)))"

lemma fw_inv_call_before_send:
  "fw_inv s \<Longrightarrow> call_before_send E s = Some (Inr (run_beforeSend E s))"
  by (simp add: fw_inv_def call_before_send_def)

text \<open>The reply buffer once \<open>send_IN_report\<close> starts to transmit.\<close>

definition prepared :: "environment \<Rightarrow> firmware \<Rightarrow> firmware" where
  "prepared E s = (let t = run_beforeSend E s in
     if nextPacketReady (response_manager t) then t
     else t\<lparr>response_manager := respond (selected_report t) Standard (response_manager t)\<rparr>)"

definition reply_sent :: "firmware \<Rightarrow> firmware" where
  "reply_sent s = s\<lparr>response_manager := (response_manager s)\<lparr>nextPacketReady := False\<rparr>\<rparr>"

definition transmit :: "environment \<Rightarrow> firmware \<Rightarrow> firmware outcome" where
  "transmit E s =
    obind (returns (wait_bit E UEINTX TXINI (Endpoint_SelectEndpoint JOYSTICK_IN_EPADDR s))) (\<lambda>s.
     obind (turn_loop (send_stream_step E) () s) (\<lambda>(_, s). Some (Inr (reply_sent (Endpoint_ClearIN E s)))))"

lemma send_prepared:
  assumes "fw_inv s"
  shows "send_IN_report E s = transmit E (prepared E s)"
proof -
  let ?t = "run_beforeSend E s"
  have inv: "fw_inv ?t" using assms by (rule fw_inv_beforeSend)
  then have "(if \<not> nextPacketReady (response_manager ?t)
      then obind (Some (deref_selectedReport ?t)) (\<lambda>sel. with_response (prepare_standard_report E sel) ?t)
      else Some (Inr ?t)) = Some (Inr (prepared E s))"
    using prepare_standard_report_closed [of "response_manager ?t" "selected_report ?t" E]
      wf_selected [OF inv]
    by (simp add: deref_inv prepared_def with_response_def fw_inv_def Let_def)
  then show ?thesis
    using assms
    by (simp add: send_IN_report_def transmit_def reply_sent_def fw_inv_call_before_send Let_def)
qed

lemma fw_inv_prepared: "fw_inv s \<Longrightarrow> fw_inv (prepared E s)"
proof -
  assume "fw_inv s"
  then have inv: "fw_inv (run_beforeSend E s)" by (rule fw_inv_beforeSend)
  moreover have "wf_report (selected_report (run_beforeSend E s))" using inv by (rule wf_selected)
  ultimately show ?thesis
    by (auto simp: prepared_def Let_def fw_inv_def rx_inv_def ready_def wf_response_def)
qed

lemma calm_send_loop:
  assumes "fw_inv s"
  shows "calm (usb.more \<circ> snd) (usb.more s) (turn_loop (send_stream_step E) () s)"
proof (rule calm_turn_loop)
  fix c and t :: firmware
  assume more: "usb.more t = usb.more s"
  let ?b = "replyBuffer (response_manager t)"
  from assms more have "fw_inv t" by (rule fw_inv_more)
  then have len: "unat (of_nat JOYSTICK_EPSIZE :: u16) \<le> length ?b"
    by (simp add: fw_inv_def wf_response_def)
  show "calm (usb.more \<circ> snd) (usb.more s) (send_stream_step E c t)"
    unfolding send_stream_step_def
    by (rule calm_obind_view [OF joy.calm_Write_Stream_LE [OF len]]) (use more in auto)
qed simp

lemma usb_more_reply_sent:
  "usb.more t = usb.more s \<Longrightarrow> usb.more (reply_sent t) = usb.more (reply_sent s)"
  by (cases s; cases t) (simp add: reply_sent_def)

lemma calm_transmit:
  assumes "fw_inv s"
  shows "calm usb.more (usb.more (reply_sent s)) (transmit E s)"
proof -
  have loop: "calm (usb.more \<circ> snd) (usb.more s) (turn_loop (send_stream_step E) () t)"
    if "usb.more t = usb.more s" for t
    using calm_send_loop [OF fw_inv_more [OF assms that]] that by simp
  have rest: "calm usb.more (usb.more (reply_sent s))
      (obind (turn_loop (send_stream_step E) () t) (\<lambda>(_, s). Some (Inr (reply_sent (Endpoint_ClearIN E s)))))"
    if "usb.more t = usb.more s" for t
    by (rule calm_obind_view [OF loop [OF that]]) (auto intro!: usb_more_reply_sent)
  have wait: "calm usb.more (usb.more s)
      (returns (wait_bit E UEINTX TXINI (Endpoint_SelectEndpoint JOYSTICK_IN_EPADDR s)))"
    by (rule calm_returns) (auto dest: usb_more_wait_bit)
  show ?thesis unfolding transmit_def by (rule calm_obind_view [OF wait rest])
qed

lemma fw_inv_send_IN_report:
  assumes "fw_inv s" "send_IN_report E s = Some (Inr t)"
  shows "fw_inv t"
proof -
  have p: "fw_inv (prepared E s)" using assms(1) by (rule fw_inv_prepared)
  then have "fw_inv (reply_sent (prepared E s))"
    by (simp add: fw_inv_def rx_inv_def wf_response_def reply_sent_def)
  moreover have "usb.more t = usb.more (reply_sent (prepared E s))"
    using calm_transmit [OF p, of E] assms by (simp add: send_prepared)
  ultimately show ?thesis by (rule fw_inv_more)
qed

lemma send_IN_report_no_fault: "fw_inv s \<Longrightarrow> send_IN_report E s \<noteq> Some (Inl f)"
  using calm_transmit [OF fw_inv_prepared, of s E E] by (auto simp: send_prepared)

text \<open>
  With an endpoint that accepts data, the call returns and has written exactly the
  64 bytes of the packet to the data register.
\<close>

lemma written_to_beforeSend:
  "written_to UEDATX (io_log (run_beforeSend E s)) = written_to UEDATX (io_log s)"
  by (simp add: run_beforeSend_def beforeSend_synced_def LEDs_SetAllLEDs_def disable_rx_isr_def
      enable_rx_isr_def rd_pair set_bits_unfold clr_bits_unfold Let_def)

lemma written_to_eq: "written l' = written l \<Longrightarrow> written_to r l' = written_to r l"
  by (simp add: written_to_def)

lemma written_to_append:
  "written l' = written l @ map (Pair r) bs \<Longrightarrow> written_to r l' = written_to r l @ bs"
  by (induction bs arbitrary: l rule: rev_induct) (auto simp: written_to_def o_def filter_map)

lemma transmit_accepting:
  assumes "fw_inv s" "IN_accepting E"
  shows "\<exists>t. transmit E s = Some (Inr t) \<and> usb.more t = usb.more (reply_sent s) \<and>
    written_to UEDATX (io_log t) = written_to UEDATX (io_log s) @ replyBuffer (response_manager s)"
proof -
  let ?b = "replyBuffer (response_manager s)"
  have b: "length ?b = 64" using assms(1) by (simp add: fw_inv_def wf_response_def)
  obtain s1 where wait: "wait_bit E UEINTX TXINI (Endpoint_SelectEndpoint JOYSTICK_IN_EPADDR s) = Some s1"
    and s1: "usb.more s1 = usb.more s" "current_ep (io_log s1) = Some 1"
      "written_to UEDATX (io_log s1) = written_to UEDATX (io_log s)"
  proof
    show "wait_bit E UEINTX TXINI (Endpoint_SelectEndpoint JOYSTICK_IN_EPADDR s) =
        Some (snd (rd E UEINTX (Endpoint_SelectEndpoint JOYSTICK_IN_EPADDR s)))"
      using assms(2) by (intro wait_bit_now) (simp add: IN_accepting_now endpoint_simps)
  qed (use assms(2) in \<open>simp_all add: endpoint_simps\<close>)
  have rm: "response_manager s1 = response_manager s" using s1(1) by (rule firmware_fields)
  from assms(2) s1(2) b obtain t where t: "Endpoint_Write_Stream_LE E (joystick_app E) ?b
      (of_nat JOYSTICK_EPSIZE) None s1 = Some (Inr (ENDPOINT_RWSTREAM_NoError, None, ?b, t))"
    "io_st.more t = io_st.more s1"
    "written (io_log t) = written (io_log s1) @ map (Pair UEDATX) (take 64 ?b)"
    using Write_Stream_LE_accepting [of E s1 "of_nat JOYSTICK_EPSIZE" ?b "joystick_app E"] by auto
  then have "turn_loop (send_stream_step E) () s1 = Some (Inr (None, t))"
    by (intro turn_loop_Leave) (simp add: send_stream_step_def rm)
  with wait have "transmit E s = Some (Inr (reply_sent (Endpoint_ClearIN E t)))"
    by (simp add: transmit_def)
  moreover have "usb.more (reply_sent (Endpoint_ClearIN E t)) = usb.more (reply_sent s)"
    using usb_more_io [OF t(2)] s1(1) by (intro usb_more_reply_sent) simp
  moreover have "written_to UEDATX (io_log (reply_sent (Endpoint_ClearIN E t))) =
      written_to UEDATX (io_log s) @ ?b"
    using written_to_append [OF t(3)] s1(3) b by (simp add: reply_sent_def endpoint_simps)
  ultimately show ?thesis by blast
qed

lemma prepared_packet:
  "replyBuffer (response_manager (prepared E s)) =
     next_packet (run_beforeSend E s) (response_manager s)"
  "written_to UEDATX (io_log (prepared E s)) = written_to UEDATX (io_log s)"
  by (cases "state s = SYNCED";
      simp add: prepared_def next_packet_def Let_def ready_def beforeSend_fields written_to_beforeSend)+

lemma HID_Task_IN_cases:
  assumes "HID_Task_IN E s = Some y"
  obtains u where "usb.more u = usb.more s" "y = Inr u \<or> send_IN_report E u = Some y"
proof -
  let ?u = "snd (Endpoint_IsINReady E (Endpoint_SelectEndpoint JOYSTICK_IN_EPADDR s))"
  have "y = Inr ?u \<or> send_IN_report E ?u = Some y"
    using assms by (auto simp: HID_Task_IN_def split_def Let_def split: if_splits)
  then show thesis by (rule that [rotated]) simp
qed

lemma HID_Task_IN_safe:
  assumes "fw_inv s" "HID_Task_IN E s = Some y"
  shows "\<exists>t. y = Inr t \<and> fw_inv t"
proof -
  from assms(2) obtain u where u: "usb.more u = usb.more s" "y = Inr u \<or> send_IN_report E u = Some y"
    by (rule HID_Task_IN_cases)
  from assms(1) u(1) have inv: "fw_inv u" by (rule fw_inv_more)
  show ?thesis
  proof (cases y)
    case (Inl f)
    with u(2) send_IN_report_no_fault [OF inv] show ?thesis by auto
  next
    case (Inr t)
    with u(2) inv fw_inv_send_IN_report [OF inv] show ?thesis by auto
  qed
qed

lemma read_DeviceState_inv: "fw_inv s \<Longrightarrow> fw_inv (snd (read_DeviceState E s))"
  by (rule fw_inv_more) simp_all

lemma HID_Task_inv:
  assumes "fw_inv s" "HID_Task E s = Some (Inr t)"
  shows "fw_inv t"
  using assms HID_Task_IN_safe fw_inv_HID_Task_OUT read_DeviceState_inv [of s E]
  by (fastforce simp: HID_Task_def split_def Let_def obind_eq_Some split: if_splits)

lemma HID_Task_fault:
  assumes "fw_inv s" "HID_Task E s = Some (Inl f)"
  shows "fst (read_DeviceState E s) = DEVICE_STATE_Configured \<and>
    HID_Task_OUT E (snd (read_DeviceState E s)) = Some (Inl f)"
  using assms HID_Task_IN_safe fw_inv_HID_Task_OUT read_DeviceState_inv [of s E]
  by (fastforce simp: HID_Task_def split_def Let_def obind_eq_Some split: if_splits)

lemma USBTask_inv: "fw_inv s \<Longrightarrow> USB_USBTask E (joystick_app E) s = Some (Inr t) \<Longrightarrow> fw_inv t"
  using joy.calm_USBTask [of s E] by (auto intro: fw_inv_more)

lemma USBTask_no_fault: "USB_USBTask E (joystick_app E) s \<noteq> Some (Inl f)"
  using joy.calm_USBTask [of s E] by auto

section \<open>The USB interrupt\<close>

lemma usb_more_INT [simp]:
  "usb.more (USB_INT_Enable E i s) = usb.more s" "usb.more (USB_INT_Disable E i s) = usb.more s"
  "usb.more (USB_INT_Clear E i s) = usb.more s"
  "usb.more (snd (USB_INT_HasOccurred E i s)) = usb.more s"
  "usb.more (snd (USB_INT_IsEnabled E i s)) = usb.more s"
  by (rule usb_more_io, simp)+

lemma usb_more_handlers:
  "handle_SOFI E s = Some t \<Longrightarrow> usb.more t = usb.more s"
  "handle_SUSPI E s = Some t \<Longrightarrow> usb.more t = usb.more s"
  "handle_WAKEUPI E s = Some t \<Longrightarrow> usb.more t = usb.more s"
  "handle_EORSTI E s = Some t \<Longrightarrow> usb.more t = usb.more s"
  subgoal by (auto simp: handle_SOFI_def USB_Event_Stub_def)
  subgoal
    by (auto simp: handle_SUSPI_def Let_def EVENT_USB_Device_Disconnect_def USB_CLK_Freeze_def
        USB_PLL_Off_def set_bits_unfold)
  subgoal
    by (auto simp: handle_WAKEUPI_def Let_def bind_eq_Some_conv EVENT_USB_Device_Connect_def
        USB_CLK_Unfreeze_def USB_PLL_On_def clr_bits_unfold USB_Device_IsAddressSet_def test_bit_unfold
        split: if_splits dest!: usb_more_wait_bit)
  subgoal
    by (auto simp: handle_EORSTI_def Let_def bind_eq_Some_conv USB_Event_Stub_def
        dest!: usb_more_ConfigureEndpoint)
  done

lemma usb_more_on_interrupt:
  assumes "on_interrupt E i body s = Some t" "\<And>s t. body s = Some t \<Longrightarrow> usb.more t = usb.more s"
  shows "usb.more t = usb.more s"
  using assms by (fastforce simp: on_interrupt_def split_def Let_def split: if_splits)

lemma usb_more_USB_GEN: "USB_GEN_vect E s = Some t \<Longrightarrow> usb.more t = usb.more s"
  unfolding USB_GEN_vect_def bind_eq_Some_conv
  using usb_more_on_interrupt usb_more_handlers by metis

end
