(* ===== verification/System.thy ===== *)
theory System
  imports Firmware
begin

text \<open>
  The running firmware: start-up, every interleaving of the main loop's tasks with
  the interrupt routines, and the properties of the whole program.
\<close>

section \<open>Start-up\<close>

lemma SetupHardware_total: "PLL_locks E \<Longrightarrow> \<exists>t. SetupHardware E s = Some t"
  by (simp add: SetupHardware_def Let_def USB_Init_total)

lemma more_setup [simp]:
  "io_st.more (disable_watchdog E s) = io_st.more s" "io_st.more (USART_Init E s) = io_st.more s"
  "io_st.more (LEDs_Init E s) = io_st.more s"
  by (simp_all add: disable_watchdog_def USART_Init_def LEDs_Init_def Let_def)

lemma SetupHardware_state:
  assumes "SetupHardware E s = Some t"
  shows "USB_DeviceState t = DEVICE_STATE_Unattached" "usb.more t = usb.more s"
proof -
  let ?s = "LEDs_Init E (USART_Init E (event (LibCall (ClockPrescaleSet 0)) (disable_watchdog E s)))"
  from assms have "USB_Init E ?s = Some t" by (simp add: SetupHardware_def Let_def)
  from USB_Init_state(1,4) [OF this] usb_more_io [of ?s s]
  show "USB_DeviceState t = DEVICE_STATE_Unattached" "usb.more t = usb.more s" by simp_all
qed

text \<open>The state in which the hardware is set up.\<close>

definition after_setup :: firmware where
  "after_setup = boot\<lparr>controllerReport := initialize_idle_report zero_report,
     idleReport := initialize_idle_report zero_report,
     response_manager := (ready [0x81, 0x01, 0x00, 0x03, 0x79, 0x05, 0x44, 0xC6, 0xB5, 0x65] 0 response_init)
       \<lparr>before_send := Some CALLBACK_beforeSend, selectedReportPtr := Some selectedReport_variable\<rparr>\<rparr>"

lemma setup_response_manager_init:
  "setup_response_manager E CALLBACK_beforeSend selectedReport_variable response_init =
   Inr ((ready [0x81, 0x01, 0x00, 0x03, 0x79, 0x05, 0x44, 0xC6, 0xB5, 0x65] 0 response_init)
     \<lparr>before_send := Some CALLBACK_beforeSend, selectedReportPtr := Some selectedReport_variable\<rparr>)"
  unfolding setup_response_manager_def
  by (subst prepare_8101_closed) (simp_all add: response_init_def wf_response_def ready_def)

lemma main_init_boot:
  "main_init E boot = obind (returns (SetupHardware E after_setup)) (\<lambda>s.
     Some (Inr (event (LibCall Sei) s)))"
  by (simp add: main_init_def boot_def after_setup_def with_response_def setup_response_manager_init)

lemma fw_inv_after_setup: "fw_inv after_setup"
  using wf_idle [OF idle_form_idle]
  by (simp add: fw_inv_def rx_inv_def after_setup_def boot_def wf_response_def ready_def)

lemma main_init_state:
  assumes "main_init E boot = Some (Inr t)"
  shows "USB_DeviceState t = DEVICE_STATE_Unattached" "usb.more t = usb.more after_setup"
proof -
  from assms obtain u where "SetupHardware E after_setup = Some u" "t = event (LibCall Sei) u"
    by (auto simp: main_init_boot obind_eq_Some returns_eq_Some)
  with SetupHardware_state [of E after_setup u]
  show "USB_DeviceState t = DEVICE_STATE_Unattached" "usb.more t = usb.more after_setup" by simp_all
qed

section \<open>Every interleaving\<close>

text \<open>
  One step is a task of the main loop or an interrupt routine. The main loop
  alternates its two tasks; the relation allows any order. An interrupt runs here
  between tasks: \<open>CALLBACK_beforeSend\<close> disables the receive interrupt itself, and
  the device state the USB interrupt stores is read anew at each access.
\<close>

inductive fw_step :: "environment \<Rightarrow> firmware \<Rightarrow> firmware \<Rightarrow> bool" for E where
  HID: "HID_Task E s = Some (Inr t) \<Longrightarrow> fw_step E s t"
| USBTask: "USB_USBTask E (joystick_app E) s = Some (Inr t) \<Longrightarrow> fw_step E s t"
| RX: "USART1_RX_vect E s = Some t \<Longrightarrow> fw_step E s t"
| GEN: "USB_GEN_vect E s = Some t \<Longrightarrow> fw_step E s t"

inductive reachable :: "environment \<Rightarrow> firmware \<Rightarrow> bool" for E where
  Start: "main_init E boot = Some (Inr s) \<Longrightarrow> reachable E s"
| Step: "reachable E s \<Longrightarrow> fw_step E s t \<Longrightarrow> reachable E t"

inductive_cases fw_stepE: "fw_step E s t"

lemma fw_step_inv: "fw_inv s \<Longrightarrow> fw_step E s t \<Longrightarrow> fw_inv t"
  by (elim fw_stepE)
    (auto intro: HID_Task_inv USBTask_inv fw_inv_USART1_RX fw_inv_more usb_more_USB_GEN)

lemma reachable_inv: "reachable E s \<Longrightarrow> fw_inv s"
proof (induction rule: reachable.induct)
  case (Start s)
  from fw_inv_after_setup main_init_state(2) [OF Start] show ?case by (rule fw_inv_more)
next
  case (Step s t)
  then show ?case using fw_step_inv by blast
qed

lemma start_exists:
  assumes "PLL_locks E"
  obtains s where "main_init E boot = Some (Inr s)"
  using SetupHardware_total [OF assms, of after_setup] by (auto simp: main_init_boot)

section \<open>Faults\<close>

text \<open>The OUT packet \<open>HID_Task\<close> reads, if it reads one: its length and the buffer.\<close>

definition OUT_packet :: "environment \<Rightarrow> firmware \<Rightarrow> (nat \<times> bytes) option" where
  "OUT_packet E s =
     (let (received, s) = Endpoint_IsOUTReceived E (Endpoint_SelectEndpoint JOYSTICK_OUT_EPADDR s)
      in if \<not> received then None else
        (case read_OUT E s of Some (Inr (n, buf, _)) \<Rightarrow> Some (n, buf) | _ \<Rightarrow> None))"

lemma HID_Task_OUT_packet:
  assumes "fw_inv s" "OUT_packet E s = Some (n, buf)"
  obtains t where "usb.more t = usb.more s" "length buf = JOYSTICK_EPSIZE"
    "HID_Task_OUT E s = Some (fbind (process_OUT_report E (selected_report s) buf (of_nat n)
       (response_manager s)) (\<lambda>r. Inr (t\<lparr>response_manager := r\<rparr>)))"
proof -
  let ?s1 = "Endpoint_SelectEndpoint JOYSTICK_OUT_EPADDR s"
  let ?s2 = "snd (Endpoint_IsOUTReceived E ?s1)"
  from assms(2) obtain u where rec: "fst (Endpoint_IsOUTReceived E ?s1)"
    and u: "read_OUT E ?s2 = Some (Inr (n, buf, u))"
    by (auto simp: OUT_packet_def split_def Let_def split: if_splits option.splits sum.splits)
  from u obtain bs where "buf = OUT_buffer bs" "io_st.more u = io_st.more ?s2"
    by (rule read_OUT_ends) simp
  then have more: "usb.more (Endpoint_ClearOUT E u) = usb.more s"
    using usb_more_io [of u ?s2] by simp
  then have inv: "fw_inv (Endpoint_ClearOUT E u)" by (rule fw_inv_more [OF assms(1)])
  show thesis
    using more \<open>buf = _\<close> rec u deref_inv [OF inv] firmware_fields [OF more] selected_report_more [OF more]
    by (intro that [of "Endpoint_ClearOUT E u"])
      (simp_all add: HID_Task_OUT_def split_def Let_def with_response_def)
qed

lemma HID_Task_OUT_nopacket:
  assumes "OUT_packet E s = None"
  shows "HID_Task_OUT E s \<noteq> Some (Inl f)"
proof
  let ?s1 = "Endpoint_SelectEndpoint JOYSTICK_OUT_EPADDR s"
  let ?s2 = "snd (Endpoint_IsOUTReceived E ?s1)"
  assume "HID_Task_OUT E s = Some (Inl f)"
  then obtain z where rec: "fst (Endpoint_IsOUTReceived E ?s1)" and z: "read_OUT E ?s2 = Some z"
    by (auto simp: HID_Task_OUT_def split_def Let_def obind_eq_Some split: if_splits)
  from z obtain n buf u where "z = Inr (n, buf, u)" by (rule read_OUT_ends)
  with rec z assms show False by (simp add: OUT_packet_def split_def Let_def)
qed

lemma process_fault_iff:
  assumes "fw_inv s" "length D = JOYSTICK_EPSIZE"
  shows "process_OUT_report E (selected_report s) D n (response_manager s) = Inl f \<longleftrightarrow>
    f = OutOfBounds \<and> \<not> nextPacketReady (response_manager s) \<and> overflow_request D n"
proof -
  have wf: "wf_response (response_manager s)" "wf_report (selected_report s)" "16 \<le> length D"
    using assms by (auto simp: fw_inv_def wf_selected)
  show ?thesis
  proof (cases "nextPacketReady (response_manager s)")
    case True
    then show ?thesis using reply_op.pending_kept [OF process_OUT_report_reply_op] wf(3) by simp
  next
    case False
    then show ?thesis
      using process_OUT_report_spec [OF False wf, of n E] process_OUT_report_overflow [OF False wf, of n E]
      by (cases "overflow_request D n") auto
  qed
qed

lemma HID_Task_OUT_fault_iff:
  assumes "fw_inv s"
  shows "HID_Task_OUT E s = Some (Inl f) \<longleftrightarrow> f = OutOfBounds \<and>
    \<not> nextPacketReady (response_manager s) \<and>
    (\<exists>n buf. OUT_packet E s = Some (n, buf) \<and> overflow_request buf (of_nat n))"
proof (cases "OUT_packet E s")
  case None
  then show ?thesis using HID_Task_OUT_nopacket by simp
next
  case (Some p)
  obtain n buf where p: "p = (n, buf)" by (cases p)
  with Some have "OUT_packet E s = Some (n, buf)" by simp
  with assms obtain t where "length buf = JOYSTICK_EPSIZE"
    "HID_Task_OUT E s = Some (fbind (process_OUT_report E (selected_report s) buf (of_nat n)
       (response_manager s)) (\<lambda>r. Inr (t\<lparr>response_manager := r\<rparr>)))" by (rule HID_Task_OUT_packet)
  then show ?thesis
    using process_fault_iff [OF assms, of buf E "of_nat n" f] Some p
    by (cases "process_OUT_report E (selected_report s) buf (of_nat n) (response_manager s)") auto
qed

lemma main_turn_fault_iff:
  assumes "fw_inv s"
  shows "main_turn E s = Some (Inl f) \<longleftrightarrow>
    fst (read_DeviceState E s) = DEVICE_STATE_Configured \<and>
    HID_Task_OUT E (snd (read_DeviceState E s)) = Some (Inl f)"
proof -
  have turn: "main_turn E s = Some (Inl f) \<longleftrightarrow> HID_Task E s = Some (Inl f)"
    unfolding main_turn_def obind_eq_Some by (simp only: USBTask_no_fault simp_thms ex_simps) simp
  have "HID_Task E s = Some (Inl f)" if "fst (read_DeviceState E s) = DEVICE_STATE_Configured"
    "HID_Task_OUT E (snd (read_DeviceState E s)) = Some (Inl f)"
    using that by (simp add: HID_Task_def split_def)
  with HID_Task_fault [OF assms, of E f] turn show ?thesis by blast
qed

section \<open>What the console receives\<close>

lemma send_accepting:
  assumes "fw_inv s" "IN_accepting E"
  obtains t where "send_IN_report E s = Some (Inr t)" "fw_inv t"
    "\<not> nextPacketReady (response_manager t)"
    "written_to UEDATX (io_log t) = written_to UEDATX (io_log s) @
       next_packet (run_beforeSend E s) (response_manager s)"
proof -
  from transmit_accepting [OF fw_inv_prepared [OF assms(1)] assms(2)]
  obtain t where t: "send_IN_report E s = Some (Inr t)" "usb.more t = usb.more (reply_sent (prepared E s))"
    "written_to UEDATX (io_log t) = written_to UEDATX (io_log s) @
       next_packet (run_beforeSend E s) (response_manager s)"
    by (auto simp: send_prepared [OF assms(1)] prepared_packet)
  moreover have "\<not> nextPacketReady (response_manager t)"
    using firmware_fields(7) [OF t(2)] by (simp add: reply_sent_def)
  ultimately show thesis using that fw_inv_send_IN_report [OF assms(1) t(1)] by blast
qed

lemma HID_Task_IN_accepting:
  assumes "fw_inv s" "IN_accepting E"
  obtains t u where "HID_Task_IN E s = Some (Inr t)" "fw_inv t"
    "\<not> nextPacketReady (response_manager t)" "usb.more u = usb.more s"
    "written_to UEDATX (io_log t) = written_to UEDATX (io_log s) @
       next_packet (run_beforeSend E u) (response_manager s)"
proof -
  let ?u = "snd (Endpoint_IsINReady E (Endpoint_SelectEndpoint JOYSTICK_IN_EPADDR s))"
  have u: "usb.more ?u = usb.more s"
    "written_to UEDATX (io_log ?u) = written_to UEDATX (io_log s)"
    "fst (Endpoint_IsINReady E (Endpoint_SelectEndpoint JOYSTICK_IN_EPADDR s))"
    using assms(2) by (simp_all add: endpoint_simps IN_accepting_now)
  from assms(1) u(1) have "fw_inv ?u" by (rule fw_inv_more)
  from send_accepting [OF this assms(2)] obtain t where "send_IN_report E ?u = Some (Inr t)" "fw_inv t"
    "\<not> nextPacketReady (response_manager t)" "written_to UEDATX (io_log t) =
      written_to UEDATX (io_log ?u) @ next_packet (run_beforeSend E ?u) (response_manager ?u)" .
  with u firmware_fields(7) [OF u(1)] show thesis
    by (intro that [of t ?u]) (simp_all add: HID_Task_IN_def split_def)
qed

text \<open>The report chosen before sending depends on the data of the firmware only.\<close>

lemma selected_beforeSend:
  "selected_report (run_beforeSend E s) =
     (if state s = SYNCED \<and> millis s < 120 then controllerReport s
      else (idleReport s)\<lparr>button_home := state s = SYNCED \<and> 800 \<le> millis s \<and> millis s < 1000\<rparr>)"
  by (cases "state s = SYNCED") (simp_all add: selected_report_def beforeSend_fields)

text \<open>A stream of UART bytes keeps the invariant and does not touch the replies.\<close>

lemma fw_inv_rx_run:
  "fw_inv s \<Longrightarrow> rx_run E bs s = Some t \<Longrightarrow> fw_inv t \<and> response_manager t = response_manager s"
proof (induction bs arbitrary: s)
  case (Cons b bs)
  then obtain u where u: "rx_byte E b s = Some u" "rx_run E bs u = Some t"
    by (auto simp: bind_eq_Some_conv)
  have "rx_effect b s u" using Cons.prems(1) u(1) by (intro rx_byte_refines) (simp add: fw_inv_def)
  then have "response_manager u = response_manager s" by (simp add: rx_effect_def)
  with Cons.IH [OF fw_inv_rx_byte [OF Cons.prems(1) u(1)] u(2)] show ?case by simp
qed simp

section \<open>Properties of the whole program\<close>

text \<open>
  C21. Start-up. Once the PLL locks, the initialisation returns; the device is then
  detached from the host's point of view, the invariant holds, the receiver is out
  of sync and the first packet for the console is the \<open>0x81 0x01\<close> announcement with
  the MAC address.
\<close>

theorem startup:
  assumes "PLL_locks E"
  shows "\<exists>s. main_init E boot = Some (Inr s) \<and> fw_inv s \<and>
    USB_DeviceState s = DEVICE_STATE_Unattached \<and> rx_abs s = Out \<and>
    nextPacketReady (response_manager s) \<and>
    replyBuffer (response_manager s) = padded ([0x81, 0x01, 0x00, 0x03] @ mac_address)"
proof -
  from start_exists [OF assms] obtain s where s: "main_init E boot = Some (Inr s)" .
  note st = main_init_state [OF s]
  have "fw_inv s" using fw_inv_after_setup st(2) by (rule fw_inv_more)
  with s st firmware_fields [OF st(2)] show ?thesis
    by (intro exI [of _ s])
      (simp add: rx_abs_def after_setup_def boot_def ready_def mac_address_def)
qed

lemma ready_environment_locks: "PLL_locks ready_environment"
  unfolding PLL_locks_def by (intro allI exI [of _ 0]) (simp add: ready_environment_def)

theorem startup_witness:
  "\<exists>s. main_init ready_environment boot = Some (Inr s) \<and> nextPacketReady (response_manager s)"
  using startup [OF ready_environment_locks] by blast

text \<open>
  C5. Invariant of the running program. In every state the firmware can reach, by
  any sequence of tasks and interrupts, on any hardware and with any host and any
  UART peer: at most eight bytes are collected and their checksum is current, the
  reply buffer has 64 bytes, both reports are well formed, the idle report holds
  nothing but possibly HOME, the callback pointers are set, and the timer is a
  multiple of 8 of at most 1000.
\<close>

theorem firmware_invariant:
  assumes "reachable E s"
  shows "rx_inv s \<and> length (replyBuffer (response_manager s)) = JOYSTICK_EPSIZE \<and>
    wf_report (controllerReport s) \<and>
    (\<exists>h. idleReport s = (initialize_idle_report zero_report)\<lparr>button_home := h\<rparr>) \<and>
    before_send (response_manager s) = Some CALLBACK_beforeSend \<and>
    selectedReportPtr (response_manager s) = Some selectedReport_variable \<and>
    unat (millis s) \<le> 1000 \<and> 8 dvd unat (millis s)"
  using reachable_inv [OF assms] by (simp add: fw_inv_def wf_response_def idle_form_def)

theorem firmware_invariant_witness:
  "\<exists>s. reachable ready_environment s \<and> rx_inv s \<and> unat (millis s) \<le> 1000"
proof -
  from start_exists [OF ready_environment_locks] obtain s
    where "main_init ready_environment boot = Some (Inr s)" .
  then have "reachable ready_environment s" by (rule reachable.Start)
  with firmware_invariant [OF this] show ?thesis by blast
qed

text \<open>
  C4. Memory safety of the running program, exactly. A turn of the main loop leaves
  the bounds of an array, or follows a null pointer, if and only if the device is
  configured, no reply is pending, and the OUT packet it reads is a flash read of
  45 to 250 bytes.
\<close>

theorem main_turn_fault:
  assumes "reachable E s"
  shows "main_turn E s = Some (Inl f) \<longleftrightarrow>
    f = OutOfBounds \<and> \<not> nextPacketReady (response_manager s) \<and>
    (case read_DeviceState E s of (d, t) \<Rightarrow> d = DEVICE_STATE_Configured \<and>
      (\<exists>n buf. OUT_packet E t = Some (n, buf) \<and> overflow_request buf (of_nat n)))"
proof -
  let ?t = "snd (read_DeviceState E s)"
  note inv = reachable_inv [OF assms]
  have "usb.more ?t = usb.more s" by simp
  from firmware_fields(7) [OF this] show ?thesis
    using main_turn_fault_iff [OF inv, of E f] HID_Task_OUT_fault_iff [OF read_DeviceState_inv [OF inv], of E E f]
    by (auto simp: split_def)
qed

theorem main_turn_fault_witness:
  "\<exists>s. reachable ready_environment s \<and> \<not> (\<exists>f. main_turn ready_environment s = Some (Inl f))"
proof -
  from start_exists [OF ready_environment_locks] obtain s
    where s: "main_init ready_environment boot = Some (Inr s)" .
  then have r: "reachable ready_environment s" by (rule reachable.Start)
  have "nextPacketReady (response_manager s)"
    using firmware_fields(7) [OF main_init_state(2) [OF s]] by (simp add: after_setup_def ready_def)
  with main_turn_fault [OF r] r show ?thesis by blast
qed

text \<open>
  A concrete host for the examples: it has configured the device, sends the request
  \<open>0x80 0x02\<close> whenever the OUT endpoint is looked at, and accepts every IN packet.
\<close>

fun reads_since :: "io list \<Rightarrow> nat" where
  "reads_since [] = 0"
| "reads_since (Wr UENUM v # l) = 0"
| "reads_since (Rd UEDATX v # l) = Suc (reads_since l)"
| "reads_since (e # l) = reads_since l"

definition console_environment :: environment where
  "console_environment = ready_environment\<lparr>
     reg_value := \<lambda>r l. if r = UEINTX then if current_ep l = Some 1 then 0x21
         else if reads_since l < 2 then 0x24 else 0x04
       else if r = UEDATX then if reads_since l = 0 then 0x80 else 0x02
       else 0xFF,
     isr_state := \<lambda>_. Some DEVICE_STATE_Configured\<rparr>"

lemma console_accepts: "IN_accepting console_environment"
  by (simp add: IN_accepting_def console_environment_def)

lemma console_locks: "PLL_locks console_environment"
  unfolding PLL_locks_def by (intro allI exI [of _ 0]) (simp add: console_environment_def)

lemma console_packet: "OUT_packet console_environment s = Some (2, OUT_buffer [0x80, 0x02])"
proof -
  let ?E = console_environment
  let ?s0 = "snd (Endpoint_IsOUTReceived ?E (Endpoint_SelectEndpoint JOYSTICK_OUT_EPADDR s))"
  let ?next = "\<lambda>s. snd (Endpoint_Read_8 ?E (snd (Endpoint_IsReadWriteAllowed ?E s)))"
  note env = console_environment_def OUT_read_step_def endpoint_simps store_def list_update_code
  have 1: "OUT_read_step ?E 0 (replicate JOYSTICK_EPSIZE 0, ?s0) =
      Some (Inr (Again 1, (replicate JOYSTICK_EPSIZE 0)[0 := 0x80], ?next ?s0))"
    by (simp add: env)
  have 2: "OUT_read_step ?E 1 ((replicate JOYSTICK_EPSIZE 0)[0 := 0x80], ?next ?s0) =
      Some (Inr (Again 2, (replicate JOYSTICK_EPSIZE 0)[0 := 0x80, 1 := 0x02], ?next (?next ?s0)))"
    by (simp add: env)
  obtain u where 3: "OUT_read_step ?E 2 ((replicate JOYSTICK_EPSIZE 0)[0 := 0x80, 1 := 0x02], ?next (?next ?s0)) =
      Some (Inr (Return 2, (replicate JOYSTICK_EPSIZE 0)[0 := 0x80, 1 := 0x02], u))"
    by (simp add: env)
  have buf: "(replicate JOYSTICK_EPSIZE 0)[0 := 0x80, 1 := 0x02] = OUT_buffer [0x80, 0x02]"
    by code_simp
  have "turn_loop (OUT_read_step ?E) 0 (replicate JOYSTICK_EPSIZE 0, ?s0) =
      turn_loop (OUT_read_step ?E) 1 ((replicate JOYSTICK_EPSIZE 0)[0 := 0x80], ?next ?s0)"
    by (rule turn_loop_Again) (rule 1)
  also have "\<dots> = turn_loop (OUT_read_step ?E) 2
      ((replicate JOYSTICK_EPSIZE 0)[0 := 0x80, 1 := 0x02], ?next (?next ?s0))"
    by (rule turn_loop_Again) (rule 2)
  also have "\<dots> = Some (Inr (Some 2, (replicate JOYSTICK_EPSIZE 0)[0 := 0x80, 1 := 0x02], u))"
    by (rule turn_loop_Return) (rule 3)
  finally have "read_OUT ?E ?s0 = Some (Inr (2, OUT_buffer [0x80, 0x02], u))"
    by (simp only: read_OUT_def after_loop_def obind_simps prod.case option.case buf)
  moreover have "fst (Endpoint_IsOUTReceived ?E (Endpoint_SelectEndpoint JOYSTICK_OUT_EPADDR s))"
    by (simp add: env)
  ultimately show ?thesis by (simp add: OUT_packet_def split_def)
qed

lemma console_reaches_idle:
  "\<exists>s. reachable console_environment s \<and> \<not> nextPacketReady (response_manager s)"
proof -
  let ?E = console_environment
  from start_exists [OF console_locks] obtain s where s: "main_init ?E boot = Some (Inr s)" .
  then have reach: "reachable ?E s" by (rule reachable.Start)
  let ?s = "snd (read_DeviceState ?E s)"
  have "usb.more ?s = usb.more after_setup" using main_init_state(2) [OF s] by simp
  from firmware_fields(7) [OF this] have pending: "nextPacketReady (response_manager ?s)"
    by (simp add: after_setup_def ready_def)
  note inv = read_DeviceState_inv [OF reachable_inv [OF reach], of ?E]
  from inv console_packet [of ?s] obtain t where t: "usb.more t = usb.more ?s"
    "HID_Task_OUT ?E ?s = Some (fbind (process_OUT_report ?E (selected_report ?s)
      (OUT_buffer [0x80, 0x02]) (of_nat 2) (response_manager ?s)) (\<lambda>r. Inr (t\<lparr>response_manager := r\<rparr>)))"
    by (rule HID_Task_OUT_packet)
  let ?t = "t\<lparr>response_manager := response_manager ?s\<rparr>"
  from t(2) pending have out: "HID_Task_OUT ?E ?s = Some (Inr ?t)"
    by (simp add: reply_op.pending_kept [OF process_OUT_report_reply_op])
  from HID_Task_IN_accepting [OF fw_inv_HID_Task_OUT [OF inv out] console_accepts]
  obtain u where u: "HID_Task_IN ?E ?t = Some (Inr u)" "\<not> nextPacketReady (response_manager u)" .
  have "fst (read_DeviceState ?E s) = DEVICE_STATE_Configured"
    by (simp add: read_DeviceState_def console_environment_def Let_def)
  with out u(1) have "HID_Task ?E s = Some (Inr u)" by (simp add: HID_Task_def split_def)
  then have "reachable ?E u" by (intro reachable.Step [OF reach] fw_step.HID)
  with u(2) show ?thesis by blast
qed





lemma packet_sent:
  assumes "fw_inv s" "transmitter_drains E" "IN_accepting E" "rx_abs s = Synced []" "length p = 8"
    and "\<not> nextPacketReady (response_manager s)"
  shows "\<exists>t u. rx_run E (map word_of_int (UART_write (map uint p))) s = Some t \<and>
    send_IN_report E t = Some (Inr u) \<and>
    written_to UEDATX (io_log u) = written_to UEDATX (io_log t) @
      padded (0x30 # (counter (response_manager s) + 3) # report_bytes (report_of_packet p))"
proof -
  have wire: "map word_of_int (UART_write (map uint p)) = p @ [crc8_of p]"
    by (simp add: UART_write_def crc8_uint o_def)
  obtain t where t: "rx_run E (p @ [crc8_of p]) s = Some t"
    using rx_run_total [OF assms(2)] by blast
  have rx: "rx_inv s" using assms(1) by (simp add: fw_inv_def)
  from packet_accepted [OF rx assms(4,5) t] have rep: "controllerReport t = report_of_packet p"
    "millis t = 0" "state t = SYNCED" by (auto simp: rx_abs_def split: State_t.splits)
  from fw_inv_rx_run [OF assms(1) t] have inv: "fw_inv t" "response_manager t = response_manager s"
    by simp_all
  from send_accepting [OF inv(1) assms(3)] obtain u where "send_IN_report E t = Some (Inr u)"
    "written_to UEDATX (io_log u) = written_to UEDATX (io_log t) @
       next_packet (run_beforeSend E t) (response_manager t)" .
  with t wire rep inv(2) assms(6) show ?thesis
    by (auto simp: next_packet_def selected_beforeSend)
qed


definition synced_example :: firmware where
  "synced_example = (example_firmware SYNCED)\<lparr>response_manager := response_init
     \<lparr>before_send := Some CALLBACK_beforeSend, selectedReportPtr := Some selectedReport_variable\<rparr>\<rparr>"


end
