(* ===== verification/ControllerPackets.thy ===== *)
theory ControllerPackets
  imports Gamepads System
begin

text \<open>
  What reaches the console of a controller: the packets that \<open>build_packet\<close> and \<open>pack\<close> make
  of an XInput controller, of the socket pad and of the mouse, and their way through the
  firmware.
\<close>

section \<open>An XInput controller\<close>

text \<open>
  The layout: the four face buttons by position, the triggers from half way on, HOME for
  BACK and START together or for the guide button. CAPTURE cannot be reached.
\<close>

definition held :: "gamepad \<Rightarrow> u16 \<Rightarrow> bool" where
  "held g m \<longleftrightarrow> wButtons g AND m \<noteq> 0"

fun switch_pressed :: "gamepad \<Rightarrow> JoystickButtons_t \<Rightarrow> bool" where
  "switch_pressed g SWITCH_B \<longleftrightarrow> held g 0x1000"
| "switch_pressed g SWITCH_A \<longleftrightarrow> held g 0x2000"
| "switch_pressed g SWITCH_Y \<longleftrightarrow> held g 0x4000"
| "switch_pressed g SWITCH_X \<longleftrightarrow> held g 0x8000"
| "switch_pressed g SWITCH_L \<longleftrightarrow> held g 0x0100"
| "switch_pressed g SWITCH_R \<longleftrightarrow> held g 0x0200"
| "switch_pressed g SWITCH_ZL \<longleftrightarrow> 128 \<le> uint (bLT g)"
| "switch_pressed g SWITCH_ZR \<longleftrightarrow> 128 \<le> uint (bRT g)"
| "switch_pressed g SWITCH_MINUS \<longleftrightarrow> held g 0x0020"
| "switch_pressed g SWITCH_PLUS \<longleftrightarrow> held g 0x0010"
| "switch_pressed g SWITCH_LCLICK \<longleftrightarrow> held g 0x0040"
| "switch_pressed g SWITCH_RCLICK \<longleftrightarrow> held g 0x0080"
| "switch_pressed g SWITCH_HOME \<longleftrightarrow> held g 0x0020 \<and> held g 0x0010 \<or> held g 0x0400"
| "switch_pressed g SWITCH_CAPTURE \<longleftrightarrow> False"

text \<open>A stick axis: linear from 0 to 255, with a dead zone around the centre.\<close>

definition stick_byte :: "u16 \<Rightarrow> int" where
  "stick_byte w = dead_zone ((max (sint w) (- 32767) + 32767) * 255 div 65534)"

text \<open>The D-pad: opposite directions cancel out.\<close>

definition directions :: "gamepad \<Rightarrow> (bool \<times> bool) \<times> bool \<times> bool" where
  "directions g =
     (let u = held g 1; d = held g 2; l = held g 4; r = held g 8 in
      ((u \<and> \<not> d, d \<and> \<not> u), (l \<and> \<not> r, r \<and> \<not> l)))"

lemma PadX_methods:
  assumes "pad s = Some (PadX slot g)"
  shows "btn W i s = Some (PadX_btn g i, s)" "axis W i s = Some (PadX_axis g i, s)"
    "pad_hat W s = Some (Inr (PadX_hat g), s)"
  using assms by (simp_all add: btn_def axis_def pad_hat_def with_pad_def)

definition button_mask :: "(nat \<Rightarrow> bool) \<Rightarrow> (nat \<times> int) list \<Rightarrow> int \<Rightarrow> int" where
  "button_mask f = fold (\<lambda>(i, m) b. if f i then b OR m else b)"

lemma button_mask_Cons: "button_mask f ((i, m) # l) b = button_mask f l (if f i then b OR m else b)"
  by (simp add: button_mask_def)

lemma bit_button_mask: "bit (button_mask f l b) k \<longleftrightarrow> bit b k \<or> (\<exists>(i, m) \<in> set l. f i \<and> bit m k)"
proof (induction l arbitrary: b)
  case (Cons e l)
  then show ?case by (cases e) (auto simp: button_mask_Cons bit_or_iff)
qed (simp add: button_mask_def)

lemma button_bits_mask:
  assumes "\<And>i m. (i, m) \<in> set l \<Longrightarrow> btn W i s = Some (Inr (f i), s)"
  shows "button_bits W l b s = Some (Inr (button_mask f l b), s)"
  using assms
proof (induction l arbitrary: b)
  case (Cons e l)
  obtain i m where e: "e = (i, m)" by (cases e)
  with Cons.prems have "btn W i s = Some (Inr (f i), s)" by auto
  then have "or_bit (btn W i) m b s = Some (Inr (if f i then b OR m else b), s)" by (simp add: or_bit_def pbind_def)
  with Cons.IH [OF Cons.prems [OF list.set_intros(2)]] show ?case by (simp add: e pbind_Inr button_mask_Cons)
qed (simp add: button_mask_def)

lemma trigger_half: "flt (Fin (1 / 2)) (pyround (of_int (uint (b :: u8)) / 255)) \<longleftrightarrow> 128 \<le> uint b"
proof -
  let ?x = "of_int (uint b) / 255 :: rat"
  have b: "0 \<le> uint b" "uint b \<le> 255" by (rule uint_u8)+
  then have "(of_int (uint b) :: rat) \<le> of_int 255" by (simp only: of_int_le_iff)
  moreover have "(0 :: rat) \<le> of_int (uint b)" using b by (simp only: of_int_0_le_iff)
  ultimately have x: "\<bar>?x\<bar> \<le> 1" by (simp del: of_int_uint)
  have r: "pyround ?x = Fin (fl ?x)" using x by (intro pyround_small) simp
  have e: "\<bar>fl ?x - ?x\<bar> \<le> 1 / 2 ^ 40" using x by (intro fl_near) simp
  have s: "(1 :: rat) / 2 ^ 40 \<le> 1 / 1000000" by simp
  show ?thesis
  proof (cases "128 \<le> uint b")
    case True
    then have "(of_int 128 :: rat) \<le> of_int (uint b)" by (simp only: of_int_le_iff)
    then have "128 / 255 \<le> ?x" by (simp del: of_int_uint)
    with e s have "1 / 2 < fl ?x" by linarith
    with True r show ?thesis by simp
  next
    case False
    then have "(of_int (uint b) :: rat) \<le> of_int 127" by (simp only: of_int_le_iff)
    then have "?x \<le> 127 / 255" by (simp del: of_int_uint)
    with e s have "\<not> 1 / 2 < fl ?x" by linarith
    with False r show ?thesis by simp
  qed
qed

lemma PadX_hat_position: "PadX_hat g \<in> hat_positions"
  by (auto simp: PadX_hat_def hat_positions_def Let_def)

definition XInput_bits :: "gamepad \<Rightarrow> int" where
  "XInput_bits g =
     (let b = button_mask (\<lambda>i. held g (BTN_MASKS ! i)) BTN_MAP 0;
          b = (if held g 0x0020 \<and> held g 0x0010 \<or> held g 0x0400 then b OR 0x1000 else b);
          b = (if 128 \<le> uint (bLT g) then b OR 0x40 else b)
      in if 128 \<le> uint (bRT g) then b OR 0x80 else b)"

lemma bit_XInput_bits: "bit (XInput_bits g) (button_bit m) \<longleftrightarrow> switch_pressed g m"
  by (cases m) (auto simp: XInput_bits_def Let_def bit_or_iff bit_button_mask BTN_MAP_def BTN_MASKS_def)

lemma build_packet_PadX:
  assumes p: "pad s = Some (PadX slot g)"
  shows "build_packet W s = Some (Inr \<lparr>pk_b = XInput_bits g, pk_d = the (map_of HAT_MAP (PadX_hat g)),
    pk_lx = pyround (of_int (sint (sLX g)) / 32767), pk_ly = pyround (of_int (sint (sLY g)) / 32767),
    pk_rx = pyround (of_int (sint (sRX g)) / 32767), pk_ry = pyround (of_int (sint (sRY g)) / 32767)\<rparr>, s)"
proof -
  note x = PadX_methods [OF p]
  have b: "btn W i s = Some (Inr (held g (BTN_MASKS ! i)), s)" if "i < 11" for i
    using that by (simp add: x PadX_btn_def held_def BTN_MASKS_def)
  have h: "over_half W 2 s = Some (Inr (128 \<le> uint (bLT g)), s)" "over_half W 5 s = Some (Inr (128 \<le> uint (bRT g)), s)"
    using trigger_half [of "bLT g"] trigger_half [of "bRT g"]
    by (simp_all add: over_half_def pbind_def x PadX_axis_def Let_def del: of_int_uint)
  have m: "button_bits W BTN_MAP 0 s = Some (Inr (button_mask (\<lambda>i. held g (BTN_MASKS ! i)) BTN_MAP 0), s)"
    by (rule button_bits_mask) (auto simp: b dest!: BTN_MAP_entries)
  have sp: "special_bits W b' s = Some (Inr (
      let b = (if held g 0x0020 \<and> held g 0x0010 \<or> held g 0x0400 then b' OR 0x1000 else b');
          b = (if 128 \<le> uint (bLT g) then b OR 0x40 else b)
      in if 128 \<le> uint (bRT g) then b OR 0x80 else b), s)" for b'
    using p by (simp add: special_bits_def with_pad_def or_bit_def por_def pand_def pbind_def b h BTN_MASKS_def Let_def)
  obtain d where "map_of HAT_MAP (PadX_hat g) = Some d"
    using HAT_MAP_total [OF PadX_hat_position] by blast
  then show ?thesis
    by (simp add: build_packet_def pbind_def m sp x PadX_axis_def XInput_bits_def Let_def del: of_int_sint)
qed

lemma hat_directions_PadX: "hat_directions (word_of_int (the (map_of HAT_MAP (PadX_hat g)) AND 0xFF)) = directions g"
  unfolding PadX_hat_def directions_def Let_def held_def
  by (cases "wButtons g AND 1 = 0"; cases "wButtons g AND 2 = 0"; cases "wButtons g AND 4 = 0"; cases "wButtons g AND 8 = 0")
    (simp_all add: HAT_MAP_def hat_directions_def)

text \<open>The eight bytes of the packet, in the types of the wire.\<close>

definition XInput_packet :: "gamepad \<Rightarrow> bytes" where
  "XInput_packet g = map word_of_int
     [drop_bit 8 (XInput_bits g) AND 0xFF, XInput_bits g AND 0xFF, the (map_of HAT_MAP (PadX_hat g)) AND 0xFF,
      stick_byte (sLX g), stick_byte (sLY g), stick_byte (sRX g), stick_byte (sRY g), 0]"

lemma stick_byte_range: "0 \<le> stick_byte w" "stick_byte w \<le> 255"
proof -
  let ?n = "(max (sint w) (- 32767) + 32767) * 255 div 65534"
  have "0 \<le> ?n" "?n < 256"
    using sint_u16 [of w] by (auto simp: max_def div_less_iff_less_mult pos_imp_zdiv_nonneg_iff)
  then show "0 \<le> stick_byte w" "stick_byte w \<le> 255" by (auto simp: stick_byte_def dead_zone_def)
qed

lemma uint_and_255: "uint (word_of_int (n AND 255) :: u8) = n AND 255"
  using take_bit_eq_mask [of 8 n] take_bit_int_less_exp [of 8 n]
  by (simp add: uint_word_of_int_eq take_bit_int_eq_self mask_eq_exp_minus_1)

lemma uint_stick_byte: "uint (word_of_int (stick_byte w) :: u8) = stick_byte w"
  using stick_byte_range [of w] by (simp add: uint_word_of_int_eq take_bit_int_eq_self)

lemma send_packet_PadX:
  assumes p: "pad s = Some (PadX slot g)"
  shows "pbind (build_packet W) pack s = Some (Inr (map uint (XInput_packet g)), s)"
proof -
  have n: "norm_axis (pyround (of_int (sint w) / 32767)) = Inr ((max (sint w) (- 32767) + 32767) * 255 div 65534)" for w :: u16
    by (rule norm_XInput [OF sint_u16])
  show ?thesis
    unfolding pbind_Inr [where m = "build_packet W", OF build_packet_PadX [OF p]]
    by (simp add: pack_def pbind_def n XInput_packet_def uint_and_255 uint_stick_byte
        del: of_int_sint) (simp add: stick_byte_def)
qed

lemma XInput_packet_simps:
  "length (XInput_packet g) = 8"
  "bit (join16 (XInput_packet g ! 0) (XInput_packet g ! 1)) (button_bit m) \<longleftrightarrow> switch_pressed g m"
  "hat_directions (XInput_packet g ! 2) = directions g"
  "unat (XInput_packet g ! 3) = nat (stick_byte (sLX g))" "unat (XInput_packet g ! 4) = nat (stick_byte (sLY g))"
  "unat (XInput_packet g ! 5) = nat (stick_byte (sRX g))" "unat (XInput_packet g ! 6) = nat (stick_byte (sRY g))"
proof -
  have u: "unat (word_of_int (stick_byte w) :: u8) = nat (stick_byte w)" for w :: u16
    using uint_stick_byte [of w] by (simp add: unat_eq_nat_uint)
  show "length (XInput_packet g) = 8" "hat_directions (XInput_packet g ! 2) = directions g"
    "unat (XInput_packet g ! 3) = nat (stick_byte (sLX g))" "unat (XInput_packet g ! 4) = nat (stick_byte (sLY g))"
    "unat (XInput_packet g ! 5) = nat (stick_byte (sRX g))" "unat (XInput_packet g ! 6) = nat (stick_byte (sRY g))"
    by (simp_all add: XInput_packet_def hat_directions_PadX u)
  have b: "bit (word_of_int (n AND 255) :: u8) k \<longleftrightarrow> k < 8 \<and> bit n k" for n k
  proof -
    have "n AND 255 = take_bit 8 n" using take_bit_eq_mask [of 8 n] by (simp add: mask_eq_exp_minus_1)
    then show ?thesis by (auto simp: bit_word_of_int_iff bit_take_bit_iff)
  qed
  have "button_bit m < 16" by (cases m) auto
  then show "bit (join16 (XInput_packet g ! 0) (XInput_packet g ! 1)) (button_bit m) \<longleftrightarrow> switch_pressed g m"
    by (auto simp: XInput_packet_def bit_join16 b bit_drop_bit_eq bit_XInput_bits [symmetric])
qed

lemma ser_write_ok:
  "serial_works W (tick s) \<Longrightarrow> ser_write W p s = Some (Inr (), s\<lparr>tick := tick s + 1, serial_out := serial_out s @ [UART_write p]\<rparr>)"
  by (simp add: ser_write_def ser_raw_def pbind_def sense_def)

section \<open>The socket pad\<close>

text \<open>The clock counts from the epoch on.\<close>

definition clock_ok :: "world \<Rightarrow> bool" where
  "clock_ok W \<longleftrightarrow> (\<forall>t. fle (Fin 0) (time_time W t))"

lemma socket_btn_held:
  assumes "wf_pad q" "fle (Fin 0) t2" "fst (socket_btn t1 t2 i q)"
  shows "i \<in> held_buttons"
proof -
  let ?q = "socket_expire t1 q"
  have "map_of (button_until ?q) i \<noteq> None"
    using assms(2,3) flt_asym [of t2 "Fin 0"] by (auto simp: socket_btn_def Let_def split: option.splits)
  then have "i \<in> fst ` set (button_until ?q)" by (simp add: map_of_eq_None_iff)
  then show ?thesis using wf_pad_expire [OF assms(1), of t1] by (auto simp: wf_pad_def)
qed

lemma yields_btn_socket:
  assumes "clock_ok W"
  shows "yields (has_pad is_socket) (btn W i) (\<lambda>x t. has_pad is_socket t \<and> (x \<longrightarrow> int i \<in> held_buttons))"
  unfolding btn_def
proof (rule yields_with_pad)
  fix p assume "is_socket p" "case p of PadSocket q \<Rightarrow> wf_pad q | _ \<Rightarrow> True"
  then obtain q where q: "p = PadSocket q" "wf_pad q" by (auto simp: is_socket_def)
  have f: "wf_pad (snd (socket_btn t1 t2 (int i) r)) \<and> (fst (socket_btn t1 t2 (int i) r) \<longrightarrow> int i \<in> held_buttons)"
    if "wf_pad r" "t2 = time_time W n" for r t1 t2 n
    using that assms socket_btn_held [of r t2 t1] by (auto simp: socket_results clock_ok_def)
  have k: "is_socket (PadSocket q)" by (simp add: is_socket_def)
  show "yields (\<lambda>s. has_pad is_socket s \<and> pad s = Some p) (case p of
       PadX slot g \<Rightarrow> plift (PadX_btn g i)
     | PadSDL index \<Rightarrow> PadSDL_btn W index i
     | PadK center prev \<Rightarrow> (case map_of KEY_MAPPING i of None \<Rightarrow> pret False | Some k \<Rightarrow> key W k)
     | PadSocket q \<Rightarrow> on_socket W q (\<lambda>t1 t2. socket_btn t1 t2 (int i)))
     (\<lambda>x t. has_pad is_socket t \<and> (x \<longrightarrow> int i \<in> held_buttons))"
    unfolding q(1) pad.case
    by (rule yields_on_socket [where W = W, OF kind_socket k q(2)]) (erule f)
qed

lemma build_packet_socket:
  assumes "clock_ok W"
  shows "yields (has_pad is_socket) (build_packet W)
    (\<lambda>k t. has_pad is_socket t \<and> good_packet {0, 1, 2, 3, 8, 9, 10, 11, 12, 13} k)"
proof (rule yields_build_packet [OF kind_socket])
  let ?S = "{0, 1, 2, 3, 8, 9, 10, 11, 12, 13} :: nat set"
  show "yields (has_pad is_socket) (btn W i) (\<lambda>x t. has_pad is_socket t \<and> (x \<longrightarrow> bits_in ?S m))" if "(i, m) \<in> set BTN_MAP" for i m
    by (rule yields_weaken [OF yields_btn_socket [OF assms]]) (use that in \<open>auto simp: held_buttons_def BTN_MAP_def\<close>)
  show "yields (has_pad is_socket) (special_bits W b) (\<lambda>b t. has_pad is_socket t \<and> bits_in ?S b)" if "bits_in ?S b" for b
    using that by (intro yields_special_bits kind_socket) auto
qed

section \<open>From the controller to the console\<close>


text \<open>A world in which nothing happens, for examples: no controller, no key, no byte.\<close>

definition idle_world :: world where
  "idle_world = \<lparr>time_time = (\<lambda>_. Fin 0), xinput_loaded = True, XInputGetState = (\<lambda>_ _. None), sdl_ready = (\<lambda>_. False),
     sdl_count = (\<lambda>_. 0), sdl_is_controller = (\<lambda>_ _. False), sdl_opens = (\<lambda>_ _. False), sdl_attached = (\<lambda>_ _. False),
     sdl_get_button = (\<lambda>_ _ _. False), sdl_get_axis = (\<lambda>_ _ _. 0), have_keyboard = True, have_mouse = True,
     is_pressed = (\<lambda>_ _. False), mouse_position = (\<lambda>_. (0, 0)), have_win32gui = True, foreground_title = (\<lambda>_. ''''),
     find_window = (\<lambda>_ _. None), comports = (\<lambda>_. []), serial_opens = (\<lambda>_. True), serial_read = (\<lambda>_. None),
     serial_works = (\<lambda>_. True), socket_lines = (\<lambda>_. []), socket_fails = (\<lambda>_. False), interrupted = (\<lambda>_. False), json_loads = (\<lambda>_. None),
     json_text = (\<lambda>_. ''''), time_stamp = (\<lambda>_. ''''), event_clock = (\<lambda>_. Fin 0)\<rparr>"

definition example_gamepad :: gamepad where
  "example_gamepad = \<lparr>wButtons = 0x2000, bLT = 0, bRT = 255, sLX = 32767, sLY = 0, sRX = 0, sRY = 0\<rparr>"

definition example_client :: "pad \<Rightarrow> client" where
  "example_client p = \<lparr>tick = 0, serial_out = [], pad = Some p\<rparr>"


text \<open>
  C9. Any pad gives a packet. Whatever the buttons, keys, mouse, clocks and received
  events read, and even if they change between two readings, building and packing a packet
  never raises an exception and gives eight bytes, of which the buttons never use the two
  highest bits and the hat is one of its nine positions.
\<close>

theorem any_pad_packet:
  fixes c :: "'z client_scheme"
  assumes "pad c = Some p" "case p of PadSocket q \<Rightarrow> wf_pad q | _ \<Rightarrow> True"
  shows "\<exists>bs d. pbind (build_packet W) pack c = Some (Inr bs, d) \<and> length bs = 8 \<and>
    list_all (\<lambda>x. 0 \<le> x \<and> x \<le> 255) bs \<and> bs ! 0 < 0x40 \<and> bs ! 2 \<le> 8 \<and> bs ! 7 = 0 \<and> has_pad (\<lambda>_. True) d"
proof -
  have "has_pad (\<lambda>_. True) c" using assms by (auto simp: has_pad_def)
  then obtain k d where k: "build_packet W c = Some (Inr k, d)" "has_pad (\<lambda>_. True) d" "good_packet {..<14} k"
    using build_packet_any [of W, unfolded yields_def] by blast
  obtain bs where bs: "pack k d = Some (Inr bs, d)" "length bs = 8" "\<forall>x \<in> set bs. 0 \<le> x \<and> x \<le> 255"
    by (rule pack_bytes [OF k(3), where s = d])
  have "bs ! 0 = drop_bit 8 (pk_b k) AND 0xFF" "bs ! 2 = pk_d k AND 0xFF" "bs ! 7 = 0"
    using bs(1) by (auto simp: pack_def pbind_eq plift_def split: sum.splits)
  moreover have "drop_bit 8 (pk_b k) AND 0xFF < 0x40"
  proof -
    have "take_bit 8 (drop_bit 8 (pk_b k)) = take_bit 6 (drop_bit 8 (pk_b k))"
      using k(3) by (intro bit_eqI) (auto simp: good_packet_def bits_in_def bit_take_bit_iff bit_drop_bit_eq)
    then show ?thesis
      using take_bit_eq_mask [of 8 "drop_bit 8 (pk_b k)"] take_bit_int_less_exp [of 6 "drop_bit 8 (pk_b k)"]
      by (simp add: mask_eq_exp_minus_1)
  qed
  moreover have "pk_d k AND 0xFF \<le> 8" using k(3) and_255 [of "pk_d k"] by (simp add: good_packet_def)
  ultimately show ?thesis using k bs by (simp add: pbind_Inr [where m = "build_packet W"] list_all_iff)
qed

theorem any_pad_packet_witness:
  "\<exists>bs d. pbind (build_packet idle_world) pack (example_client (PadSocket PadSocket_init)) = Some (Inr bs, d) \<and> length bs = 8"
proof -
  have "wf_pad PadSocket_init" by (simp add: wf_pad_def PadSocket_init_def hat_positions_def)
  then show ?thesis
    using any_pad_packet [of "example_client (PadSocket PadSocket_init)" "PadSocket PadSocket_init" idle_world]
    by (auto simp: example_client_def)
qed

section \<open>What the socket pad can and cannot do\<close>

text \<open>
  The socket pad never presses L, R, ZL or ZR. Whatever events have been received, the
  packets built from the socket pad have these four bits clear: the command names \<open>l\<close> and
  \<open>r\<close> are also names of D-pad directions, which the code looks up first, and the trigger
  axes that \<open>zl\<close>, \<open>lt\<close>, \<open>zr\<close> and \<open>rt\<close> set are only read for the other kinds of controllers.
\<close>

theorem socket_no_shoulders:
  fixes c :: "'z client_scheme"
  assumes "clock_ok W" "pad c = Some (PadSocket q)" "wf_pad q"
  shows "\<exists>k d. build_packet W c = Some (Inr k, d) \<and> \<not> bit (pk_b k) 4 \<and> \<not> bit (pk_b k) 5 \<and>
      \<not> bit (pk_b k) 6 \<and> \<not> bit (pk_b k) 7 \<and> has_pad is_socket d \<and>
      apply_command ''l'' u q = apply_command ''left'' u q \<and> apply_command ''r'' u q = apply_command ''right'' u q"
proof -
  have "has_pad is_socket c" using assms(2,3) by (simp add: has_pad_def is_socket_def)
  then obtain k d where k: "build_packet W c = Some (Inr k, d)" "has_pad is_socket d"
    "good_packet {0, 1, 2, 3, 8, 9, 10, 11, 12, 13} k"
    using build_packet_socket [OF assms(1), unfolded yields_def] by blast
  then have "\<not> bit (pk_b k) i" if "i \<in> {4, 5, 6, 7}" for i using that by (auto simp: good_packet_def bits_in_def)
  moreover have "apply_command ''l'' u q = apply_command ''left'' u q" "apply_command ''r'' u q = apply_command ''right'' u q"
    by code_simp+
  ultimately show ?thesis using k by blast
qed

theorem socket_no_shoulders_witness:
  "\<exists>k d. build_packet idle_world (example_client (PadSocket (apply_command ''zl'' (Fin 1) PadSocket_init))) = Some (Inr k, d) \<and>
     \<not> bit (pk_b k) 6"
proof -
  have "wf_pad (apply_command ''zl'' (Fin 1) PadSocket_init)"
    by (rule wf_pad_command) (simp add: wf_pad_def PadSocket_init_def hat_positions_def)
  moreover have "clock_ok idle_world" by (simp add: clock_ok_def idle_world_def)
  ultimately show ?thesis
    using socket_no_shoulders [of idle_world "example_client (PadSocket (apply_command ''zl'' (Fin 1) PadSocket_init))"]
    by (simp add: example_client_def) blast
qed

text \<open>From tick \<open>n\<close> on nothing is received and the clock is at \<open>T\<close> or later.\<close>

definition silent_from :: "world \<Rightarrow> pyfloat \<Rightarrow> nat \<Rightarrow> bool" where
  "silent_from W T n \<longleftrightarrow> (\<forall>t \<ge> n. socket_lines W t = [] \<and> fle T (time_time W t) \<and> fle (Fin 0) (time_time W t))"

definition released :: "pyfloat \<Rightarrow> nat \<Rightarrow> 'z client_scheme \<Rightarrow> bool" where
  "released T n s \<longleftrightarrow> n \<le> tick s \<and> (\<exists>q. pad s = Some (PadSocket q) \<and> due T q)"

lemma due_expire: "due T p \<Longrightarrow> due T (socket_expire t p)"
  by (auto simp: due_def socket_expire_def)

lemma due_results:
  assumes "due T q" "fle T t1" "fle T t2" "fle (Fin 0) t2"
  shows "socket_btn t1 t2 i q = (False, socket_expire t1 q)" "socket_extra_buttons t1 t2 q = (0, socket_expire t1 q)"
    "socket_axis t1 t2 i q = (Fin 0, socket_expire t1 q)" "socket_hat t1 t2 q = ((0, 0), socket_expire t1 q)"
proof -
  have "\<not> flt t2 (Fin 0)" using flt_asym assms(4) by blast
  then show "socket_btn t1 t2 i q = (False, socket_expire t1 q)" "socket_extra_buttons t1 t2 q = (0, socket_expire t1 q)"
    "socket_axis t1 t2 i q = (Fin 0, socket_expire t1 q)" "socket_hat t1 t2 q = ((0, 0), socket_expire t1 q)"
    using due_idle [OF assms(1,2)]
    by (simp_all add: socket_btn_def socket_extra_buttons_def socket_axis_def socket_hat_def Let_def)
qed

lemma on_socket_released:
  fixes s :: "'z client_scheme"
  assumes W: "silent_from W T n" and s: "n \<le> tick s" "due T q"
    and f: "\<And>t1 t2 q. due T q \<Longrightarrow> fle T t1 \<Longrightarrow> fle T t2 \<Longrightarrow> fle (Fin 0) t2 \<Longrightarrow> f t1 t2 q = (x, socket_expire t1 q)"
  shows "\<exists>t. on_socket W q f s = Some (Inr x, t) \<and> released T n t"
proof -
  let ?q = "socket_receive W (tick s) q" and ?t1 = "time_time W (tick s + 1)" and ?t2 = "time_time W (tick s + 2)"
  have t: "socket_lines W (tick s) = []" "fle T ?t1" "fle T ?t2" "fle (Fin 0) ?t2"
    using W s(1) by (auto simp: silent_from_def)
  then have q: "due T ?q" using s(2) by (simp add: socket_receive_def due_def)
  show ?thesis
    using f [OF q t(2-4)] due_expire [OF q] s(1)
    by (simp add: on_socket_def pbind_def sense_def set_pad_def released_def)
qed

lemma yields_with_released:
  fixes f :: "pad \<Rightarrow> ('b, 'z client_scheme) py"
  assumes "silent_from W T n" "\<And>q. f (PadSocket q) = pbind (on_socket W q g) (\<lambda>y. pret (h y))"
    and "\<And>t1 t2 q. due T q \<Longrightarrow> fle T t1 \<Longrightarrow> fle T t2 \<Longrightarrow> fle (Fin 0) t2 \<Longrightarrow> g t1 t2 q = (x, socket_expire t1 q)"
  shows "yields (released T n) (with_pad f) (\<lambda>y t. released T n t \<and> y = h x)"
proof (rule yieldsI)
  fix s :: "'z client_scheme" assume "released T n s"
  then obtain q where q: "n \<le> tick s" "pad s = Some (PadSocket q)" "due T q" by (auto simp: released_def)
  obtain t where "on_socket W q g s = Some (Inr x, t)" "released T n t"
    using on_socket_released [where f = g and x = x, OF assms(1) q(1,3)] assms(3) by blast
  then show "\<exists>y t. with_pad f s = Some (Inr y, t) \<and> released T n t \<and> y = h x"
    by (simp add: with_pad_def q(2) assms(2) pbind_def)
qed

lemma pbind_unit [simp]: "pbind m pret = m"
  by (rule ext) (auto simp: pbind_def split: option.split sum.split)

lemma yields_released:
  fixes W T n
  assumes W: "silent_from W T n"
  defines "R \<equiv> released T n :: 'z client_scheme \<Rightarrow> bool"
  shows "yields R (btn W i) (\<lambda>x t. R t \<and> x = False)" "yields R (axis W i) (\<lambda>x t. R t \<and> x = Fin 0)"
    "yields R (pad_hat W) (\<lambda>h t. R t \<and> h = (0, 0))" "yields R (special_bits W b) (\<lambda>x t. R t \<and> x = b OR 0)"
proof -
  note y = yields_with_released [OF W]
  show "yields R (btn W i) (\<lambda>x t. R t \<and> x = False)" unfolding R_def btn_def
    by (rule y [where g = "\<lambda>t1 t2. socket_btn t1 t2 (int i)" and h = "\<lambda>x. x"]) (simp_all only: pad.case pbind_unit due_results)
  show "yields R (axis W i) (\<lambda>x t. R t \<and> x = Fin 0)" unfolding R_def axis_def
    by (rule y [where g = "\<lambda>t1 t2. socket_axis t1 t2 (int i)" and h = "\<lambda>x. x"]) (simp_all only: pad.case pbind_unit due_results)
  show "yields R (pad_hat W) (\<lambda>h t. R t \<and> h = (0, 0))" unfolding R_def pad_hat_def
    by (rule y [where g = socket_hat and h = "\<lambda>x. x"]) (simp_all only: pad.case pbind_unit due_results)
  show "yields R (special_bits W b) (\<lambda>x t. R t \<and> x = b OR 0)" unfolding R_def special_bits_def
    by (rule y [where g = socket_extra_buttons and h = "\<lambda>x. b OR x"]) (simp_all only: pad.case due_results)
qed

lemma yields_assume: "(A \<Longrightarrow> yields P m Q) \<Longrightarrow> yields (\<lambda>s. P s \<and> A) m Q"
  by (auto simp: yields_def)

lemma button_bits_released:
  assumes "silent_from W T n"
  shows "yields (released T n) (button_bits W l b) (\<lambda>x t. released T n t \<and> x = b)"
proof (induction l arbitrary: b)
  case (Cons e l)
  obtain i m where e: "e = (i, m)" by (cases e)
  have "yields (released T n) (or_bit (btn W i) m b) (\<lambda>x t. released T n t \<and> x = b)" unfolding or_bit_def
    by (rule yields_pbind [OF yields_released(1) [OF assms]]) (auto intro!: yields_pret)
  then show ?case unfolding e button_bits.simps
    by (rule yields_pbind) (rule yields_assume, simp add: Cons.IH)
qed (auto intro: yields_pret)

lemma build_packet_released:
  assumes "silent_from W T n"
  shows "yields (released T n) (build_packet W) (\<lambda>k t. released T n t \<and>
    k = \<lparr>pk_b = 0, pk_d = 8, pk_lx = Fin 0, pk_ly = Fin 0, pk_rx = Fin 0, pk_ry = Fin 0\<rparr>)"
  unfolding build_packet_def
proof (rule yields_pbind [OF button_bits_released [OF assms]], rule yields_assume, rule yields_pbind [OF yields_released(4) [OF assms]],
    rule yields_assume, rule yields_pbind [OF yields_released(3) [OF assms]], rule yields_assume)
  fix b b' h assume b: "b = (0 :: int)" "b' = b OR 0" "h = (0 :: int, 0 :: int)"
  note a = yields_released(2) [OF assms]
  have "map_of HAT_MAP h = Some 8" by (simp add: b HAT_MAP_def)
  moreover have "yields (released T n)
    (pbind (axis W 0) (\<lambda>lx. pbind (axis W 1) (\<lambda>ly. pbind (axis W 3) (\<lambda>rx. pbind (axis W 4) (\<lambda>ry.
      pret \<lparr>pk_b = b', pk_d = 8, pk_lx = lx, pk_ly = ly, pk_rx = rx, pk_ry = ry\<rparr>))))) (\<lambda>k t. released T n t \<and>
    k = \<lparr>pk_b = 0, pk_d = 8, pk_lx = Fin 0, pk_ly = Fin 0, pk_rx = Fin 0, pk_ry = Fin 0\<rparr>)"
    by (rule yields_pbind [OF a], rule yields_assume, rule yields_pbind [OF a], rule yields_assume,
        rule yields_pbind [OF a], rule yields_assume, rule yields_pbind [OF a], rule yields_assume, rule yields_pret) (simp add: b)
  ultimately show "yields (released T n) (case map_of HAT_MAP h of None \<Rightarrow> praise KeyError
    | Some d \<Rightarrow> pbind (axis W 0) (\<lambda>lx. pbind (axis W 1) (\<lambda>ly. pbind (axis W 3) (\<lambda>rx. pbind (axis W 4) (\<lambda>ry.
      pret \<lparr>pk_b = b', pk_d = d, pk_lx = lx, pk_ly = ly, pk_rx = rx, pk_ry = ry\<rparr>))))) (\<lambda>k t. released T n t \<and>
    k = \<lparr>pk_b = 0, pk_d = 8, pk_lx = Fin 0, pk_ly = Fin 0, pk_rx = Fin 0, pk_ry = Fin 0\<rparr>)"
    by simp
qed

lemma norm_axis_0: "norm_axis (Fin 0) = Inr 127"
  using norm_XInput [of 0] by (simp add: pyround_small)

text \<open>The events received, each with its time, from the start of the pad on.\<close>

definition after_events :: "(json \<Rightarrow> string) \<Rightarrow> (rat \<times> json) list \<Rightarrow> socket_pad" where
  "after_events repr evs =
     fold (\<lambda>(u, ev) q. case apply_event repr (Fin u) ev q of Some (_, q') \<Rightarrow> q' | None \<Rightarrow> q) evs PadSocket_init"

lemma due_after_events:
  assumes "list_all (\<lambda>(u, ev). u \<le> t) evs" "0 \<le> t"
  shows "due (fadd (Fin t) (Fin 5)) (after_events repr evs)"
  using assms(1)
proof (induction evs rule: rev_induct)
  case Nil
  have "fle (pyround 0) (pyround (t + 5))" using assms(2) by (intro pyround_mono) simp
  then show ?case by (simp add: after_events_def due_def PadSocket_init_def pyround_small)
next
  case (snoc e evs)
  obtain u ev where e: "e = (u, ev)" by (cases e)
  let ?T = "fadd (Fin t) (Fin 5)"
  from snoc have q: "due ?T (after_events repr evs)" and u: "u \<le> t" by (simp_all add: e)
  have "keeps (due ?T) (apply_event repr (Fin u) ev)" by (rule keeps_due) (rule fadd_mono [OF u order_refl])
  with q show ?case by (auto simp: after_events_def e keeps_def split: option.split)
qed

text \<open>
  C10. The socket pad lets go. Whatever events have been received, and whatever durations
  they ask for, five seconds after the last of them, and as long as no further line
  arrives, the packet that the bridge sends is the neutral one: no event can leave a button
  pressed.
\<close>

theorem socket_pad_lets_go:
  fixes c :: "'z client_scheme"
  assumes "list_all (\<lambda>(u, ev). u \<le> t) evs" "0 \<le> t"
    and "pad c = Some (PadSocket (after_events repr evs))" "silent_from W (fadd (Fin t) (Fin 5)) (tick c)"
  shows "\<exists>d. pbind (build_packet W) pack c = Some (Inr [0, 0, 8, 0x80, 0x80, 0x80, 0x80, 0], d)"
proof -
  have "released (fadd (Fin t) (Fin 5)) (tick c) c"
    using assms(3) due_after_events [OF assms(1,2)] by (simp add: released_def)
  then obtain d where d: "build_packet W c =
      Some (Inr \<lparr>pk_b = 0, pk_d = 8, pk_lx = Fin 0, pk_ly = Fin 0, pk_rx = Fin 0, pk_ry = Fin 0\<rparr>, d)"
    using build_packet_released [OF assms(4), unfolded yields_def] by blast
  show ?thesis
    unfolding pbind_Inr [where m = "build_packet W", OF d]
    by (simp add: pack_def norm_axis_0 plift_def pbind_def dead_zone_def)
qed

theorem socket_pad_lets_go_witness:
  "\<exists>d. pbind (build_packet (idle_world\<lparr>time_time := (\<lambda>_. Fin 9)\<rparr>)) pack (example_client (PadSocket
     (after_events (\<lambda>_. '''') [(1, JDict [(''button'', JStr ''a''), (''duration'', JInt 100)])]))) =
     Some (Inr [0, 0, 8, 0x80, 0x80, 0x80, 0x80, 0], d)"
proof -
  have "fadd (Fin 1) (Fin 5) = Fin 6" using fl_exact_int [of 6] by (simp add: pyround_small)
  then have "silent_from (idle_world\<lparr>time_time := (\<lambda>_. Fin 9)\<rparr>) (fadd (Fin 1) (Fin 5)) 0"
    by (simp add: silent_from_def idle_world_def)
  then show ?thesis
    using socket_pad_lets_go [of 1 "[(1, JDict [(''button'', JStr ''a''), (''duration'', JInt 100)])]"
      "example_client (PadSocket (after_events (\<lambda>_. []) [(1, JDict [(''button'', JStr ''a''), (''duration'', JInt 100)])]))"
      "\<lambda>_. []" "idle_world\<lparr>time_time := (\<lambda>_. Fin 9)\<rparr>"]
    by (simp add: example_client_def)
qed

text \<open>
  C31. How the network cuts the stream does not matter. Two sequences of chunks with the
  same bytes have the same effect on the pad, and end the connection the same way.
\<close>

theorem chunks_do_not_matter:
  assumes "[] \<notin> set chunks" "[] \<notin> set chunks'" "concat chunks = concat chunks'"
  shows "handle_client decode h chunks p = handle_client decode h chunks' p"
proof -
  have "recv_loop f [] chunks q = recv_loop f [] chunks' q" for f :: "bytes \<Rightarrow> (unit, socket_pad) py" and q
    using recv_loop_concat [of "[]" chunks f q] recv_loop_concat [of "[]" chunks' f q] assms by (metis append_Nil empty_iff list.set(1))
  then show ?thesis by (simp add: handle_client_def)
qed

definition ascii :: "bytes \<Rightarrow> string" where
  "ascii = map (\<lambda>b. char_of (unat b))"

theorem chunks_do_not_matter_witness:
  "handle_client ascii (handle_line (\<lambda>_. None) (\<lambda>_. []) (\<lambda>_. Fin 0) (\<lambda>_. []) ''peer'') [[0x61, 0x0A], [0x62]] PadSocket_init =
   handle_client ascii (handle_line (\<lambda>_. None) (\<lambda>_. []) (\<lambda>_. Fin 0) (\<lambda>_. []) ''peer'') [[0x61], [0x0A, 0x62]] PadSocket_init"
  by (rule chunks_do_not_matter) auto

text \<open>
  A line that is JSON but not an object ends its connection. For a number, a string, a
  list, \<open>null\<close> or a truth value, \<open>event.get\<close> raises an exception that nothing catches: the
  lines after it are lost, whatever they are, though the line itself has been counted as an
  event; the connection is still taken off the count of active peers.
\<close>

definition is_object :: "json \<Rightarrow> bool" where
  "is_object v \<longleftrightarrow> (case v of JDict _ \<Rightarrow> True | _ \<Rightarrow> False)"

lemma handle_line_not_object:
  assumes "line \<noteq> []" "loads line = Some v" "\<not> is_object v"
  shows "handle_line loads repr clock stamp peer line p =
    Some (Inl AttributeError, p\<lparr>total_events := total_events p + 1, last_peer := peer\<rparr>)"
  using assms by (cases v) (simp_all add: handle_line_def is_object_def pbind_def plift_def Let_def)

theorem not_an_object_ends_connection:
  assumes "newline \<notin> set l" "strip (decode l) \<noteq> []" "loads (strip (decode l)) = Some v" "\<not> is_object v"
  shows "handle_client decode (handle_line loads repr clock stamp peer) [l @ newline # rest] p =
    Some (Inl AttributeError, p\<lparr>total_events := total_events p + 1, last_peer := peer,
      active_peers := max 0 (active_peers p - 1)\<rparr>)"
proof -
  have t: "takeWhile (\<lambda>b. b \<noteq> newline) (l @ newline # rest) = l"
    using assms(1) by (induction l) auto
  show ?thesis
    using handle_line_not_object [where loads = loads, OF assms(2-4)]
    by (simp add: handle_client_def handle_lines.simps [of _ "l @ newline # rest"] t pbind_Inl)
qed

theorem not_an_object_ends_connection_witness:
  "handle_client ascii (handle_line (\<lambda>_. Some (JInt 1)) (\<lambda>_. '''') (\<lambda>_. Fin 0) (\<lambda>_. '''') ''peer'') [[0x31, 0x0A, 0x61, 0x0A]] PadSocket_init =
    Some (Inl AttributeError, PadSocket_init\<lparr>total_events := 1, last_peer := ''peer''\<rparr>)"
proof -
  have "strip (ascii [0x31]) \<noteq> []" by code_simp
  then show ?thesis
    using not_an_object_ends_connection [of "[0x31]" ascii "\<lambda>_. Some (JInt 1)" "JInt 1" "\<lambda>_. ''''" "\<lambda>_. Fin 0" "\<lambda>_. ''''" "''peer''" "[0x61, 0x0A]" PadSocket_init]
    by (simp add: is_object_def PadSocket_init_def)
qed

section \<open>The mouse\<close>

text \<open>
  Vertical mouse movement is lost. The bridge reads the horizontal axis of the right
  stick first, and every reading of an axis puts the pointer back to the centre. So, when
  the pointer still is where the first reading has put it, the vertical axis is zero in
  every packet, however far the pointer had moved.
\<close>

theorem mouse_vertical_lost:
  fixes s :: "'z client_scheme"
  assumes "pad s = Some (PadK (Some c) prev)" "have_mouse W" "mouse_position W (tick s + 1) = c"
  shows "pbind (axis W 3) (\<lambda>rx. pbind (axis W 4) (\<lambda>ry. pret (rx, ry))) s =
    Some (Inr (mouse_axis (fst (mouse_position W (tick s)) - fst prev), Fin 0),
      s\<lparr>tick := tick s + 2, pad := Some (PadK (Some c) c)\<rparr>)"
proof -
  have "mouse_axis 0 = Fin 0" by (simp add: mouse_axis_def pyround_small py_min_def py_max_def)
  then show ?thesis
    using assms by (simp add: axis_def with_pad_def PadK_axis_def pbind_def sense_def set_pad_def Let_def split_def)
qed

theorem mouse_vertical_lost_witness:
  "\<exists>t. pbind (axis (idle_world\<lparr>mouse_position := (\<lambda>n. if n = 0 then (15, 400) else (0, 0))\<rparr>) 3)
     (\<lambda>rx. pbind (axis (idle_world\<lparr>mouse_position := (\<lambda>n. if n = 0 then (15, 400) else (0, 0))\<rparr>) 4) (\<lambda>ry. pret (rx, ry)))
     (example_client (PadK (Some (0, 0)) (0, 0))) = Some (Inr (mouse_axis 15, Fin 0), t)"
  using mouse_vertical_lost [of "example_client (PadK (Some (0, 0)) (0, 0))" "(0, 0)" "(0, 0)"
      "idle_world\<lparr>mouse_position := (\<lambda>n. if n = 0 then (15, 400) else (0, 0))\<rparr>"]
  by (simp add: example_client_def idle_world_def)

end
