(* ===== verification/Bridge.thy ===== *)
theory Bridge
  imports ControllerPackets
begin

text \<open>
  The program \<open>xinput2serial.py\<close> itself: the handshake with the firmware over the serial
  port, the choice of a controller, the start, and the main loop with its reactions to a
  lost controller, to a window without focus and to the exit chord. Waiting has no
  effect but that the user may interrupt it. Messages are left out.
\<close>

section \<open>Arguments and state\<close>

datatype backend = backend_auto | backend_xinput | backend_pygame | backend_socket

datatype action = action_neutral | action_home | action_none

text \<open>The arguments that the program looks at; the empty text stands for an argument that is not given.\<close>

record args =
  arg_keyboard :: bool
  arg_port :: string
  arg_controller :: "int option"
  arg_backend :: backend
  arg_window :: string
  arg_auto :: bool
  arg_sync_attempts :: int
  arg_inactive_action :: action
  arg_disconnect_action :: action
  arg_home_duration :: pyfloat
  arg_home_cooldown :: pyfloat
  arg_exit_chord_signal_file :: string

text \<open>The variables that change, of \<open>read_until_quiet\<close> and of the main program.\<close>

record bridge = client +
  rx_data :: bytes
  quiet_deadline :: pyfloat
  was_focused :: bool
  inactive_home_until :: pyfloat
  last_disconnect_home :: pyfloat
  disconnect_home_until :: pyfloat
  exit_signal :: bool
  ser_closed :: bool

text \<open>\<open>time.sleep\<close>: a point at which the user may interrupt.\<close>

definition py_sleep :: "world \<Rightarrow> (unit, 'z client_scheme) py" where
  "py_sleep W = pbind (sense (interrupted W)) (\<lambda>i. if i then praise KeyboardInterrupt else pret ())"

section \<open>The handshake\<close>

definition ser_read :: "world \<Rightarrow> (u8 option, 'z client_scheme) py" where
  "ser_read W =
     pbind (sense (serial_works W)) (\<lambda>ok. if ok then sense (serial_read W) else praise SerialException)"

abbreviation (input) quiet_seconds :: pyfloat where "quiet_seconds \<equiv> pyround (5 / 100)"

text \<open>One turn of the loop of \<open>read_until_quiet\<close>.\<close>

definition quiet_turn :: "world \<Rightarrow> pyfloat \<Rightarrow> (unit loop, 'z bridge_scheme) py" where
  "quiet_turn W deadline =
     pbind (sense (time_time W)) (\<lambda>now.
     if \<not> flt now deadline then pret (Break ()) else
     pbind (ser_read W) (\<lambda>b.
     case b of
       Some x \<Rightarrow>
         pbind (pmod (\<lambda>s. s\<lparr>rx_data := rx_data s @ [x]\<rparr>)) (\<lambda>_.
         pbind (sense (time_time W)) (\<lambda>t.
         pbind (pmod (\<lambda>s. s\<lparr>quiet_deadline := fadd t quiet_seconds\<rparr>)) (\<lambda>_. pret Continue)))
     | None \<Rightarrow>
         pbind (sense (time_time W)) (\<lambda>t.
         pbind (pget quiet_deadline) (\<lambda>q. pret (if fle q t then Break () else Continue)))))"

definition read_until_quiet :: "world \<Rightarrow> (bytes, 'z bridge_scheme) py" where
  "read_until_quiet W =
     pbind (pmod (\<lambda>s. s\<lparr>rx_data := []\<rparr>)) (\<lambda>_.
     pbind (sense (time_time W)) (\<lambda>t1.
     pbind (sense (time_time W)) (\<lambda>t2.
     pbind (pmod (\<lambda>s. s\<lparr>quiet_deadline := fadd t2 quiet_seconds\<rparr>)) (\<lambda>_.
     pbind (ploop (quiet_turn W (fadd t1 (Fin 1)))) (\<lambda>_. pget rx_data)))))"

definition expect_turn :: "world \<Rightarrow> pyfloat \<Rightarrow> u8 \<Rightarrow> (bool loop, 'z bridge_scheme) py" where
  "expect_turn W deadline expected =
     pbind (sense (time_time W)) (\<lambda>now.
     if \<not> flt now deadline then pret (Break False) else
     pbind (ser_read W) (\<lambda>b. pret (if b = Some expected then Break True else Continue)))"

definition read_expected :: "world \<Rightarrow> u8 \<Rightarrow> (bool, 'z bridge_scheme) py" where
  "read_expected W expected =
     pbind (sense (time_time W)) (\<lambda>t. ploop (expect_turn W (fadd t (Fin 1)) expected))"

text \<open>\<open>reset_input_buffer\<close> throws away what has been received, or raises when the port is lost.\<close>

definition reset_input_buffer :: "world \<Rightarrow> (unit, 'z client_scheme) py" where
  "reset_input_buffer W =
     pbind (sense (serial_works W)) (\<lambda>ok. if ok then pret () else praise SerialException)"

definition sync :: "world \<Rightarrow> (bool, 'z bridge_scheme) py" where
  "sync W =
     pbind (reset_input_buffer W) (\<lambda>_.
     pbind (ser_raw W (replicate 9 0xFF)) (\<lambda>_.
     pbind (read_until_quiet W) (\<lambda>start_responses.
     if 0xFF \<notin> set start_responses then pret False else
     pbind (ser_raw W [0x33]) (\<lambda>_.
     pbind (read_expected W 0xCC) (\<lambda>ok1.
     if \<not> ok1 then pret False else
     pbind (ser_raw W [0xCC]) (\<lambda>_.
     pbind (read_expected W 0x33) (\<lambda>ok2. pret ok2)))))))"

section \<open>Which controller\<close>

fun detect_from :: "world \<Rightarrow> int list \<Rightarrow> (int option, 'z client_scheme) py" where
  "detect_from W [] = pret None"
| "detect_from W (slot # slots) =
     pbind (PadX_ok W slot) (\<lambda>st. if st \<noteq> None then pret (Some slot) else detect_from W slots)"

definition detect_controller_slot :: "world \<Rightarrow> (int option, 'z client_scheme) py" where
  "detect_controller_slot W = (if \<not> xinput_loaded W then pret None else detect_from W [0, 1, 2, 3])"

text \<open>Open an SDL controller and look whether it is attached; an exception counts as no.\<close>

definition probe_sdl :: "world \<Rightarrow> int \<Rightarrow> (pad option, 'z client_scheme) py" where
  "probe_sdl W index =
     pcatch is_Exception
       (pbind (PadSDL_new W index) (\<lambda>p.
        pbind (sense (\<lambda>t. sdl_attached W t index)) (\<lambda>ok. pret (if ok then Some p else None))))
       (pret None)"

fun detect_sdl_from :: "world \<Rightarrow> int list \<Rightarrow> (int option, 'z client_scheme) py" where
  "detect_sdl_from W [] = pret None"
| "detect_sdl_from W (index # rest) =
     pbind (sense (\<lambda>t. sdl_is_controller W t index)) (\<lambda>c.
     if \<not> c then detect_sdl_from W rest else
     pbind (probe_sdl W index) (\<lambda>p. if p \<noteq> None then pret (Some index) else detect_sdl_from W rest))"

definition detect_sdl_controller_index :: "world \<Rightarrow> (int option, 'z client_scheme) py" where
  "detect_sdl_controller_index W =
     pbind (init_sdl W) (\<lambda>ready.
     if \<not> ready then pret None else
     pbind (sense (sdl_count W)) (\<lambda>n. detect_sdl_from W (map int [0..<nat n])))"

definition create_xinput :: "world \<Rightarrow> args \<Rightarrow> (pad option, 'z client_scheme) py" where
  "create_xinput W A =
     pbind (if arg_controller A = None \<and> arg_auto A then detect_controller_slot W else pret (arg_controller A)) (\<lambda>slot.
     case slot of
       None \<Rightarrow> pret None
     | Some slot \<Rightarrow>
         pbind (PadX_ok W slot) (\<lambda>st. pret (case st of None \<Rightarrow> None | Some g \<Rightarrow> Some (PadX slot g))))"

definition create_sdl :: "world \<Rightarrow> args \<Rightarrow> (pad option, 'z client_scheme) py" where
  "create_sdl W A =
     pbind (if arg_controller A = None \<and> arg_auto A then detect_sdl_controller_index W else pret (arg_controller A)) (\<lambda>index.
     case index of None \<Rightarrow> pret None | Some index \<Rightarrow> probe_sdl W index)"

definition create_controller :: "world \<Rightarrow> args \<Rightarrow> (pad option, 'z client_scheme) py" where
  "create_controller W A =
     (if arg_backend A = backend_socket then pret (Some (PadSocket PadSocket_init)) else
      pbind (if arg_backend A = backend_xinput \<or> arg_backend A = backend_auto then create_xinput W A else pret None) (\<lambda>p.
      if p \<noteq> None then pret p else
      if arg_backend A = backend_pygame \<or> arg_backend A = backend_auto then create_sdl W A else pret None))"

definition new_pad :: "world \<Rightarrow> args \<Rightarrow> (int \<times> int) option \<Rightarrow> (pad option, 'z client_scheme) py" where
  "new_pad W A center =
     (if arg_keyboard A then pbind (PadK_new W center) (\<lambda>p. pret (Some p)) else create_controller W A)"

section \<open>The main loop\<close>

definition neutral :: packet where
  "neutral = \<lparr>pk_b = 0, pk_d = 8, pk_lx = Fin 0, pk_ly = Fin 0, pk_rx = Fin 0, pk_ry = Fin 0\<rparr>"

definition home :: packet where
  "home = \<lparr>pk_b = SWITCH_HOME_BIT, pk_d = 8, pk_lx = Fin 0, pk_ly = Fin 0, pk_rx = Fin 0, pk_ry = Fin 0\<rparr>"

definition send :: "world \<Rightarrow> packet \<Rightarrow> (unit, 'z client_scheme) py" where
  "send W k = pbind (pack k) (ser_write W)"

definition focus_ok :: "world \<Rightarrow> string \<Rightarrow> (bool, 'z client_scheme) py" where
  "focus_ok W title =
     (if \<not> have_win32gui W then pret True else
      pbind (sense (foreground_title W)) (\<lambda>f. pret (contains (lower title) (lower f))))"

definition focused :: "world \<Rightarrow> args \<Rightarrow> (bool, 'z client_scheme) py" where
  "focused W A = (if arg_window A = [] then pret True else focus_ok W (arg_window A))"

text \<open>The pad is lost: a packet, a pause, and another pad, if there is one.\<close>

definition lost_turn :: "world \<Rightarrow> args \<Rightarrow> (int \<times> int) option \<Rightarrow> pyfloat \<Rightarrow> (unit loop, 'z bridge_scheme) py" where
  "lost_turn W A center now =
     pbind (pget last_disconnect_home) (\<lambda>last.
     pbind (pwhen (arg_disconnect_action A = action_home \<and> fle (arg_home_cooldown A) (fsub now last))
       (pmod (\<lambda>s. s\<lparr>last_disconnect_home := now, disconnect_home_until := fadd now (arg_home_duration A)\<rparr>))) (\<lambda>_.
     pbind (pget disconnect_home_until) (\<lambda>until.
     pbind (if flt now until then send W home else pwhen (arg_disconnect_action A \<noteq> action_none) (send W neutral)) (\<lambda>_.
     pbind (py_sleep W) (\<lambda>_.
     pbind (new_pad W A center) (\<lambda>p.
     pbind (set_pad p) (\<lambda>_.
     pbind (pwhen (p = None) (py_sleep W)) (\<lambda>_. pret Continue))))))))"

definition unfocused_turn :: "world \<Rightarrow> args \<Rightarrow> pyfloat \<Rightarrow> (unit loop, 'z bridge_scheme) py" where
  "unfocused_turn W A now =
     pbind (pget was_focused) (\<lambda>w.
     pbind (pwhen (w \<and> arg_inactive_action A = action_home)
       (pmod (\<lambda>s. s\<lparr>inactive_home_until := fadd now (arg_home_duration A)\<rparr>))) (\<lambda>_.
     pbind (pget inactive_home_until) (\<lambda>until.
     pbind (if flt now until then send W home else pwhen (arg_inactive_action A \<noteq> action_none) (send W neutral)) (\<lambda>_.
     pbind (pmod (\<lambda>s. s\<lparr>was_focused := False\<rparr>)) (\<lambda>_.
     pbind (py_sleep W) (\<lambda>_. pret Continue))))))"

text \<open>The HOME pulse of the exit chord, which ends the loop.\<close>

definition chord_turn :: "world \<Rightarrow> pyfloat \<Rightarrow> (unit loop, 'z client_scheme) py" where
  "chord_turn W until =
     pbind (sense (time_time W)) (\<lambda>now.
     if \<not> flt now until then pret (Break ()) else
     pbind (send W home) (\<lambda>_. pbind (py_sleep W) (\<lambda>_. pret Continue)))"

definition exit_session :: "world \<Rightarrow> args \<Rightarrow> (unit loop, 'z bridge_scheme) py" where
  "exit_session W A =
     pbind (sense (time_time W)) (\<lambda>now.
     pbind (ploop (chord_turn W (fadd now (arg_home_duration A)))) (\<lambda>_.
     pbind (send W neutral) (\<lambda>_.
     pbind (pmod (\<lambda>s. s\<lparr>exit_signal := True\<rparr>)) (\<lambda>_. pret (Break ())))))"

definition focused_turn :: "world \<Rightarrow> args \<Rightarrow> (unit loop, 'z bridge_scheme) py" where
  "focused_turn W A =
     pbind (pmod (\<lambda>s. s\<lparr>was_focused := True\<rparr>)) (\<lambda>_.
     pbind (if arg_exit_chord_signal_file A \<noteq> [] then exit_chord_pressed W else pret False) (\<lambda>leave.
     if leave then exit_session W A else
     pbind (build_packet W) (\<lambda>k.
     pbind (send W k) (\<lambda>_.
     pbind (py_sleep W) (\<lambda>_. pret Continue)))))"

definition bridge_turn :: "world \<Rightarrow> args \<Rightarrow> (int \<times> int) option \<Rightarrow> (unit loop, 'z bridge_scheme) py" where
  "bridge_turn W A center =
     pbind (sense (time_time W)) (\<lambda>now.
     pbind (pad_ok W) (\<lambda>ok.
     if \<not> ok then lost_turn W A center now else
     pbind (focused W A) (\<lambda>f.
     if \<not> f then unfocused_turn W A now else focused_turn W A)))"

definition bridge_loop :: "world \<Rightarrow> args \<Rightarrow> (int \<times> int) option \<Rightarrow> (unit, 'z bridge_scheme) py" where
  "bridge_loop W A center =
     pfinally (pcatch (\<lambda>e. e = KeyboardInterrupt) (ploop (bridge_turn W A center)) (pret ()))
       (pmod (\<lambda>s. s\<lparr>ser_closed := True\<rparr>))"

section \<open>The start\<close>

text \<open>The centre of the window, for the mouse.\<close>

definition find_center :: "world \<Rightarrow> args \<Rightarrow> ((int \<times> int) option, 'z client_scheme) py" where
  "find_center W A =
     (if arg_keyboard A \<and> arg_window A \<noteq> [] \<and> have_win32gui W then
        pbind (sense (\<lambda>t. find_window W t (arg_window A))) (\<lambda>r.
        pret (case r of None \<Rightarrow> None | Some (l, t, r, b) \<Rightarrow> Some ((l + r) div 2, (t + b) div 2)))
      else pret None)"

definition select_port :: "world \<Rightarrow> args \<Rightarrow> (string, 'z client_scheme) py" where
  "select_port W A =
     (if arg_port A \<noteq> [] then pret (arg_port A) else
      pbind (sense (comports W)) (\<lambda>ports. case ports of p # _ \<Rightarrow> pret p | [] \<Rightarrow> praise SystemExit))"

fun sync_attempts :: "world \<Rightarrow> nat \<Rightarrow> (bool, 'z bridge_scheme) py" where
  "sync_attempts W 0 = pret False"
| "sync_attempts W (Suc n) =
     pbind (sync W) (\<lambda>ok. if ok then pret True else pbind (py_sleep W) (\<lambda>_. sync_attempts W n))"

definition start_bridge :: "world \<Rightarrow> args \<Rightarrow> ((int \<times> int) option, 'z bridge_scheme) py" where
  "start_bridge W A =
     pbind (find_center W A) (\<lambda>center.
     pbind (select_port W A) (\<lambda>port.
     pbind (new_pad W A center) (\<lambda>p.
     if p = None then praise SystemExit else
     pbind (set_pad p) (\<lambda>_.
     pbind (pad_ok W) (\<lambda>ok.
     if \<not> ok then praise SystemExit else
     pbind (sense (serial_opens W)) (\<lambda>opens.
     if \<not> opens then praise SerialException else
     pbind (sync_attempts W (nat (arg_sync_attempts A))) (\<lambda>synced.
     if \<not> synced then praise SystemExit else
     pbind (pmod (\<lambda>s. s\<lparr>was_focused := True, inactive_home_until := Fin 0, last_disconnect_home := Fin 0,
       disconnect_home_until := Fin 0\<rparr>)) (\<lambda>_. pret center))))))))"

definition bridge_main :: "world \<Rightarrow> args \<Rightarrow> (unit, 'z bridge_scheme) py" where
  "bridge_main W A = pbind (start_bridge W A) (bridge_loop W A)"

section \<open>What the main loop writes\<close>

text \<open>Everything written since the output was \<open>out\<close> satisfies \<open>P\<close>.\<close>

definition out_from :: "int list list \<Rightarrow> (int list \<Rightarrow> bool) \<Rightarrow> 'z client_scheme \<Rightarrow> bool" where
  "out_from out P s \<longleftrightarrow> (\<exists>ws. serial_out s = out @ ws \<and> list_all P ws)"

lemma out_from_refl: "out_from (serial_out s) P s"
  by (simp add: out_from_def)

lemma out_from_cong: "serial_out s = serial_out t \<Longrightarrow> out_from out P s = out_from out P t"
  by (simp add: out_from_def)

lemma keeps_sense [keeps_intros]: "(\<And>s n. P (s\<lparr>tick := n\<rparr>) = P s) \<Longrightarrow> keeps P (sense f)"
  by (auto simp: keeps_def sense_def)

lemma keeps_eta [simp]: "keeps P (\<lambda>s. Some (r, s))"
  by (simp add: keeps_def)

text \<open>A predicate on the state that does not look at the pad or the clock.\<close>

definition pad_free :: "('z client_scheme \<Rightarrow> bool) \<Rightarrow> bool" where
  "pad_free P \<longleftrightarrow> (\<forall>s n p. P (s\<lparr>tick := n\<rparr>) = P s \<and> P (s\<lparr>pad := p\<rparr>) = P s)"

lemma pad_free_out: "pad_free (out_from out P)"
  by (simp add: pad_free_def out_from_def)

lemma keeps_pad_free:
  assumes P: "pad_free P"
  shows "keeps P (sense f)" "keeps P (set_pad p)" "keeps P (on_socket W q g)" "keeps P (key W k)"
proof -
  have t: "P (s\<lparr>tick := n\<rparr>) = P s" "P (s\<lparr>pad := p\<rparr>) = P s" for s n p using P by (auto simp: pad_free_def)
  show s: "keeps P (sense f)" for f by (rule keeps_sense) (rule t(1))
  show p: "keeps P (set_pad p)" for p unfolding set_pad_def by (rule keeps_pmod) (simp add: t(2))
  show "keeps P (on_socket W q g)" unfolding on_socket_def by (auto intro!: keeps_pbind s p keeps_basic split: prod.split)
  show "keeps P (key W k)" unfolding key_def by (rule s)
qed

lemma keeps_methods:
  assumes P: "pad_free P"
  shows "keeps P (pad_ok W)" "keeps P (btn W i)" "keeps P (axis W i)" "keeps P (pad_hat W)" "keeps P (over_half W i)"
    "keeps P (PadX_ok W slot)" "keeps P (PadSDL_new W index)" "keeps P (PadK_new W center)" "keeps P (py_sleep W)"
proof -
  note p = keeps_pad_free [OF P] and i = keeps_pbind keeps_basic keeps_if
  show "keeps P (PadX_ok W slot)" for slot unfolding PadX_ok_def by (intro i p)
  then show "keeps P (pad_ok W)" unfolding pad_ok_def with_pad_def
    by (auto intro!: i p split: option.split pad.split)
  show "keeps P (btn W i)" unfolding btn_def with_pad_def PadSDL_btn_def
    by (auto intro!: i p split: option.split pad.split)
  show a: "keeps P (axis W i)" for i unfolding axis_def with_pad_def PadSDL_axis_def PadK_axis_def key_axis_def Let_def
    by (auto intro!: i p split: option.split pad.split prod.split)
  show "keeps P (pad_hat W)" unfolding pad_hat_def with_pad_def PadSDL_hat_def
    by (auto intro!: i p split: option.split pad.split)
  show "keeps P (over_half W i)" unfolding over_half_def by (intro i a)
  show "keeps P (PadSDL_new W index)" "keeps P (PadK_new W center)" "keeps P (py_sleep W)"
    unfolding PadSDL_new_def PadK_new_def py_sleep_def init_sdl_def by (auto intro!: i p split: option.split)
qed

lemma keeps_logic:
  "keeps P a \<Longrightarrow> keeps P b \<Longrightarrow> keeps P (pand a b)" "keeps P a \<Longrightarrow> keeps P b \<Longrightarrow> keeps P (por a b)"
  "keeps P a \<Longrightarrow> keeps P (or_bit a m n)"
  unfolding pand_def por_def or_bit_def by (auto intro!: keeps_intros)

lemma keeps_build:
  assumes P: "pad_free P"
  shows "keeps P (build_packet W)" "keeps P (exit_chord_pressed W)"
proof -
  note i = keeps_pbind keeps_basic keeps_if keeps_logic and p = keeps_pad_free [OF P] keeps_methods [OF P]
  have b: "keeps P (button_bits W l b)" for l b
  proof (induction l arbitrary: b)
    case (Cons e l)
    then show ?case by (cases e) (auto intro!: i p)
  qed auto
  have "keeps P (special_bits W b)" for b unfolding special_bits_def with_pad_def
    by (auto intro!: i p split: option.split pad.split)
  then show "keeps P (build_packet W)" unfolding build_packet_def by (auto intro!: i b p split: option.split)
  show "keeps P (exit_chord_pressed W)" unfolding exit_chord_pressed_def with_pad_def
    by (auto intro!: i p split: option.split)
qed

lemma keeps_new_pad:
  assumes P: "pad_free P"
  shows "keeps P (new_pad W A center)"
proof -
  note i = keeps_pbind keeps_basic keeps_if keeps_pcatch and p = keeps_pad_free [OF P] keeps_methods [OF P]
  have d: "keeps P (detect_from W l)" for l
    by (induction l) (simp_all only: detect_from.simps keeps_basic, auto intro!: i p)
  have s: "keeps P (probe_sdl W index)" for index unfolding probe_sdl_def by (intro i p)
  have e: "keeps P (detect_sdl_from W l)" for l
    by (induction l) (simp_all only: detect_sdl_from.simps keeps_basic, auto intro!: i p s)
  have "keeps P (create_xinput W A)" unfolding create_xinput_def detect_controller_slot_def
    by (auto intro!: i d p split: option.split)
  moreover have "keeps P (create_sdl W A)" unfolding create_sdl_def detect_sdl_controller_index_def init_sdl_def
    by (auto intro!: i e s p split: option.split)
  ultimately show ?thesis unfolding new_pad_def create_controller_def by (auto intro!: i p)
qed

lemma dead_zone_byte: "0 \<le> a \<Longrightarrow> a \<le> 255 \<Longrightarrow> 0 \<le> dead_zone a \<and> dead_zone a \<le> 255"
  by (simp add: dead_zone_def)

lemma byte_mask: "0 \<le> x AND 255 \<and> x AND 255 \<le> (255 :: int)"
  using take_bit_eq_mask [of 8 x] take_bit_nonnegative [of 8 x] take_bit_int_less_exp [of 8 x]
  by (simp add: mask_eq_exp_minus_1)

text \<open>The bytes of a packet and its checksum.\<close>

definition is_packet :: "int list \<Rightarrow> bool" where
  "is_packet w \<longleftrightarrow> (\<exists>p :: bytes. length p = 8 \<and> w = UART_write (map uint p))"

lemma packet_bytes:
  assumes "length bs = 8" "\<forall>x \<in> set bs. 0 \<le> x \<and> x \<le> 255"
  shows "is_packet (UART_write bs)"
proof -
  have "map uint (map (word_of_int :: int \<Rightarrow> u8) bs) = bs"
    using assms(2) by (auto intro!: map_idI simp: uint_word_of_int_eq take_bit_int_eq_self)
  then show ?thesis using assms(1) unfolding is_packet_def by (metis length_map)
qed

lemma norm_axis_byte: "norm_axis v = Inr n \<Longrightarrow> 0 \<le> n \<and> n \<le> 255"
  using byte_mask by (auto simp: norm_axis_def split: sum.splits)

lemma pack_result:
  assumes "pack k s = Some (r, t)"
  shows "t = s" "r = Inr bs \<Longrightarrow> is_packet (UART_write bs)"
proof -
  show "t = s" using assms by (auto simp: pack_def pbind_eq)
  assume "r = Inr bs"
  with assms obtain a b c d where n: "norm_axis (pk_lx k) = Inr a" "norm_axis (pk_ly k) = Inr b"
      "norm_axis (pk_rx k) = Inr c" "norm_axis (pk_ry k) = Inr d"
    and bs: "bs = [drop_bit 8 (pk_b k) AND 0xFF, pk_b k AND 0xFF, pk_d k AND 0xFF,
      dead_zone a, dead_zone b, dead_zone c, dead_zone d, 0]"
    by (auto simp: pack_def pbind_eq)
  show "is_packet (UART_write bs)"
    by (rule packet_bytes) (use n [THEN norm_axis_byte] byte_mask dead_zone_byte in \<open>auto simp: bs\<close>)
qed

lemma pack_home_neutral:
  "pack neutral s = Some (Inr [0, 0, 8, 0x80, 0x80, 0x80, 0x80, 0], s)"
  "pack home s = Some (Inr [0x10, 0, 8, 0x80, 0x80, 0x80, 0x80, 0], s)"
  by (simp_all add: pack_def neutral_def home_def norm_axis_0 pbind_def dead_zone_def)

lemma keeps_raw: "P bs \<Longrightarrow> keeps (out_from out P) (ser_raw W bs)"
  unfolding ser_raw_def
  by (intro keeps_pbind keeps_if keeps_basic keeps_pad_free(1) [OF pad_free_out] keeps_pmod) (auto simp: out_from_def)

lemma keeps_send:
  assumes "\<And>bs (s :: 'z client_scheme). pack k s = Some (Inr bs, s) \<Longrightarrow> P (UART_write bs)"
  shows "keeps (out_from out P) (send W k :: (unit, 'z client_scheme) py)"
proof (rule keepsI)
  fix s t :: "'z client_scheme" and r assume s: "out_from out P s" and run: "send W k s = Some (r, t)"
  show "out_from out P t"
  proof (cases "pack k s")
    case None
    with run show ?thesis by (simp add: send_def pbind_def)
  next
    case (Some y)
    obtain q u where y: "y = (q, u)" by (cases y)
    from Some y have p: "pack k s = Some (q, s)" using pack_result(1) [of k s q u] by simp
    show ?thesis
    proof (cases q)
      case (Inl e)
      with run p s show ?thesis by (simp add: send_def pbind_def)
    next
      case (Inr bs)
      with p have "P (UART_write bs)" by (auto intro: assms)
      then have "keeps (out_from out P) (ser_write W bs)" unfolding ser_write_def by (rule keeps_raw)
      moreover from run p Inr have "ser_write W bs s = Some (r, t)" by (simp add: send_def pbind_def)
      ultimately show ?thesis using s by (auto dest: keepsD)
    qed
  qed
qed

lemma keeps_fields:
  "keeps (out_from out P) (pmod (\<lambda>s. s\<lparr>was_focused := w\<rparr>))" "keeps (out_from out P) (pmod (\<lambda>s. s\<lparr>inactive_home_until := u\<rparr>))"
  "keeps (out_from out P) (pmod (\<lambda>s. s\<lparr>last_disconnect_home := u, disconnect_home_until := v\<rparr>))"
  "keeps (out_from out P) (pmod (\<lambda>s. s\<lparr>exit_signal := w\<rparr>))"
  by (rule keeps_pmod, simp add: out_from_def)+

lemma keeps_bridge_turn:
  assumes "\<And>k bs (s :: 'z bridge_scheme). pack k s = Some (Inr bs, s) \<Longrightarrow> P (UART_write bs)"
  shows "keeps (out_from out P) (bridge_turn W A center :: (unit loop, 'z bridge_scheme) py)"
proof -
  have send: "keeps (out_from out P) (send W k :: (unit, 'z bridge_scheme) py)" for k
    by (rule keeps_send) (rule assms)
  note p = keeps_pad_free [OF pad_free_out] keeps_methods [OF pad_free_out] keeps_build [OF pad_free_out] keeps_new_pad [OF pad_free_out]
  note i = keeps_pbind keeps_basic keeps_if keeps_pwhen keeps_ploop keeps_fields send p
  have "keeps (out_from out P) (lost_turn W A center now :: (unit loop, 'z bridge_scheme) py)"
    "keeps (out_from out P) (unfocused_turn W A now :: (unit loop, 'z bridge_scheme) py)" for now
    unfolding lost_turn_def unfocused_turn_def by (intro i)+
  moreover have "keeps (out_from out P) (focused_turn W A :: (unit loop, 'z bridge_scheme) py)"
    unfolding focused_turn_def exit_session_def chord_turn_def by (intro i)
  moreover have "keeps (out_from out P) (focused W A)"
    unfolding focused_def focus_ok_def by (intro i)
  ultimately show ?thesis unfolding bridge_turn_def by (intro i)
qed

section \<open>Runs\<close>

text \<open>The states that the main loop goes through; a turn that raises or ends the loop is its last one.\<close>

inductive bridge_run :: "world \<Rightarrow> args \<Rightarrow> (int \<times> int) option \<Rightarrow> 'z bridge_scheme \<Rightarrow> 'z bridge_scheme \<Rightarrow> bool"
  for W A center c where
  run_start: "bridge_run W A center c c"
| run_turn: "bridge_run W A center c d \<Longrightarrow> bridge_turn W A center d = Some (r, e) \<Longrightarrow> bridge_run W A center c e"

lemma bridge_run_keeps:
  assumes "keeps P (bridge_turn W A center)" "bridge_run W A center c d" "P c"
  shows "P d"
  using assms(2,3) by induction (auto dest: keepsD [OF assms(1)])

text \<open>The packets that are written, one after the other, into the firmware.\<close>

definition packet_of :: "int list \<Rightarrow> bytes" where
  "packet_of w = map word_of_int (take 8 w)"

lemma wire_of_packet:
  assumes "is_packet w"
  shows "map word_of_int w = packet_of w @ [crc8_of (packet_of w)]" "length (packet_of w) = 8"
proof -
  from assms obtain p :: bytes where p: "length p = 8" "w = UART_write (map uint p)" by (auto simp: is_packet_def)
  then have "packet_of w = p" by (simp add: packet_of_def UART_write_def o_def)
  with p show "map word_of_int w = packet_of w @ [crc8_of (packet_of w)]" "length (packet_of w) = 8"
    by (simp_all add: UART_write_def crc8_uint o_def)
qed

lemma rx_packets:
  assumes "list_all is_packet ws" "transmitter_drains E" "rx_inv s" "rx_abs s = Synced []"
  shows "\<exists>t. rx_run E (map word_of_int (concat ws)) s = Some t \<and> rx_inv t \<and> rx_abs t = Synced [] \<and>
    (if ws = [] then t = s else controllerReport t = report_of_packet (packet_of (last ws)) \<and>
      selectedReport t = controllerReport_ptr \<and> millis t = 0)"
  using assms(1)
proof (induction ws rule: rev_induct)
  case Nil
  then show ?case using assms(3,4) by simp
next
  case (snoc w ws)
  then obtain t where t: "rx_run E (map word_of_int (concat ws)) s = Some t" "rx_inv t" "rx_abs t = Synced []" by auto
  have w: "is_packet w" using snoc.prems by simp
  obtain u where u: "rx_run E (map word_of_int w) t = Some u" using rx_run_total [OF assms(2)] by blast
  from packet_accepted [OF t(2,3) wire_of_packet(2) [OF w] u [unfolded wire_of_packet(1) [OF w]]] t u
  show ?case by (simp add: rx_run_append)
qed

section \<open>A lost controller\<close>

text \<open>No XInput controller is connected until the given tick.\<close>

definition unplugged_until :: "world \<Rightarrow> nat \<Rightarrow> bool" where
  "unplugged_until W n \<longleftrightarrow> (\<forall>t < n. \<forall>slot. XInputGetState W t slot = None)"

text \<open>A computation that returns \<open>x\<close> after at most \<open>k\<close> accesses to the world, and changes nothing.\<close>

definition looks :: "nat \<Rightarrow> ('a, 'z client_scheme) py \<Rightarrow> 'z client_scheme \<Rightarrow> 'a \<Rightarrow> bool" where
  "looks k m s x \<longleftrightarrow> (\<exists>n \<ge> tick s. n \<le> tick s + k \<and> m s = Some (Inr x, s\<lparr>tick := n\<rparr>))"

lemma looksE:
  assumes "looks k m s x"
  obtains n where "tick s \<le> n" "n \<le> tick s + k" "m s = Some (Inr x, s\<lparr>tick := n\<rparr>)"
  using assms by (auto simp: looks_def)

lemma looks_pret [simp]: "looks k (pret x) s x"
  by (auto simp: looks_def intro!: exI [of _ "tick s"])

lemma looks_bind:
  assumes "looks j m s x" "\<And>n. tick s \<le> n \<Longrightarrow> n \<le> tick s + j \<Longrightarrow> looks k (f x) (s\<lparr>tick := n\<rparr>) y"
  shows "looks (j + k) (pbind m f) s y"
proof -
  from assms(1) obtain n where n: "tick s \<le> n" "n \<le> tick s + j" "m s = Some (Inr x, s\<lparr>tick := n\<rparr>)" by (rule looksE)
  from assms(2) [OF n(1,2)] obtain l where "n \<le> l" "l \<le> n + k" "f x (s\<lparr>tick := n\<rparr>) = Some (Inr y, s\<lparr>tick := l\<rparr>)"
    by (rule looksE) simp
  with n show ?thesis by (auto simp: looks_def pbind_def intro!: exI [of _ l])
qed

lemma looks_sense: "f (tick s) = x \<Longrightarrow> looks 1 (sense f) s x"
  by (auto simp: looks_def sense_def intro!: exI [of _ "tick s + 1"])

lemma looks_PadX_ok: "unplugged_until W (tick s + 1) \<Longrightarrow> looks 1 (PadX_ok W slot) s None"
  unfolding PadX_ok_def using looks_sense [of "\<lambda>t. XInputGetState W t slot" s None] by (simp add: unplugged_until_def)

lemma unplugged_mono: "unplugged_until W n \<Longrightarrow> m \<le> n \<Longrightarrow> unplugged_until W m"
  by (simp add: unplugged_until_def)

lemma looks_detect: "unplugged_until W (tick s + length l) \<Longrightarrow> looks (length l) (detect_from W l) s None"
proof (induction l arbitrary: s)
  case (Cons a l)
  have "looks 1 (PadX_ok W a) s None" by (rule looks_PadX_ok) (rule unplugged_mono [OF Cons.prems], simp)
  then have "looks (1 + length l) (detect_from W (a # l)) s None"
    unfolding detect_from.simps
    by (rule looks_bind) (use Cons in \<open>auto intro!: Cons.IH elim: unplugged_mono\<close>)
  then show ?case by simp
qed (simp only: detect_from.simps looks_pret)

lemma looks_create_xinput: "unplugged_until W (tick s + 5) \<Longrightarrow> looks 5 (create_xinput W A) s None"
proof -
  assume u: "unplugged_until W (tick s + 5)"
  let ?d = "if arg_controller A = None \<and> arg_auto A then detect_controller_slot W else pret (arg_controller A)"
  let ?f = "\<lambda>slot. case slot of None \<Rightarrow> pret None
     | Some slot \<Rightarrow> pbind (PadX_ok W slot) (\<lambda>st. pret (case st of None \<Rightarrow> None | Some g \<Rightarrow> Some (PadX slot g)))"
  have "unplugged_until W (tick s + length [0 :: int, 1, 2, 3])" by (rule unplugged_mono [OF u]) simp
  from looks_detect [OF this] have "looks 4 ?d s (if arg_controller A = None \<and> arg_auto A then None else arg_controller A)"
    by (auto simp: detect_controller_slot_def numeral_eq_Suc simp del: detect_from.simps)
  moreover have f: "looks 1 (?f x) (s\<lparr>tick := n\<rparr>) None" if "n \<le> tick s + 4" for x n
  proof (cases x)
    case (Some slot)
    have "looks 1 (PadX_ok W slot) (s\<lparr>tick := n\<rparr>) None"
      by (rule looks_PadX_ok) (rule unplugged_mono [OF u], use that in simp)
    then have "looks (1 + 0) (?f (Some slot)) (s\<lparr>tick := n\<rparr>) None" unfolding option.case by (rule looks_bind) simp
    then show ?thesis by (simp add: Some)
  qed simp
  ultimately have "looks (4 + 1) (create_xinput W A) s None" unfolding create_xinput_def by (rule looks_bind)
  then show ?thesis by simp
qed

lemma looks_new_pad:
  assumes "unplugged_until W (tick s + 5)" "arg_backend A = backend_xinput" "\<not> arg_keyboard A"
  shows "looks 5 (new_pad W A center) s None"
proof -
  have "looks (5 + 0) (pbind (create_xinput W A) (\<lambda>p. if p \<noteq> None then pret p else pret None)) s None"
    by (rule looks_bind [OF looks_create_xinput [OF assms(1)]]) simp
  then show ?thesis using assms(2,3) by (simp add: new_pad_def create_controller_def)
qed

lemma pad_ok_unplugged:
  assumes "pad s = Some (PadX slot g)" "unplugged_until W (tick s + 1)"
  shows "looks 1 (pad_ok W) s False"
proof -
  have "looks (1 + 0) (pbind (PadX_ok W slot) (\<lambda>st. case st of None \<Rightarrow> pret False
      | Some g \<Rightarrow> pbind (set_pad (Some (PadX slot g))) (\<lambda>_. pret True))) s False"
    by (rule looks_bind [OF looks_PadX_ok [OF assms(2)]]) simp
  then show ?thesis using assms(1) by (simp add: pad_ok_def with_pad_def looks_def)
qed

lemma bridge_turn_without_pad: "pad s = None \<Longrightarrow> \<exists>t. bridge_turn W A center s = Some (Inl AttributeError, t)"
  by (simp add: bridge_turn_def pbind_def sense_def pad_ok_def with_pad_def)

text \<open>The port works and the user does not interrupt until the given tick.\<close>

definition undisturbed_until :: "world \<Rightarrow> nat \<Rightarrow> bool" where
  "undisturbed_until W n \<longleftrightarrow> (\<forall>t < n. serial_works W t \<and> \<not> interrupted W t)"

lemma send_works:
  assumes "pack k s = Some (Inr bs, s)" "serial_works W (tick s)"
  shows "send W k s = Some (Inr (), s\<lparr>tick := tick s + 1, serial_out := serial_out s @ [UART_write bs]\<rparr>)"
  using assms by (simp add: send_def pbind_def ser_write_ok)

lemma sleep_works: "\<not> interrupted W (tick s) \<Longrightarrow> py_sleep W s = Some (Inr (), s\<lparr>tick := tick s + 1\<rparr>)"
  by (simp add: py_sleep_def pbind_def sense_def)

lemma lost_turn_none:
  fixes s :: "'z bridge_scheme"
  assumes "unplugged_until W (tick s + 7)" "arg_backend A = backend_xinput" "\<not> arg_keyboard A" "undisturbed_until W (tick s + 8)"
  shows "\<exists>t. lost_turn W A center now s = Some (Inr Continue, t) \<and> pad t = None"
proof -
  define h where "h \<longleftrightarrow> arg_disconnect_action A = action_home \<and> fle (arg_home_cooldown A) (fsub now (last_disconnect_home s))"
  define s1 where "s1 = (if h then s\<lparr>last_disconnect_home := now, disconnect_home_until := fadd now (arg_home_duration A)\<rparr> else s)"
  let ?w = "if flt now (disconnect_home_until s1) then send W home else pwhen (arg_disconnect_action A \<noteq> action_none) (send W neutral)"
  have t1: "tick s1 = tick s" by (simp add: s1_def)
  have "serial_works W (tick s1)" using assms(4) t1 by (simp add: undisturbed_until_def)
  note send_works [OF pack_home_neutral(1) this] send_works [OF pack_home_neutral(2) this]
  then obtain s2 where s2: "?w s1 = Some (Inr (), s2)" "tick s2 \<le> tick s + 1" "tick s \<le> tick s2"
    using t1
    by (cases "flt now (disconnect_home_until s1)"; cases "arg_disconnect_action A = action_none")
      (auto simp: pwhen_def)
  let ?s3 = "s2\<lparr>tick := tick s2 + 1\<rparr>"
  have s3: "py_sleep W s2 = Some (Inr (), ?s3)"
    by (rule sleep_works) (use assms(4) s2 in \<open>simp add: undisturbed_until_def\<close>)
  have "looks 5 (new_pad W A center) ?s3 None"
    by (rule looks_new_pad [OF _ assms(2,3)]) (rule unplugged_mono [OF assms(1)], use s2 in simp)
  then obtain n where n: "n \<le> tick ?s3 + 5" "new_pad W A center ?s3 = Some (Inr None, ?s3\<lparr>tick := n\<rparr>)"
    unfolding looks_def by blast
  let ?s4 = "?s3\<lparr>tick := n, pad := None\<rparr>"
  have "py_sleep W ?s4 = Some (Inr (), ?s4\<lparr>tick := n + 1\<rparr>)"
    using sleep_works [of W ?s4] assms(4) s2 n by (simp add: undisturbed_until_def)
  then have s4: "pwhen (None = None) (py_sleep W) ?s4 = Some (Inr (), ?s4\<lparr>tick := n + 1\<rparr>)" by (simp add: pwhen_def)
  have "pwhen h (pmod (\<lambda>s. s\<lparr>last_disconnect_home := now, disconnect_home_until := fadd now (arg_home_duration A)\<rparr>)) s =
      Some (Inr (), s1)" by (simp add: s1_def pwhen_def)
  note this [unfolded h_def]
  then have "lost_turn W A center now s = Some (Inr Continue, ?s4\<lparr>tick := n + 1\<rparr>)"
    using s2(1) s3 n(2) s4 unfolding lost_turn_def pbind_basic pbind_def by (simp add: set_pad_def)
  then show ?thesis by simp
qed

text \<open>
  C34. A lost controller ends the bridge. When the XInput controller is disconnected and no
  other one is found in the very turn in which this is noticed, the next turn of the loop
  calls a method of \<open>None\<close>, and the program ends with an exception, however soon the
  controller comes back; the serial port is closed.
\<close>

theorem lost_controller_ends_bridge:
  fixes c :: "'z bridge_scheme"
  assumes "pad c = Some (PadX slot g)" "arg_backend A = backend_xinput" "\<not> arg_keyboard A"
    and "unplugged_until W (tick c + 9)" "undisturbed_until W (tick c + 10)"
  shows "\<exists>d. bridge_loop W A center c = Some (Inl AttributeError, d) \<and> ser_closed d \<and> pad d = None"
proof -
  let ?c = "c\<lparr>tick := tick c + 1\<rparr>"
  have "looks 1 (pad_ok W) ?c False"
    by (rule pad_ok_unplugged) (use assms(1,4) in \<open>auto elim: unplugged_mono\<close>)
  then obtain n where n: "n \<le> tick c + 2" "pad_ok W ?c = Some (Inr False, c\<lparr>tick := n\<rparr>)"
    by (rule looksE) simp
  obtain d where d: "lost_turn W A center (time_time W (tick c)) (c\<lparr>tick := n\<rparr>) = Some (Inr Continue, d)" "pad d = None"
    using lost_turn_none [of W "c\<lparr>tick := n\<rparr>" A center "time_time W (tick c)"] assms(2,3,5) n(1)
      unplugged_mono [OF assms(4), of "n + 7"]
    by (auto simp: undisturbed_until_def)
  have t: "bridge_turn W A center c = Some (Inr Continue, d)"
    using n(2) d(1) by (simp add: bridge_turn_def pbind_def sense_def)
  obtain e where "bridge_turn W A center d = Some (Inl AttributeError, e)" "pad e = None"
    using d(2) by (simp add: bridge_turn_def pbind_def sense_def pad_ok_def with_pad_def)
  with t have "ploop (bridge_turn W A center) c = Some (Inl AttributeError, e)" "pad e = None"
    by (simp_all add: ploop.simps [of _ c] ploop.simps [of _ d])
  then show ?thesis by (simp add: bridge_loop_def pfinally_def pcatch_def)
qed

definition example_args :: args where
  "example_args = \<lparr>arg_keyboard = False, arg_port = ''COM3'', arg_controller = Some 0, arg_backend = backend_xinput,
     arg_window = '''', arg_auto = False, arg_sync_attempts = 3, arg_inactive_action = action_neutral,
     arg_disconnect_action = action_neutral, arg_home_duration = Fin (1 / 4), arg_home_cooldown = Fin 5,
     arg_exit_chord_signal_file = ''''\<rparr>"

definition example_bridge :: "pad option \<Rightarrow> bridge" where
  "example_bridge p = \<lparr>tick = 0, serial_out = [], pad = p, rx_data = [], quiet_deadline = Fin 0, was_focused = True,
     inactive_home_until = Fin 0, last_disconnect_home = Fin 0, disconnect_home_until = Fin 0, exit_signal = False,
     ser_closed = False\<rparr>"

theorem lost_controller_ends_bridge_witness:
  "\<exists>d. bridge_loop (idle_world\<lparr>XInputGetState := (\<lambda>t slot. if t < 9 then None else Some example_gamepad)\<rparr>) example_args None
     (example_bridge (Some (PadX 0 example_gamepad))) = Some (Inl AttributeError, d) \<and> ser_closed d"
  using lost_controller_ends_bridge [of "example_bridge (Some (PadX 0 example_gamepad))" 0 example_gamepad example_args
      "idle_world\<lparr>XInputGetState := (\<lambda>t slot. if t < 9 then None else Some example_gamepad)\<rparr>" None]
  by (auto simp: example_bridge_def example_args_def unplugged_until_def undisturbed_until_def idle_world_def)

section \<open>The bridge and the firmware\<close>

text \<open>
  C6. The bridge never brings the firmware out of step. In every state that the main loop
  goes through, whatever happens to the controller, the window and the port, the bytes
  written since its start are whole packets with their checksums. A synchronised firmware
  that receives them accepts every one of them: it is synchronised afterwards, waits for the
  next packet, and reports the last one.
\<close>

theorem bridge_keeps_in_step:
  fixes c d :: "'z bridge_scheme"
  assumes "bridge_run W A center c d" "transmitter_drains E" "rx_inv s" "rx_abs s = Synced []"
  shows "\<exists>ws t. serial_out d = serial_out c @ ws \<and> list_all is_packet ws \<and>
    rx_run E (map word_of_int (concat ws)) s = Some t \<and> rx_inv t \<and> rx_abs t = Synced [] \<and>
    (if ws = [] then t = s else controllerReport t = report_of_packet (packet_of (last ws)) \<and>
      selectedReport t = controllerReport_ptr \<and> millis t = 0)"
proof -
  have "keeps (out_from (serial_out c) is_packet) (bridge_turn W A center :: (unit loop, 'z bridge_scheme) py)"
    by (rule keeps_bridge_turn) (rule pack_result(2) [OF _ refl])
  from bridge_run_keeps [OF this assms(1) out_from_refl] obtain ws
    where ws: "serial_out d = serial_out c @ ws" "list_all is_packet ws" by (auto simp: out_from_def)
  with rx_packets [OF ws(2) assms(2-4)] show ?thesis by blast
qed

theorem bridge_keeps_in_step_witness:
  "\<exists>d ws t. bridge_run idle_world example_args None (example_bridge (Some (PadX 0 example_gamepad))) d \<and>
     serial_out d = ws \<and> ws \<noteq> [] \<and> rx_run console_environment (map word_of_int (concat ws)) synced_example = Some t \<and>
     rx_abs t = Synced []"
proof -
  let ?c = "example_bridge (Some (PadX 0 example_gamepad))"
  obtain d where d: "bridge_turn idle_world example_args None ?c = Some (Inr Continue, d)" "serial_out d \<noteq> []"
    by (simp add: bridge_turn_def pbind_def sense_def pad_ok_def with_pad_def PadX_ok_def lost_turn_def pwhen_def send_def
        pack_home_neutral ser_write_def ser_raw_def py_sleep_def set_pad_def new_pad_def create_controller_def create_xinput_def
        example_bridge_def idle_world_def example_args_def)
  then have r: "bridge_run idle_world example_args None ?c d" by (blast intro: run_start run_turn)
  have "rx_inv synced_example" "rx_abs synced_example = Synced []"
    by (simp_all add: synced_example_def rx_inv_def rx_abs_def example_firmware_def response_init_def)
  moreover have "transmitter_drains console_environment"
    unfolding transmitter_drains_def by (intro allI exI [of _ 0]) (simp add: console_environment_def)
  moreover have "serial_out ?c = []" by (simp add: example_bridge_def)
  ultimately show ?thesis using bridge_keeps_in_step [OF r, of console_environment synced_example] r d(2) by auto
qed

section \<open>Without focus\<close>

lemma keeps_get: "(\<And>s. P s \<Longrightarrow> keeps P (g (f s))) \<Longrightarrow> keeps P (pbind (pget f) g)"
proof (rule keepsI)
  fix s r t assume g: "\<And>s. P s \<Longrightarrow> keeps P (g (f s))" and s: "P s" and "pbind (pget f) g s = Some (r, t)"
  from this(3) have "g (f s) s = Some (r, t)" by simp
  from keepsD [OF g [OF s] s this] show "P t" .
qed

lemma keeps_sensed: "pad_free P \<Longrightarrow> (\<And>t. keeps P (g (f t))) \<Longrightarrow> keeps P (pbind (sense f) g)"
proof (rule keepsI)
  fix s r t assume P: "pad_free P" and g: "\<And>t. keeps P (g (f t))" and s: "P s" and run: "pbind (sense f) g s = Some (r, t)"
  from run have "g (f (tick s)) (s\<lparr>tick := tick s + 1\<rparr>) = Some (r, t)" by (simp add: pbind_def sense_def)
  moreover have "P (s\<lparr>tick := tick s + 1\<rparr>)" using P s by (simp add: pad_free_def)
  ultimately show "P t" using keepsD [OF g] by blast
qed

definition neutral_wire :: "int list" where "neutral_wire = UART_write [0, 0, 8, 0x80, 0x80, 0x80, 0x80, 0]"

definition home_wire :: "int list" where "home_wire = UART_write [0x10, 0, 8, 0x80, 0x80, 0x80, 0x80, 0]"

text \<open>Only these two packets have been written, and HOME only if an action asks for it.\<close>

definition resting_wire :: "args \<Rightarrow> int list \<Rightarrow> bool" where
  "resting_wire A w \<longleftrightarrow> w = neutral_wire \<or>
     w = home_wire \<and> (arg_inactive_action A = action_home \<or> arg_disconnect_action A = action_home)"

definition resting :: "args \<Rightarrow> int list list \<Rightarrow> 'z bridge_scheme \<Rightarrow> bool" where
  "resting A out s \<longleftrightarrow> out_from out (resting_wire A) s \<and>
     (arg_inactive_action A \<noteq> action_home \<longrightarrow> inactive_home_until s = Fin 0) \<and>
     (arg_disconnect_action A \<noteq> action_home \<longrightarrow> disconnect_home_until s = Fin 0)"

lemma pad_free_resting: "pad_free (resting A out)"
  by (simp add: pad_free_def resting_def out_from_def)

lemma keeps_resting_send:
  fixes A out
  defines "R \<equiv> resting A out :: 'z bridge_scheme \<Rightarrow> bool"
  shows "keeps R (send W neutral)"
    and "arg_inactive_action A = action_home \<or> arg_disconnect_action A = action_home \<Longrightarrow> keeps R (send W home)"
proof -
  have k: "keeps R (send W k)" if k: "\<And>s :: 'z bridge_scheme. pack k s = Some (Inr bs, s)" and w: "resting_wire A (UART_write bs)" for k bs
  proof (rule keepsI)
    fix s t r assume "R s" "send W k s = Some (r, t)"
    with w show "R t"
      by (auto simp: R_def send_def pbind_def k ser_write_def ser_raw_def sense_def resting_def out_from_def split: if_splits)
  qed
  show "keeps R (send W neutral)"
    by (rule k [OF pack_home_neutral(1)]) (simp add: resting_wire_def neutral_wire_def)
  assume "arg_inactive_action A = action_home \<or> arg_disconnect_action A = action_home"
  then show "keeps R (send W home)"
    by (intro k [OF pack_home_neutral(2)]) (simp add: resting_wire_def home_wire_def)
qed

lemma keeps_resting_choice:
  assumes "flt now until \<Longrightarrow> arg_inactive_action A = action_home \<or> arg_disconnect_action A = action_home"
  shows "keeps (resting A out) (if flt now until then send W home else pwhen c (send W neutral))"
  using assms keeps_resting_send by (intro keeps_if keeps_pwhen) blast+

lemma keeps_resting:
  fixes A out
  defines "R \<equiv> resting A out :: 'z bridge_scheme \<Rightarrow> bool"
  assumes W: "clock_ok W" "have_win32gui W" "arg_window A \<noteq> []"
    and f: "\<And>t. \<not> contains (lower (arg_window A)) (lower (foreground_title W t))"
  shows "keeps R (bridge_turn W A center)"
proof -
  have pf: "pad_free R" unfolding R_def by (rule pad_free_resting)
  note p = keeps_pad_free [OF pf] keeps_methods [OF pf] keeps_new_pad [OF pf]
  have now: "\<not> flt (time_time W t) (Fin 0)" for t using W(1) flt_asym by (auto simp: clock_ok_def)
  have c: "keeps R (if flt (time_time W t) until then send W home else pwhen d (send W neutral))"
    if "R s" "until = disconnect_home_until s \<or> until = inactive_home_until s" for t s until d
    unfolding R_def using that now [of t] by (intro keeps_resting_choice) (auto simp: R_def resting_def)
  have m: "keeps R (pmod (\<lambda>s. s\<lparr>was_focused := w\<rparr>))" for w
    unfolding R_def by (rule keeps_pmod) (simp add: resting_def out_from_def)
  have h1: "keeps R (pwhen (w \<and> arg_inactive_action A = action_home) (pmod (\<lambda>s. s\<lparr>inactive_home_until := u\<rparr>)))" for w u
    unfolding R_def by (intro keeps_pwhen keeps_pmod) (simp add: resting_def out_from_def)
  have h2: "keeps R (pwhen (arg_disconnect_action A = action_home \<and> w) (pmod (\<lambda>s. s\<lparr>last_disconnect_home := v, disconnect_home_until := u\<rparr>)))" for w u v
    unfolding R_def by (intro keeps_pwhen keeps_pmod) (simp add: resting_def out_from_def)
  have l: "keeps R (lost_turn W A center (time_time W t))" for t
    unfolding lost_turn_def by (intro keeps_get keeps_pbind keeps_pwhen h2 c p keeps_basic) auto
  have u: "keeps R (unfocused_turn W A (time_time W t))" for t
    unfolding unfocused_turn_def by (intro keeps_get keeps_pbind keeps_pwhen h1 m c p keeps_basic) auto
  have "keeps R (pbind (focused W A) (\<lambda>f. if \<not> f then unfocused_turn W A (time_time W t) else focused_turn W A))" for t
    using W(2,3) f u by (simp add: focused_def focus_ok_def pbind_assoc keeps_sensed [OF pf])
  with l show ?thesis unfolding bridge_turn_def
    by (intro keeps_sensed [OF pf] keeps_pbind [OF p(5)] keeps_if)
qed

lemma packet_of_resting:
  "packet_of neutral_wire = [0, 0, 8, 0x80, 0x80, 0x80, 0x80, 0]" "packet_of home_wire = [0x10, 0, 8, 0x80, 0x80, 0x80, 0x80, 0]"
  by (simp_all add: packet_of_def neutral_wire_def home_wire_def UART_write_def)

lemma resting_report:
  assumes "resting_wire A w"
  defines "rep \<equiv> report_of_packet (packet_of w)"
  shows "console_pressed (report_bytes rep) m = (m = SWITCH_HOME \<and> w = home_wire)"
    and "((dpad_up rep, dpad_down rep), (dpad_left rep, dpad_right rep)) = ((False, False), (False, False))"
proof -
  have d: "neutral_wire \<noteq> home_wire" by (simp add: neutral_wire_def home_wire_def UART_write_def)
  have n: "\<not> bit (join16 0 0) (button_bit m)" "bit (join16 0x10 0) (button_bit m) = (m = SWITCH_HOME)"
    by (cases m; simp add: bit_join16)+
  show "console_pressed (report_bytes rep) m = (m = SWITCH_HOME \<and> w = home_wire)"
    using assms(1) d n unfolding rep_def by (auto simp: resting_wire_def console_pressed_packet packet_of_resting)
  show "((dpad_up rep, dpad_down rep), (dpad_left rep, dpad_right rep)) = ((False, False), (False, False))"
    using assms(1) unfolding rep_def by (auto simp: resting_wire_def dpad_packet packet_of_resting hat_directions_def)
qed

text \<open>
  C7. Nothing is played while the window lacks focus. As long as the foreground window has
  another title, no state of the controller gets through: the main loop writes neutral
  packets, and packets in which HOME alone is pressed if one of the two actions asks for
  HOME; the console sees no other button and no direction.
\<close>

theorem nothing_while_unfocused:
  fixes c d :: "'z bridge_scheme"
  assumes "bridge_run W A center c d" "clock_ok W" "have_win32gui W" "arg_window A \<noteq> []"
    and "\<And>t. \<not> contains (lower (arg_window A)) (lower (foreground_title W t))"
    and "inactive_home_until c = Fin 0" "disconnect_home_until c = Fin 0"
  shows "\<exists>ws. serial_out d = serial_out c @ ws \<and> list_all (resting_wire A) ws \<and>
    list_all (\<lambda>w. let rep = report_of_packet (packet_of w) in
      (\<forall>m. console_pressed (report_bytes rep) m = (m = SWITCH_HOME \<and> w = home_wire)) \<and>
      ((dpad_up rep, dpad_down rep), (dpad_left rep, dpad_right rep)) = ((False, False), (False, False))) ws"
proof -
  have k: "keeps (resting A (serial_out c)) (bridge_turn W A center :: (unit loop, 'z bridge_scheme) py)"
    by (rule keeps_resting [OF assms(2-5)])
  have "resting A (serial_out c) c" using assms(6,7) by (simp add: resting_def out_from_refl)
  from bridge_run_keeps [OF k assms(1) this] obtain ws
    where "serial_out d = serial_out c @ ws" "list_all (resting_wire A) ws" by (auto simp: resting_def out_from_def)
  then show ?thesis using resting_report by (auto simp: list_all_iff Let_def)
qed

theorem nothing_while_unfocused_witness:
  "\<exists>d ws. bridge_run idle_world (example_args\<lparr>arg_window := ''OBS'', arg_inactive_action := action_home\<rparr>) None
      (example_bridge (Some (PadK None (0, 0)))) d \<and> serial_out d = ws \<and> ws = [home_wire] \<and>
     list_all (resting_wire (example_args\<lparr>arg_window := ''OBS'', arg_inactive_action := action_home\<rparr>)) ws"
proof -
  let ?c = "example_bridge (Some (PadK None (0, 0)))" and ?A = "example_args\<lparr>arg_window := ''OBS'', arg_inactive_action := action_home\<rparr>"
  have q: "fadd (Fin 0) (Fin (1 / 4)) = Fin (fl (1 / 4))" by (simp add: pyround_small)
  have "fl (of_int 1 * 2 powi - 2) = of_int 1 * 2 powi - 2" by (rule fl_exact) simp_all
  then have "fl (1 / 4) = 1 / 4" by (simp add: power_int_def power_one_over)
  with q have u: "flt (Fin 0) (fadd (Fin 0) (Fin (1 / 4)))" by simp
  obtain d where d: "bridge_turn idle_world ?A None ?c = Some (Inr Continue, d)" "serial_out d = [home_wire]"
    using u
    by (simp add: bridge_turn_def pbind_def sense_def pad_ok_def with_pad_def focused_def focus_ok_def unfocused_turn_def
        pwhen_def send_def pack_home_neutral ser_write_def ser_raw_def py_sleep_def home_wire_def
        example_bridge_def idle_world_def example_args_def lower_def lower_char_def char_code_def del: fadd.simps)
  then have r: "bridge_run idle_world ?A None ?c d" by (blast intro: run_start run_turn)
  have f: "\<not> contains (lower (arg_window ?A)) (lower (foreground_title idle_world t))" for t
    by (simp add: idle_world_def example_args_def lower_def)
  have "clock_ok idle_world" "have_win32gui idle_world" "arg_window ?A \<noteq> []"
    "inactive_home_until ?c = Fin 0" "disconnect_home_until ?c = Fin 0" "serial_out ?c = []"
    by (simp_all add: clock_ok_def idle_world_def example_args_def example_bridge_def)
  note e = this
  from nothing_while_unfocused [OF r e(1-3) f e(4,5)] have "list_all (resting_wire ?A) (serial_out d)"
    using e(6) by auto
  then show ?thesis using r d(2) by auto
qed

section \<open>The handshake ends\<close>

lemma ploop_returns:
  fixes m :: "'s \<Rightarrow> nat"
  assumes "\<And>s. P s \<Longrightarrow> \<exists>r t. body s = Some (Inr r, t) \<and> (case r of Break x \<Rightarrow> Q x t | Continue \<Rightarrow> P t \<and> m t < m s)" "P s"
  shows "\<exists>x t. ploop body s = Some (Inr x, t) \<and> Q x t"
  using assms(2)
proof (induction s rule: measure_induct_rule [of m])
  case (less s)
  from assms(1) [OF less.prems] obtain r t where r: "body s = Some (Inr r, t)"
    "case r of Break x \<Rightarrow> Q x t | Continue \<Rightarrow> P t \<and> m t < m s" by blast
  show ?case
  proof (cases r)
    case Continue
    with r less.IH [of t] show ?thesis by (simp add: ploop.simps [of body s])
  next
    case (Break x)
    with r show ?thesis by (simp add: ploop.simps [of body s])
  qed
qed

text \<open>
  The clock runs: \<open>d\<close> seconds after any of the first \<open>B\<close> accesses to the world are over
  within \<open>N\<close> further accesses. (Every attempt to read a byte takes up to 50 milliseconds.)
\<close>

definition time_passes :: "world \<Rightarrow> pyfloat \<Rightarrow> nat \<Rightarrow> nat \<Rightarrow> bool" where
  "time_passes W d B N \<longleftrightarrow> (\<forall>k \<le> B. \<forall>t \<ge> k + N. \<not> flt (time_time W t) (fadd (time_time W k) d))"

text \<open>
  A body that reads the clock first, leaves the loop at the deadline, and otherwise
  returns without writing.
\<close>

lemma deadline_loop:
  fixes s :: "'z client_scheme"
  assumes n: "\<And>t. n \<le> t \<Longrightarrow> \<not> flt (time_time W t) deadline"
    and b: "\<And>s. serial_out s = out \<Longrightarrow> \<exists>r t. body s = Some (Inr r, t) \<and> serial_out t = out \<and>
      tick s < tick t \<and> tick t \<le> tick s + 4 \<and> (\<not> flt (time_time W (tick s)) deadline \<longrightarrow> r \<noteq> Continue)"
    and s: "serial_out s = out" "tick s \<le> n + 3"
  shows "\<exists>x t. ploop body s = Some (Inr x, t) \<and> serial_out t = out \<and> tick t \<le> n + 7"
proof (rule ploop_returns [where P = "\<lambda>s. serial_out s = out \<and> tick s \<le> n + 3" and m = "\<lambda>s. n - tick s"])
  fix s :: "'z client_scheme" assume s: "serial_out s = out \<and> tick s \<le> n + 3"
  with b [of s] obtain r t where r: "body s = Some (Inr r, t)" "serial_out t = out" "tick s < tick t" "tick t \<le> tick s + 4"
    "\<not> flt (time_time W (tick s)) deadline \<longrightarrow> r \<noteq> Continue" by blast
  show "\<exists>r t. body s = Some (Inr r, t) \<and> (case r of
      Continue \<Rightarrow> (serial_out t = out \<and> tick t \<le> n + 3) \<and> n - tick t < n - tick s
    | Break x \<Rightarrow> serial_out t = out \<and> tick t \<le> n + 7)"
  proof (cases r)
    case Continue
    with r(5) have "tick s < n" using n [of "tick s"] not_le by blast
    with r Continue show ?thesis by auto
  qed (use r s in auto)
qed (use s in simp)

lemma ser_read_works:
  "(\<And>t. serial_works W t) \<Longrightarrow> ser_read W s = Some (Inr (serial_read W (tick s + 1)), s\<lparr>tick := tick s + 2\<rparr>)"
  by (simp add: ser_read_def pbind_def sense_def)

lemma ser_raw_works:
  "(\<And>t. serial_works W t) \<Longrightarrow> ser_raw W bs s = Some (Inr (), s\<lparr>tick := tick s + 1, serial_out := serial_out s @ [bs]\<rparr>)"
  by (simp add: ser_raw_def pbind_def sense_def)

lemma read_until_quiet_returns:
  fixes s :: "'z bridge_scheme"
  assumes w: "\<And>t. serial_works W t" and "time_passes W (Fin 1) B N" "tick s \<le> B"
  shows "\<exists>x t. read_until_quiet W s = Some (Inr x, t) \<and> serial_out t = serial_out s \<and> tick t \<le> tick s + N + 7"
proof -
  let ?d = "fadd (time_time W (tick s)) (Fin 1)"
  let ?s = "s\<lparr>rx_data := [], tick := tick s + 2, quiet_deadline := fadd (time_time W (tick s + 1)) quiet_seconds\<rparr>"
  have n: "\<not> flt (time_time W t) ?d" if "tick s + N \<le> t" for t using assms(2,3) that by (simp add: time_passes_def)
  have "\<exists>x t. ploop (quiet_turn W ?d) ?s = Some (Inr x, t) \<and> serial_out t = serial_out s \<and> tick t \<le> tick s + N + 7"
    by (rule deadline_loop [OF n]) (auto simp: quiet_turn_def pbind_def sense_def ser_read_works [OF w] split: option.split)
  then show ?thesis by (auto simp: read_until_quiet_def pbind_def sense_def)
qed

lemma read_expected_returns:
  fixes s :: "'z bridge_scheme"
  assumes w: "\<And>t. serial_works W t" and "time_passes W (Fin 1) B N" "tick s \<le> B"
  shows "\<exists>x t. read_expected W e s = Some (Inr x, t) \<and> serial_out t = serial_out s \<and> tick t \<le> tick s + N + 7"
proof -
  let ?d = "fadd (time_time W (tick s)) (Fin 1)"
  have n: "\<not> flt (time_time W t) ?d" if "tick s + N \<le> t" for t using assms(2,3) that by (simp add: time_passes_def)
  have "\<exists>x t. ploop (expect_turn W ?d e) (s\<lparr>tick := tick s + 1\<rparr>) = Some (Inr x, t) \<and> serial_out t = serial_out s \<and>
      tick t \<le> tick s + N + 7"
    by (rule deadline_loop [OF n]) (auto simp: expect_turn_def pbind_def sense_def ser_read_works [OF w])
  then show ?thesis by (simp add: read_expected_def pbind_def sense_def)
qed

definition handshake :: "int list list" where
  "handshake = [replicate 9 0xFF, [0x33], [0xCC]]"

text \<open>
  C32. The handshake comes to an end. While the port works and the clock runs, \<open>sync\<close>
  returns, within a number of accesses linear in the number that pass in a second; it has
  written a beginning of the handshake: the nine start bytes and, each only after the
  answer to what was sent before, the two command bytes, both of them if it succeeded.
\<close>

theorem sync_returns:
  fixes s :: "'z bridge_scheme"
  assumes w: "\<And>t. serial_works W t" and p: "time_passes W (Fin 1) (tick s + 2 * N + 18) N"
  shows "\<exists>ok t k. sync W s = Some (Inr ok, t) \<and> 1 \<le> k \<and> serial_out t = serial_out s @ take k handshake \<and>
    (ok \<longrightarrow> k = 3) \<and> tick t \<le> tick s + 3 * N + 25"
proof -
  note e = read_expected_returns [OF w p] and u = ser_raw_works [OF w]
  let ?s1 = "s\<lparr>tick := tick s + 1\<rparr>"
  let ?s2 = "?s1\<lparr>tick := tick s + 2, serial_out := serial_out s @ [replicate 9 0xFF]\<rparr>"
  have 1: "reset_input_buffer W s = Some (Inr (), ?s1)" using w by (simp add: reset_input_buffer_def pbind_def sense_def)
  have 2: "ser_raw W (replicate 9 0xFF) ?s1 = Some (Inr (), ?s2)" using u [where s = ?s1] by simp
  obtain x s3 where 3: "read_until_quiet W ?s2 = Some (Inr x, s3)" "serial_out s3 = serial_out s @ [replicate 9 0xFF]"
      "tick s3 \<le> tick s + N + 9"
    using read_until_quiet_returns [OF w p, where s = ?s2] by auto
  let ?s4 = "s3\<lparr>tick := tick s3 + 1, serial_out := serial_out s3 @ [[0x33]]\<rparr>"
  note 4 = u [of "[0x33]" s3]
  obtain a s5 where 5: "read_expected W 0xCC ?s4 = Some (Inr a, s5)"
    "serial_out s5 = serial_out s @ [replicate 9 0xFF, [0x33]]" "tick s5 \<le> tick s + 2 * N + 17"
    using e [where e = "0xCC" and s = ?s4] 3(2,3) by auto
  let ?s6 = "s5\<lparr>tick := tick s5 + 1, serial_out := serial_out s5 @ [[0xCC]]\<rparr>"
  note 6 = u [of "[0xCC]" s5]
  obtain b s7 where 7: "read_expected W 0x33 ?s6 = Some (Inr b, s7)" "serial_out s7 = serial_out s @ handshake"
      "tick s7 \<le> tick s + 3 * N + 25"
    using e [where e = "0x33" and s = ?s6] 5(2,3) by (auto simp: handshake_def)
  show ?thesis
  proof (cases "0xFF \<in> set x")
    case False
    with 1 2 3(1) have "sync W s = Some (Inr False, s3)" by (simp add: sync_def pbind_def)
    with 3 show ?thesis by (intro exI [of _ False] exI [of _ s3] exI [of _ 1]) (simp add: handshake_def)
  next
    case ff: True
    show ?thesis
    proof (cases a)
      case False
      with ff 1 2 3(1) 4 5(1) have "sync W s = Some (Inr False, s5)" by (simp add: sync_def pbind_def)
      with 5 show ?thesis by (intro exI [of _ False] exI [of _ s5] exI [of _ 2]) (simp add: handshake_def)
    next
      case True
      with ff 1 2 3(1) 4 5(1) 6 7(1) have "sync W s = Some (Inr b, s7)" by (simp add: sync_def pbind_def)
      with 7 show ?thesis by (intro exI [of _ b] exI [of _ s7] exI [of _ 3]) (simp add: handshake_def)
    qed
  qed
qed

lemma count_up: "k \<le> 20 \<Longrightarrow> fadd (Fin (of_nat k)) (Fin 1) = Fin (of_nat (k + 1))"
proof -
  assume k: "k \<le> 20"
  have "(of_nat (k + 1) :: rat) \<le> of_nat 21" using k by (simp only: of_nat_le_iff)
  then have "\<bar>of_nat (k + 1) :: rat\<bar> \<le> 2 ^ 60" by simp
  then have "pyround (of_nat (k + 1)) = Fin (fl (of_nat (k + 1)))" by (rule pyround_small)
  moreover have "fl (of_nat (k + 1)) = of_nat (k + 1)" using fl_exact_int [of "int (k + 1)"] k by simp
  ultimately show ?thesis by (simp add: add.commute)
qed

definition counting_world :: world where
  "counting_world = idle_world\<lparr>time_time := (\<lambda>t. Fin (of_nat t))\<rparr>"

lemma counting_world: "time_time counting_world t = Fin (of_nat t)" "serial_works counting_world t"
  by (simp_all add: counting_world_def idle_world_def)

theorem sync_returns_witness:
  "\<exists>ok t k. sync counting_world (example_bridge None) = Some (Inr ok, t) \<and>
     serial_out t = take k handshake \<and> tick t \<le> 28"
proof -
  have "\<not> flt (Fin (of_nat t)) (Fin (of_nat (k + 1)))" if "k + 1 \<le> t" for k t
    using that by (simp only: flt.simps of_nat_less_iff)
  then have "time_passes counting_world (Fin 1) 20 1"
    using count_up by (auto simp only: time_passes_def counting_world)
  moreover have b: "tick (example_bridge None) = 0" "serial_out (example_bridge None) = []" by (simp_all add: example_bridge_def)
  ultimately show ?thesis using sync_returns [OF counting_world(2), of "example_bridge None" 1] by (simp add: b) blast
qed

section \<open>A successful handshake\<close>

lemma answered_append: "answers (xs @ ys) q = answers xs q @ answers ys (fold proto_next xs q)"
  by (induction xs arbitrary: q) simp_all

lemma answer_OK: "0x33 \<in> set (proto_answer b q) \<Longrightarrow> q = Step1 \<and> b = 0xCC"
  by (cases q) (auto split: if_splits)

lemma answers_OK: "0xCC \<notin> set bs \<Longrightarrow> 0x33 \<notin> set (answers bs q)"
  by (induction bs arbitrary: q) (auto dest: answer_OK)

lemma handshake_OK:
  assumes "0x33 \<in> set (answers (replicate 9 0xFF @ [0x33, 0xCC]) q)"
  shows "fold proto_next (replicate 9 0xFF @ [0x33, 0xCC]) q = Synced []"
proof -
  let ?r = "fold proto_next (replicate 9 0xFF @ [0x33]) q"
  have "0x33 \<notin> set (answers (replicate 9 0xFF @ [0x33]) q)" by (rule answers_OK) auto
  then have "0x33 \<in> set (proto_answer 0xCC ?r)"
    using assms answered_append [of "replicate 9 0xFF @ [0x33]" "[0xCC]" q] by simp
  from answer_OK [OF this] show ?thesis by simp
qed

lemma read_expected_True:
  assumes "read_expected W e s = Some (Inr True, t)"
  shows "\<exists>n. serial_read W n = Some e"
proof -
  let ?d = "fadd (time_time W (tick s)) (Fin 1)"
  from assms have "ploop (expect_turn W ?d e) (s\<lparr>tick := tick s + 1\<rparr>) = Some (Inr True, t)"
    by (simp add: read_expected_def pbind_def sense_def)
  then have "(Inr True :: pyexc + bool) = Inr True \<longrightarrow> (\<exists>n. serial_read W n = Some e)"
    by (rule ploop_rule [where P = "\<lambda>_. True" and Q = "\<lambda>r _. r = Inr True \<longrightarrow> (\<exists>n. serial_read W n = Some e)"])
      (auto simp: expect_turn_def pbind_def sense_def ser_read_def split: if_splits)
  then show ?thesis by simp
qed

lemma keeps_out_reads:
  "keeps (\<lambda>s. serial_out s = out) (read_until_quiet W)" "keeps (\<lambda>s. serial_out s = out) (read_expected W e)"
proof -
  let ?P = "\<lambda>s :: 'z bridge_scheme. serial_out s = out"
  have s: "keeps ?P (sense f)" for f :: "nat \<Rightarrow> 'c" by (rule keeps_sense) simp
  have s': "keeps ?P (ser_read W)" unfolding ser_read_def by (auto intro!: keeps_pbind keeps_if keeps_sense)
  show "keeps ?P (read_until_quiet W)" unfolding read_until_quiet_def quiet_turn_def
    by (intro keeps_pbind keeps_if keeps_sense keeps_pmod keeps_ploop keeps_basic s') (auto intro!: keeps_pbind keeps_sense keeps_pmod split: option.split)
  show "keeps ?P (read_expected W e)" unfolding read_expected_def expect_turn_def
    by (intro keeps_pbind keeps_if keeps_sense keeps_ploop keeps_basic s') auto
qed

lemma sync_True:
  assumes "sync W s = Some (Inr True, t)"
  shows "serial_out t = serial_out s @ handshake" "\<exists>n. serial_read W n = Some 0x33"
proof -
  from assms obtain x s3 s5 where 3: "read_until_quiet W (s\<lparr>tick := tick s + 2, serial_out := serial_out s @ [replicate 9 0xFF]\<rparr>) = Some (Inr x, s3)"
    and 5: "read_expected W 0xCC (s3\<lparr>tick := tick s3 + 1, serial_out := serial_out s3 @ [[0x33]]\<rparr>) = Some (Inr True, s5)"
    and 7: "read_expected W 0x33 (s5\<lparr>tick := tick s5 + 1, serial_out := serial_out s5 @ [[0xCC]]\<rparr>) = Some (Inr True, t)"
    by (auto simp: sync_def reset_input_buffer_def ser_raw_def pbind_eq sense_def split: if_splits)
  from keepsD [OF keeps_out_reads(1) refl 3] have "serial_out s3 = serial_out s @ [replicate 9 0xFF]" by simp
  with keepsD [OF keeps_out_reads(2) refl 5] have "serial_out s5 = serial_out s @ [replicate 9 0xFF, [0x33]]" by simp
  with keepsD [OF keeps_out_reads(2) refl 7] show "serial_out t = serial_out s @ handshake" by (simp add: handshake_def)
  from read_expected_True [OF 7] show "\<exists>n. serial_read W n = Some 0x33" .
qed

text \<open>
  C8. A successful handshake means a synchronised firmware. Let \<open>f\<close> be the firmware before
  and \<open>g\<close> after it has received the bytes of the handshake. If \<open>sync\<close> returns \<open>True\<close>, and every
  byte it has read was sent by the firmware in between, then the bytes of the handshake are
  what it has written, and the firmware is synchronised and waits for the first packet:
  whatever the state the firmware was in, the bridge does not take another answer for the
  final one.
\<close>

theorem sync_sound:
  assumes "sync W s = Some (Inr True, t)"
    and "rx_run E (map word_of_int (concat handshake)) f = Some g" "rx_inv f"
    and "\<And>n b. serial_read W n = Some b \<Longrightarrow> (UDR1, b) \<in> set (drop (length (written (io_log f))) (written (io_log g)))"
  shows "serial_out t = serial_out s @ handshake \<and> rx_abs g = Synced [] \<and> rx_inv g"
proof -
  have h: "map word_of_int (concat handshake) = replicate 9 0xFF @ [0x33, 0xCC]" by (simp add: handshake_def)
  from rx_run_refines [OF assms(3,2)] have g: "rx_inv g" "rx_abs g = fold proto_next (replicate 9 0xFF @ [0x33, 0xCC]) (rx_abs f)"
    "written (io_log g) = written (io_log f) @ map (Pair UDR1) (answers (replicate 9 0xFF @ [0x33, 0xCC]) (rx_abs f))"
    unfolding h by auto
  obtain n where "serial_read W n = Some 0x33" using sync_True(2) [OF assms(1)] by blast
  from assms(4) [OF this] have "0x33 \<in> set (answers (replicate 9 0xFF @ [0x33, 0xCC]) (rx_abs f))"
    unfolding g(3) by auto
  from handshake_OK [OF this] g(1,2) sync_True(1) [OF assms(1)] show ?thesis by simp
qed

definition answering_world :: world where
  "answering_world = idle_world\<lparr>time_time := (\<lambda>t. if t < 8 then Fin 0 else Fin 2),
     serial_read := (\<lambda>t. if t = 6 then Some 0xFF else if t = 13 then Some 0xCC else if t = 18 then Some 0x33 else None)\<rparr>"

lemma answering_sync: "\<exists>t. sync answering_world (example_bridge None) = Some (Inr True, t)"
proof -
  have f: "pyround 1 = Fin 1" "pyround 3 = Fin 3" "fadd (Fin 0) (Fin 1) = Fin 1" "fadd (Fin 2) (Fin 1) = Fin 3"
    using fl_exact_int [of 1] fl_exact_int [of 3] by (simp_all add: pyround_small)
  show ?thesis
    by (simp add: sync_def pbind_def reset_input_buffer_def ser_raw_def sense_def read_until_quiet_def quiet_turn_def
        read_expected_def expect_turn_def ser_read_def ploop.simps answering_world_def idle_world_def example_bridge_def f)
qed

theorem sync_sound_witness:
  "\<exists>t g. sync answering_world (example_bridge None) = Some (Inr True, t) \<and> serial_out t = handshake \<and>
     rx_run ready_environment (map word_of_int (concat handshake)) (example_firmware OUT_OF_SYNC) = Some g \<and> rx_abs g = Synced []"
proof -
  obtain t where t: "sync answering_world (example_bridge None) = Some (Inr True, t)" using answering_sync by blast
  obtain g where g: "rx_run ready_environment (map word_of_int (concat handshake)) (example_firmware OUT_OF_SYNC) = Some g"
    using rx_run_total [OF ready_environment_drains] by blast
  have a: "answers (map word_of_int (concat handshake)) Out = replicate 9 0xFF @ [0xCC, 0x33]"
    by code_simp
  have w: "written (io_log g) = written (io_log (example_firmware OUT_OF_SYNC)) @ map (Pair UDR1) (replicate 9 0xFF @ [0xCC, 0x33])"
    using rx_run_refines [OF _ g] a by (simp add: rx_abs_def)
  have "(UDR1, b) \<in> set (drop (length (written (io_log (example_firmware OUT_OF_SYNC)))) (written (io_log g)))"
    if "serial_read answering_world n = Some b" for n b
    using that unfolding w by (auto simp: answering_world_def split: if_splits)
  from sync_sound [OF t g _ this] t g show ?thesis by (auto simp: example_bridge_def)
qed

section \<open>The end of a session\<close>

text \<open>The HOME pulse of the exit chord is followed by a neutral packet.\<close>

lemma chord_loop:
  fixes s :: "'z client_scheme"
  assumes w: "\<And>t. serial_works W t" "\<And>t. \<not> interrupted W t" and n: "\<And>t. n \<le> t \<Longrightarrow> \<not> flt (time_time W t) deadline"
  shows "\<exists>t k. ploop (chord_turn W deadline) s = Some (Inr (), t) \<and> serial_out t = serial_out s @ replicate k home_wire"
proof -
  let ?P = "\<lambda>t. \<exists>k. serial_out t = serial_out s @ replicate k home_wire"
  have "\<exists>x t. ploop (chord_turn W deadline) s = Some (Inr x, t) \<and> ?P t"
  proof (rule ploop_returns [where P = ?P and m = "\<lambda>s. n - tick s"])
    fix s' :: "'z client_scheme" assume "?P s'"
    then obtain k where k: "serial_out s' = serial_out s @ replicate k home_wire" by blast
    show "\<exists>r t. chord_turn W deadline s' = Some (Inr r, t) \<and> (case r of Continue \<Rightarrow> ?P t \<and> n - tick t < n - tick s' | Break x \<Rightarrow> ?P t)"
    proof (cases "flt (time_time W (tick s')) deadline")
      case False
      then show ?thesis using k by (auto simp: chord_turn_def pbind_def sense_def)
    next
      case True
      then have "tick s' < n" using n not_le by blast
      moreover have "\<exists>k'. (serial_out s @ replicate k home_wire) @ [home_wire] = serial_out s @ replicate k' home_wire"
        by (rule exI [of _ "Suc k"]) (simp add: replicate_append_same)
      ultimately show ?thesis using True w k
        by (auto simp: chord_turn_def pbind_def sense_def send_works [OF pack_home_neutral(2)] py_sleep_def home_wire_def)
    qed
  qed (auto intro!: exI [of _ 0])
  then show ?thesis by auto
qed

lemma exit_chord_PadX:
  assumes "pad s = Some (PadX slot g)"
  shows "exit_chord_pressed W s =
    Some (Inr (held g 0x0100 \<and> held g 0x0200 \<and> held g 0x0020 \<and> 128 \<le> uint (bLT g) \<and> 128 \<le> uint (bRT g)), s)"
proof -
  note x = PadX_methods [OF assms]
  have h: "over_half W 2 s = Some (Inr (128 \<le> uint (bLT g)), s)" "over_half W 5 s = Some (Inr (128 \<le> uint (bRT g)), s)"
    using trigger_half [of "bLT g"] trigger_half [of "bRT g"]
    by (simp_all add: over_half_def pbind_def x PadX_axis_def Let_def del: of_int_uint)
  show ?thesis using assms
    by (simp add: exit_chord_pressed_def with_pad_def is_controller_def pand_def pbind_def x h PadX_btn_def BTN_MASKS_def held_def)
qed


definition chord_world :: world where
  "chord_world = idle_world\<lparr>time_time := (\<lambda>t. if t < 10 then Fin 0 else Fin 2),
     XInputGetState := (\<lambda>_ _. Some \<lparr>wButtons = 0x0320, bLT = 255, bRT = 255, sLX = 0, sLY = 0, sRX = 0, sRY = 0\<rparr>)\<rparr>"


section \<open>Keyboard and mouse need a window\<close>

text \<open>
  The keyboard cannot be used with the mouse package unless the window is found. Without
  \<open>--window\<close>, without \<open>win32gui\<close>, or when there is no window of that title, there is no centre,
  and the pad's constructor indexes \<open>None\<close>: the program ends with an exception before it opens
  the port.
\<close>

theorem keyboard_needs_window:
  fixes c :: "'z bridge_scheme"
  assumes "arg_keyboard A" "have_keyboard W" "have_mouse W" "arg_port A \<noteq> []"
    and "arg_window A = [] \<or> \<not> have_win32gui W \<or> find_window W (tick c) (arg_window A) = None"
  shows "\<exists>d. bridge_main W A c = Some (Inl TypeError, d) \<and> serial_out d = serial_out c"
  using assms
  by (auto simp: bridge_main_def start_bridge_def find_center_def select_port_def new_pad_def PadK_new_def pbind_def sense_def)

theorem keyboard_needs_window_witness:
  "\<exists>d. bridge_main idle_world (example_args\<lparr>arg_keyboard := True\<rparr>) (example_bridge None) = Some (Inl TypeError, d)"
  using keyboard_needs_window [of "example_args\<lparr>arg_keyboard := True\<rparr>" idle_world "example_bridge None"]
  by (auto simp: example_args_def idle_world_def)

end
