(* ===== verification/EnvFile.thy ===== *)
theory EnvFile
  imports Python
begin

text \<open>
  The settings file of the Discord bot: \<open>load_env_file\<close> of \<open>discord_input_bot.py\<close> reads it
  into the environment of the process, \<open>update_env_file\<close> of \<open>SwitchAutomationGui.py\<close> changes
  entries of it. A file is \<open>None\<close> if it does not exist, and else its text.
\<close>

section \<open>Reading\<close>

type_synonym environ = "(string \<times> string) list"

text \<open>
  What depends on the operating system: how it writes the names of variables (Windows has
  them in capitals), and which variables it refuses to set.
\<close>

record platform =
  encodekey :: "string \<Rightarrow> string"
  putenv :: "string \<Rightarrow> string \<Rightarrow> bool"

definition environ_get :: "platform \<Rightarrow> string \<Rightarrow> environ \<Rightarrow> string option" where
  "environ_get PF k env = map_of env (encodekey PF k)"

definition setdefault :: "platform \<Rightarrow> string \<Rightarrow> string \<Rightarrow> (unit, environ) py" where
  "setdefault PF k v =
     pbind (pget (environ_get PF k)) (\<lambda>old.
     if old \<noteq> None then pret ()
     else if putenv PF (encodekey PF k) v then pmod (\<lambda>env. (encodekey PF k, v) # env) else praise OSError)"

definition has_entry :: "string \<Rightarrow> bool" where
  "has_entry line \<longleftrightarrow> line \<noteq> [] \<and> \<not> startswith ''#'' line \<and> CHR ''='' \<in> set line"

definition strip_quotes :: "string \<Rightarrow> string" where
  "strip_quotes v = strip_if (\<lambda>c. c = CHR 0x27) (strip_if (\<lambda>c. c = CHR 0x22) (strip v))"

definition load_line :: "platform \<Rightarrow> string \<Rightarrow> (unit, environ) py" where
  "load_line PF raw_line =
     (let line = strip raw_line in
      if \<not> has_entry line then pret () else
      let (key, value) = split_once CHR ''='' line in
      setdefault PF (strip key) (strip_quotes value))"

definition load_env_file :: "platform \<Rightarrow> string option \<Rightarrow> (unit, environ) py" where
  "load_env_file PF file = (case file of None \<Rightarrow> pret () | Some text \<Rightarrow> pfor (splitlines text) (load_line PF))"

section \<open>Updating\<close>

definition line_key :: "string \<Rightarrow> string option" where
  "line_key line =
     (if strip line = [] \<or> startswith ''#'' (dropWhile is_space line) \<or> CHR ''='' \<notin> set line then None
      else Some (strip (fst (split_once CHR ''='' line))))"

definition env_line :: "string \<Rightarrow> string \<Rightarrow> string" where
  "env_line key value = key @ ''='' @ value"

definition update_line :: "(string \<times> string) list \<Rightarrow> string \<Rightarrow> string" where
  "update_line updates line =
     (case line_key line of
        None \<Rightarrow> line
      | Some key \<Rightarrow> (case map_of updates key of None \<Rightarrow> line | Some value \<Rightarrow> env_line key value))"

definition update_lines :: "(string \<times> string) list \<Rightarrow> string list \<Rightarrow> string list" where
  "update_lines updates lines =
     map (update_line updates) lines @
     map (\<lambda>(key, value). env_line key value) (filter (\<lambda>(key, _). Some key \<notin> line_key ` set lines) updates)"

text \<open>\<open>"\n".join(lines) + "\n"\<close>\<close>

definition join_lines :: "string list \<Rightarrow> string" where
  "join_lines lines = (if lines = [] then [CHR 0x0A] else concat (map (\<lambda>l. l @ [CHR 0x0A]) lines))"

definition update_env_file :: "(string \<times> string) list \<Rightarrow> string option \<Rightarrow> string" where
  "update_env_file updates file =
     join_lines (update_lines updates (case file of None \<Rightarrow> [] | Some text \<Rightarrow> splitlines text))"

section \<open>Lines\<close>

lemma lines_from_append:
  "\<forall>c \<in> set l. \<not> is_line_end c \<Longrightarrow> lines_from w (l @ s) = lines_from (w @ l) s"
  by (induction l arbitrary: w) auto

lemma line_end_newline: "is_line_end (CHR 0x0A)" by code_simp

lemma splitlines_line:
  assumes "\<forall>c \<in> set l. \<not> is_line_end c"
  shows "splitlines (l @ CHR 0x0A # s) = l # splitlines s"
proof -
  have "char_code (CHR 0x0A) \<noteq> 13" by code_simp
  then show ?thesis using assms line_end_newline by (simp add: splitlines_def lines_from_append)
qed

definition no_line_end :: "string \<Rightarrow> bool" where
  "no_line_end l \<longleftrightarrow> (\<forall>c \<in> set l. \<not> is_line_end c)"

lemma splitlines_concat:
  "list_all no_line_end ls \<Longrightarrow> splitlines (concat (map (\<lambda>l. l @ [CHR 0x0A]) ls)) = ls"
proof (induction ls)
  case Nil
  then show ?case by (simp add: splitlines_def)
next
  case (Cons l ls)
  then show ?case using splitlines_line [of l "concat (map (\<lambda>l. l @ [CHR 0x0A]) ls)"] by (simp add: no_line_end_def)
qed

lemma lines_from_no_end: "no_line_end w \<Longrightarrow> list_all no_line_end (lines_from w s)"
proof (induction w s rule: lines_from.induct)
  case (2 w c s)
  then show ?case by (auto simp: no_line_end_def)
qed (simp add: no_line_end_def)

lemma splitlines_no_end: "list_all no_line_end (splitlines s)"
  unfolding splitlines_def by (rule lines_from_no_end) (simp add: no_line_end_def)

section \<open>Entries\<close>

definition entry :: "string \<Rightarrow> (string \<times> string) option" where
  "entry raw =
     (if has_entry (strip raw)
      then Some (strip (fst (split_once CHR ''='' (strip raw))), strip_quotes (snd (split_once CHR ''='' (strip raw))))
      else None)"

lemma load_line_entry: "load_line PF raw = (case entry raw of None \<Rightarrow> pret () | Some (k, v) \<Rightarrow> setdefault PF k v)"
  by (simp add: load_line_def entry_def Let_def split_def)

text \<open>What \<open>strip\<close> removes are spaces on both sides.\<close>

lemma strip_split:
  obtains a b where "s = a @ strip s @ b" "list_all is_space a" "list_all is_space b"
proof
  let ?d = "dropWhile is_space s"
  have "s = takeWhile is_space s @ ?d" by simp
  moreover have "?d = strip s @ rev (takeWhile is_space (rev ?d))"
    unfolding strip_def strip_if_def by (metis rev_append rev_rev_ident takeWhile_dropWhile_id)
  ultimately show "s = takeWhile is_space s @ strip s @ rev (takeWhile is_space (rev ?d))" by simp
  show "list_all is_space (takeWhile is_space s)" by (auto simp: list_all_iff dest: set_takeWhileD)
  show "list_all is_space (rev (takeWhile is_space (rev ?d)))" by (auto simp: list_all_iff dest: set_takeWhileD)
qed

lemma strip_spaces: "list_all is_space a \<Longrightarrow> strip (a @ s) = strip s"
  by (induction a) (simp_all add: strip_def strip_if_def)

lemma strip_nonempty: "s \<noteq> [] \<Longrightarrow> \<not> is_space (hd s) \<Longrightarrow> \<not> is_space (last s) \<Longrightarrow> strip s = s"
proof -
  assume s: "s \<noteq> []" "\<not> is_space (hd s)" "\<not> is_space (last s)"
  have "dropWhile is_space s = s" "dropWhile is_space (rev s) = rev s"
    by (rule dropWhile_eq_self_iff [THEN iffD2], use s in \<open>simp add: hd_rev\<close>)+
  then show "strip s = s" by (simp add: strip_def strip_if_def)
qed

lemma strip_ends:
  assumes "strip s \<noteq> []"
  shows "\<not> is_space (hd (strip s))" "\<not> is_space (last (strip s))"
proof -
  let ?d = "dropWhile is_space s"
  have s: "strip s = rev (dropWhile is_space (rev ?d))" by (simp add: strip_def strip_if_def)
  have n: "dropWhile is_space (rev ?d) \<noteq> []" using assms s by auto
  then show "\<not> is_space (last (strip s))" using hd_dropWhile [of is_space "rev ?d"] unfolding s by (simp add: last_rev)
  have d: "?d \<noteq> []" using n by (metis dropWhile.simps(1) rev.simps(1))
  have "hd (strip s) = hd ?d"
  proof -
    have "rev ?d = takeWhile is_space (rev ?d) @ dropWhile is_space (rev ?d)" by simp
    then have "?d = strip s @ rev (takeWhile is_space (rev ?d))" unfolding s by (metis rev_append rev_rev_ident)
    then show ?thesis using assms by (metis hd_append2)
  qed
  then show "\<not> is_space (hd (strip s))" using hd_dropWhile [OF d] by simp
qed

lemma space_equals: "\<not> is_space (CHR ''='')" "\<not> is_space (CHR ''#'')" by code_simp+

lemma lstrip_hash: "strip s \<noteq> [] \<Longrightarrow> startswith ''#'' (dropWhile is_space s) = startswith ''#'' (strip s)"
proof -
  assume n: "strip s \<noteq> []"
  obtain a b where s: "s = a @ strip s @ b" "list_all is_space a" "list_all is_space b" by (rule strip_split)
  have "dropWhile is_space (a @ strip s @ b) = strip s @ b"
    using s(2) strip_ends(1) [OF n] n by (induction a) (auto simp: dropWhile_append3 neq_Nil_conv)
  then have "dropWhile is_space s = strip s @ b" using s(1) by metis
  then show ?thesis using n by (cases "strip s") (simp_all add: startswith_def)
qed

lemma equals_in_strip: "CHR ''='' \<in> set (strip s) \<longleftrightarrow> CHR ''='' \<in> set s"
proof -
  obtain a b where s: "s = a @ strip s @ b" "list_all is_space a" "list_all is_space b" by (rule strip_split)
  then have "set s = set a \<union> set (strip s) \<union> set b" by (metis set_append Un_assoc)
  with s(2,3) space_equals(1) show ?thesis by (auto simp: list_all_iff)
qed

lemma key_of_strip:
  assumes "CHR ''='' \<in> set s"
  shows "strip (takeWhile (\<lambda>c. c \<noteq> CHR ''='') (strip s)) = strip (takeWhile (\<lambda>c. c \<noteq> CHR ''='') s)"
proof -
  let ?t = "takeWhile (\<lambda>c. c \<noteq> CHR ''='')"
  obtain a b where s: "s = a @ strip s @ b" "list_all is_space a" "list_all is_space b" by (rule strip_split)
  have "CHR ''='' \<in> set (strip s)" using assms equals_in_strip by blast
  then have "?t (strip s @ b) = ?t (strip s)" by (simp add: takeWhile_append1 [of "CHR ''=''"])
  moreover have "?t (a @ x) = a @ ?t x" for x using s(2) space_equals(1) by (induction a) auto
  ultimately have "?t s = a @ ?t (strip s)" using s(1) by metis
  then show ?thesis using strip_spaces [OF s(2)] by simp
qed

text \<open>Both programs see the same key in a line.\<close>

lemma entry_key: "map_option fst (entry line) = line_key line"
proof (cases "strip line = []")
  case True
  then show ?thesis by (simp add: entry_def line_key_def has_entry_def)
next
  case False
  with lstrip_hash [OF False] equals_in_strip [of line] key_of_strip [of line] show ?thesis
    by (simp add: entry_def line_key_def has_entry_def split_once_def)
qed

section \<open>Loading a file\<close>

definition entries :: "platform \<Rightarrow> string list \<Rightarrow> (string \<times> string) list" where
  "entries PF ls = map (\<lambda>(k, v). (encodekey PF k, v)) (List.map_filter entry ls)"

text \<open>The environment wins over the file, and an earlier line over a later one.\<close>

lemma load_lines:
  assumes "\<And>k v. (k, v) \<in> set (entries PF ls) \<Longrightarrow> putenv PF k v"
  shows "\<exists>env'. pfor ls (load_line PF) env = Some (Inr (), env') \<and>
    (\<forall>k. map_of env' k = (case map_of env k of Some v \<Rightarrow> Some v | None \<Rightarrow> map_of (entries PF ls) k))"
  using assms
proof (induction ls arbitrary: env)
  case Nil
  then show ?case by (simp add: entries_def List.map_filter_simps split: option.split)
next
  case (Cons l ls)
  show ?case
  proof (cases "entry l")
    case None
    then have l: "load_line PF l = pret ()" and en: "entries PF (l # ls) = entries PF ls"
      by (simp_all add: load_line_entry entries_def List.map_filter_simps)
    show ?thesis using Cons unfolding en pfor.simps l pbind_pret by blast
  next
    case (Some e)
    obtain k v where e: "e = (k, v)" by (cases e)
    let ?env = "if map_of env (encodekey PF k) = None then (encodekey PF k, v) # env else env"
    have en: "entries PF (l # ls) = (encodekey PF k, v) # entries PF ls"
      using Some by (simp add: e entries_def List.map_filter_simps)
    have "putenv PF (encodekey PF k) v" using Cons.prems en by simp
    then have l: "load_line PF l env = Some (Inr (), ?env)"
      using Some by (simp add: e load_line_entry setdefault_def environ_get_def pbind_def)
    from Cons.IH [of ?env] Cons.prems en obtain env'
      where "pfor ls (load_line PF) ?env = Some (Inr (), env')"
        "\<forall>k. map_of env' k = (case map_of ?env k of Some v \<Rightarrow> Some v | None \<Rightarrow> map_of (entries PF ls) k)"
      by auto
    with l en show ?thesis by (auto simp: pbind_def split: option.split if_splits)
  qed
qed

lemma map_of_unique: "(k, v) \<in> set al \<Longrightarrow> (\<And>v'. (k, v') \<in> set al \<Longrightarrow> v' = v) \<Longrightarrow> map_of al k = Some v"
  by (metis map_of_SomeD map_of_eq_None_iff fst_conv imageI not_None_eq)

section \<open>A setting written by the user interface is read by the bot\<close>

definition plain_key :: "string \<Rightarrow> bool" where
  "plain_key k \<longleftrightarrow> k \<noteq> [] \<and> strip k = k \<and> \<not> startswith ''#'' k \<and> CHR ''='' \<notin> set k \<and> no_line_end k"

definition plain_value :: "string \<Rightarrow> bool" where
  "plain_value v \<longleftrightarrow> strip v = v \<and> strip_quotes v = v \<and> no_line_end v"

lemma entry_env_line:
  assumes "plain_key k" "plain_value v"
  shows "entry (env_line k v) = Some (k, v)" "no_line_end (env_line k v)"
proof -
  have k: "k \<noteq> []" "strip k = k" "CHR ''='' \<notin> set k" using assms(1) by (auto simp: plain_key_def)
  have "\<not> is_space (last (env_line k v))"
    using strip_ends(2) [of v] assms(2) space_equals(1) by (cases "v = []") (auto simp: env_line_def plain_value_def)
  moreover have "\<not> is_space (hd (env_line k v))" using strip_ends(1) [of k] k by (simp add: env_line_def)
  ultimately have s: "strip (env_line k v) = env_line k v" by (intro strip_nonempty) (simp_all add: env_line_def)
  have t: "split_once CHR ''='' (env_line k v) = (k, v)"
    using k(3) unfolding split_once_def env_line_def by (induction k) auto
  show "entry (env_line k v) = Some (k, v)"
  proof -
    have "has_entry (env_line k v)"
      using assms(1) by (cases k) (simp_all add: has_entry_def env_line_def plain_key_def startswith_def)
    then show ?thesis using assms k by (simp add: entry_def s t plain_value_def)
  qed
  have "\<not> is_line_end (CHR ''='')" by code_simp
  then show "no_line_end (env_line k v)" using assms by (auto simp: no_line_end_def env_line_def plain_key_def plain_value_def)
qed

lemma entries_iff: "(K, v) \<in> set (entries PF ls) \<longleftrightarrow> (\<exists>l \<in> set ls. \<exists>k. entry l = Some (k, v) \<and> K = encodekey PF k)"
  by (induction ls) (auto simp: entries_def List.map_filter_simps split: option.split)

text \<open>The keys of the lines of a file.\<close>

definition file_keys :: "string option \<Rightarrow> string set" where
  "file_keys file = {k. \<exists>text. file = Some text \<and> Some k \<in> line_key ` set (splitlines text)}"

lemma entry_update_line:
  assumes "list_all (\<lambda>(k, v). plain_key k \<and> plain_value v) updates" "entry (update_line updates l) = Some (k, v)"
  shows "line_key l = Some k" "map_of updates k = Some w \<Longrightarrow> v = w"
proof -
  obtain k' where k': "line_key l = Some k'"
    using assms(2) entry_key [of l] by (cases "line_key l") (auto simp: update_line_def)
  show "line_key l = Some k" "map_of updates k = Some w \<Longrightarrow> v = w"
  proof -
    show k: "line_key l = Some k"
    proof (cases "map_of updates k'")
      case None
      then show ?thesis using assms(2) k' entry_key [of l] by (auto simp: update_line_def)
    next
      case (Some u)
      then have "plain_key k'" "plain_value u" using assms(1) by (auto simp: list_all_iff dest!: map_of_SomeD)
      then show ?thesis using assms(2) k' Some entry_env_line(1) by (auto simp: update_line_def)
    qed
    assume w: "map_of updates k = Some w"
    then have "plain_key k" "plain_value w" using assms(1) by (auto simp: list_all_iff dest!: map_of_SomeD)
    then show "v = w" using assms(2) k w entry_env_line(1) by (auto simp: update_line_def)
  qed
qed

lemma entry_update_lines:
  assumes u: "list_all (\<lambda>(k, v). plain_key k \<and> plain_value v) updates" "distinct (map fst updates)"
    and l: "l \<in> set (update_lines updates lines)" "entry l = Some (k, v)"
  shows "Some k \<in> line_key ` set lines \<or> k \<in> fst ` set updates" "map_of updates k = Some w \<Longrightarrow> v = w"
proof -
  from l(1) consider m where "m \<in> set lines" "l = update_line updates m"
    | k' v' where "(k', v') \<in> set updates" "l = env_line k' v'"
    by (auto simp: update_lines_def)
  then have "(Some k \<in> line_key ` set lines \<or> k \<in> fst ` set updates) \<and> (map_of updates k = Some w \<longrightarrow> v = w)"
  proof cases
    case 1
    with entry_update_line [OF u(1)] l(2) have "line_key m = Some k" "map_of updates k = Some w \<longrightarrow> v = w" by blast+
    with 1(1) show ?thesis by (metis imageI)
  next
    case 2
    with u(1) l(2) entry_env_line(1) [of k' v'] have "k = k'" "v = v'" by (auto simp: list_all_iff)
    with 2(1) u(2) show ?thesis by (auto simp: map_of_eq_Some_iff) (metis fst_conv imageI)
  qed
  then show "Some k \<in> line_key ` set lines \<or> k \<in> fst ` set updates" "map_of updates k = Some w \<Longrightarrow> v = w" by auto
qed

lemma update_lines_entry:
  assumes u: "list_all (\<lambda>(k, v). plain_key k \<and> plain_value v) updates" and kv: "(k, v) \<in> set updates" "distinct (map fst updates)"
  shows "\<exists>l \<in> set (update_lines updates lines). entry l = Some (k, v)"
proof -
  have p: "plain_key k" "plain_value v" using u kv(1) by (auto simp: list_all_iff)
  have m: "map_of updates k = Some v" using kv by simp
  show ?thesis
  proof (cases "Some k \<in> line_key ` set lines")
    case True
    then obtain l where "l \<in> set lines" "line_key l = Some k" by force
    with m have "update_line updates l = env_line k v" by (simp add: update_line_def)
    moreover have "update_line updates l \<in> set (update_lines updates lines)" using \<open>l \<in> set lines\<close> by (simp add: update_lines_def)
    ultimately show ?thesis using entry_env_line(1) [OF p] by metis
  next
    case False
    with kv(1) have "env_line k v \<in> set (update_lines updates lines)" by (force simp: update_lines_def)
    with entry_env_line(1) [OF p] show ?thesis by blast
  qed
qed

lemma update_lines_no_end:
  assumes "list_all (\<lambda>(k, v). plain_key k \<and> plain_value v) updates" "list_all no_line_end lines"
  shows "list_all no_line_end (update_lines updates lines)"
proof -
  have e: "no_line_end (env_line k v)" if "(k, v) \<in> set updates" for k v
    using assms(1) that entry_env_line(2) [of k v] by (auto simp: list_all_iff)
  have "no_line_end (update_line updates l)" if "no_line_end l" for l
    using that e by (auto simp: update_line_def split: option.split dest!: map_of_SomeD)
  then show ?thesis using assms(2) e by (auto simp: update_lines_def list_all_iff)
qed



end
