(* ===== verification/DiscordBot.thy ===== *)
theory DiscordBot
  imports EnvFile SocketPad
begin

text \<open>
  The Discord bot (\<open>discord_input_bot.py\<close>): its configuration, the commands it understands,
  and \<open>on_message\<close>, whose runs for several messages interleave at the two calls of
  \<open>await asyncio.to_thread\<close>. A step relation has one step for each part between them and
  for each thread. The text of a JSON object is a parameter \<open>dumps\<close>; what the Discord library
  delivers is a message, at any time.
\<close>

section \<open>Configuration\<close>

definition COMMAND_ALIASES :: "(string \<times> string) list" where
  "COMMAND_ALIASES =
     [(''a'', ''a''), (''b'', ''b''), (''x'', ''x''), (''y'', ''y''), (''up'', ''up''), (''u'', ''up''),
      (''down'', ''down''), (''d'', ''down''), (''left'', ''left''), (''l'', ''left''),
      (''right'', ''right''), (''r'', ''right''), (''l1'', ''l''), (''lb'', ''l''), (''r1'', ''r''),
      (''rb'', ''r''), (''zl'', ''zl''), (''lt'', ''zl''), (''zr'', ''zr''), (''rt'', ''zr''),
      (''plus'', ''plus''), (''start'', ''plus''), (''minus'', ''minus''), (''select'', ''minus''),
      (''home'', ''home''), (''capture'', ''capture''), (''screenshot'', ''capture'')]"

text \<open>Sets are lists of their elements.\<close>

record config =
  cfg_token :: string
  cfg_channel_id :: int
  cfg_relay_host :: string
  cfg_relay_port :: int
  cfg_prefix :: string
  cfg_duration :: pyfloat
  cfg_cooldown :: pyfloat
  cfg_allowed_user_ids :: "int list"
  cfg_privileged_user_ids :: "int list"
  cfg_privileged_commands :: "string list"
  cfg_audit_log_path :: string

definition environ_default :: "platform \<Rightarrow> string \<Rightarrow> string \<Rightarrow> (string, environ) py" where
  "environ_default PF k d = pget (\<lambda>env. case environ_get PF k env of Some v \<Rightarrow> v | None \<Rightarrow> d)"

definition items :: "string \<Rightarrow> string list" where
  "items s = filter (\<lambda>item. item \<noteq> []) (map strip (split_on CHR '','' s))"

fun int_list :: "string list \<Rightarrow> (int list, 's) py" where
  "int_list [] = pret []"
| "int_list (s # ss) = pbind (plift (int_of_str s)) (\<lambda>n. pbind (int_list ss) (\<lambda>ns. pret (n # ns)))"

text \<open>\<open>int(s) / 1000\<close>\<close>

definition milliseconds :: "string \<Rightarrow> (pyfloat, 's) py" where
  "milliseconds s =
     pbind (plift (int_of_str s)) (\<lambda>n.
     case pyround (of_int n / 1000) of Fin x \<Rightarrow> pret (Fin x) | _ \<Rightarrow> praise OverflowError)"

text \<open>\<open>file\<close> is the text of the \<open>.env\<close> file, \<open>log_path\<close> the path of the log beside the program.\<close>

definition load_config :: "platform \<Rightarrow> string \<Rightarrow> string option \<Rightarrow> (config, environ) py" where
  "load_config PF log_path file =
     pbind (load_env_file PF file) (\<lambda>_.
     pbind (environ_default PF ''DISCORD_BOT_TOKEN'' []) (\<lambda>token.
     pbind (environ_default PF ''DISCORD_CHANNEL_ID'' []) (\<lambda>channel_id.
     if token = [] then praise SystemExit
     else if channel_id = [] then praise SystemExit else
     pbind (environ_default PF ''DISCORD_ALLOWED_USER_IDS'' []) (\<lambda>s.
     pbind (int_list (items s)) (\<lambda>allowed.
     pbind (environ_default PF ''DISCORD_PRIVILEGED_USER_IDS'' []) (\<lambda>s.
     pbind (int_list (items s)) (\<lambda>privileged.
     pbind (environ_default PF ''DISCORD_PRIVILEGED_COMMANDS'' ''home,capture,screenshot'') (\<lambda>s.
     let privileged_commands = map lower (items s) in
     pbind (plift (int_of_str channel_id)) (\<lambda>channel_id.
     pbind (environ_default PF ''DISCORD_RELAY_HOST'' ''127.0.0.1'') (\<lambda>relay_host.
     pbind (environ_default PF ''DISCORD_RELAY_PORT'' ''8765'') (\<lambda>s.
     pbind (plift (int_of_str s)) (\<lambda>relay_port.
     pbind (environ_default PF ''DISCORD_COMMAND_PREFIX'' []) (\<lambda>prefix.
     pbind (environ_default PF ''DISCORD_COMMAND_DURATION_MS'' ''200'') (\<lambda>s.
     pbind (milliseconds s) (\<lambda>duration.
     pbind (environ_default PF ''DISCORD_COMMAND_COOLDOWN_MS'' ''500'') (\<lambda>s.
     pbind (milliseconds s) (\<lambda>cooldown.
     pbind (environ_default PF ''DISCORD_AUDIT_LOG'' log_path) (\<lambda>path.
     pret \<lparr>cfg_token = token, cfg_channel_id = channel_id, cfg_relay_host = relay_host, cfg_relay_port = relay_port,
       cfg_prefix = strip prefix, cfg_duration = duration, cfg_cooldown = cooldown,
       cfg_allowed_user_ids = allowed, cfg_privileged_user_ids = privileged,
       cfg_privileged_commands = privileged_commands, cfg_audit_log_path = path\<rparr>))))))))))))))))))"

section \<open>Commands\<close>

record cmd_event =
  command :: string
  raw :: string

definition parse_command :: "string \<Rightarrow> string \<Rightarrow> pyexc + cmd_event option" where
  "parse_command content prefix =
     (let text = lower (strip content) in
      if prefix \<noteq> [] \<and> \<not> startswith prefix text then Inr None else
      let text = (if prefix \<noteq> [] then strip (drop (length prefix) text) else text) in
      if text = [] then Inr None else
      case split_space text of
        [] \<Rightarrow> Inl IndexError
      | token # _ \<Rightarrow>
          (case map_of COMMAND_ALIASES token of
             None \<Rightarrow> Inr None
           | Some c \<Rightarrow> Inr (if c = [] then None else Some \<lparr>command = c, raw = token\<rparr>)))"

text \<open>UTF-8 for the characters of the model.\<close>

definition utf8 :: "string \<Rightarrow> bytes" where
  "utf8 s = concat (map (\<lambda>c. let n = char_code c in
     if n < 128 then [of_nat n] else [of_nat (192 + n div 64), of_nat (128 + n mod 64)]) s)"

definition relay_event :: "config \<Rightarrow> cmd_event \<Rightarrow> json" where
  "relay_event cfg ev =
     JDict [(''command'', JStr (command ev)), (''raw'', JStr (raw ev)), (''duration'', JFloat (cfg_duration cfg))]"

definition send_event :: "(json \<Rightarrow> string) \<Rightarrow> config \<Rightarrow> cmd_event \<Rightarrow> bytes" where
  "send_event dumps cfg ev = utf8 (dumps (relay_event cfg ev) @ [CHR 0x0A])"

section \<open>Messages\<close>

record message =
  author_bot :: bool
  author_id :: int
  channel :: int
  content :: string
  message_id :: int

fun nat_text :: "nat \<Rightarrow> string" where
  "nat_text n = (if n < 10 then [char_of (48 + n)] else nat_text (n div 10) @ [char_of (48 + n mod 10)])"

declare nat_text.simps [simp del]

definition int_text :: "int \<Rightarrow> string" where
  "int_text i = (if i < 0 then ''-'' else []) @ nat_text (nat \<bar>i\<bar>)"

text \<open>The line of the log; the time stamp is a parameter.\<close>

definition audit_line :: "string \<Rightarrow> message \<Rightarrow> cmd_event \<Rightarrow> bool \<Rightarrow> string" where
  "audit_line timestamp m ev allowed =
     timestamp @ '' privileged_command='' @ command ev @ '' raw='' @ raw ev @
     '' status='' @ (if allowed then ''allowed'' else ''denied'') @ '' user_id='' @ int_text (author_id m) @
     '' channel_id='' @ int_text (channel m) @ '' message_id='' @ int_text (message_id m)"

text \<open>
  \<open>on_message\<close> up to its first \<open>await\<close>: it returns, it waits for the log to be written, or it
  goes on to the cooldown.
\<close>

datatype progress = Done | Audit cmd_event bool | Proceed cmd_event

definition on_message :: "config \<Rightarrow> message \<Rightarrow> pyexc + progress" where
  "on_message cfg m =
     (if author_bot m \<or> channel m \<noteq> cfg_channel_id cfg then Inr Done
      else if cfg_allowed_user_ids cfg \<noteq> [] \<and> author_id m \<notin> set (cfg_allowed_user_ids cfg) then Inr Done
      else case parse_command (content m) (cfg_prefix cfg) of
        Inl e \<Rightarrow> Inl e
      | Inr None \<Rightarrow> Inr Done
      | Inr (Some ev) \<Rightarrow>
          Inr (if command ev \<in> set (cfg_privileged_commands cfg)
               then Audit ev (author_id m \<in> set (cfg_privileged_user_ids cfg)) else Proceed ev))"

datatype task = Auditing message cmd_event bool | Audited message cmd_event bool | Sending message cmd_event

datatype label =
    Received message | Logged message cmd_event bool | Log_failed message
  | Accepted message cmd_event pyfloat | Relayed message cmd_event bytes

record bot =
  last_by_user :: "(int \<times> pyfloat) list"
  tasks :: "task list"
  audit_log :: string

definition InputBot_init :: "string \<Rightarrow> bot" where
  "InputBot_init old = \<lparr>last_by_user = [], tasks = [], audit_log = old\<rparr>"

text \<open>The cooldown, and the start of the thread that sends the event.\<close>

definition cool_down :: "config \<Rightarrow> pyfloat \<Rightarrow> message \<Rightarrow> cmd_event \<Rightarrow> bot \<Rightarrow> bot \<times> label list" where
  "cool_down cfg now m ev b =
     (let last = (case map_of (last_by_user b) (author_id m) of Some t \<Rightarrow> t | None \<Rightarrow> Fin 0) in
      if flt (fsub now last) (cfg_cooldown cfg) then (b, [])
      else (b\<lparr>last_by_user := AList.update (author_id m) now (last_by_user b), tasks := tasks b @ [Sending m ev]\<rparr>,
            [Accepted m ev now]))"

definition receive :: "config \<Rightarrow> pyfloat \<Rightarrow> message \<Rightarrow> bot \<Rightarrow> bot \<times> label list" where
  "receive cfg now m b =
     (case on_message cfg m of
        Inr (Audit ev allowed) \<Rightarrow> (b\<lparr>tasks := tasks b @ [Auditing m ev allowed]\<rparr>, [Received m])
      | Inr (Proceed ev) \<Rightarrow> (let (b, ls) = cool_down cfg now m ev b in (b, Received m # ls))
      | _ \<Rightarrow> (b, [Received m]))"

definition resume :: "config \<Rightarrow> pyfloat \<Rightarrow> message \<Rightarrow> cmd_event \<Rightarrow> bool \<Rightarrow> bot \<Rightarrow> bot \<times> label list" where
  "resume cfg now m ev allowed b = (if allowed then cool_down cfg now m ev b else (b, []))"

definition append_audit_log :: "string \<Rightarrow> message \<Rightarrow> cmd_event \<Rightarrow> bool \<Rightarrow> string \<Rightarrow> string" where
  "append_audit_log timestamp m ev allowed old = old @ audit_line timestamp m ev allowed @ [CHR 0x0A]"

text \<open>
  The steps: a message arrives; a thread writes the log, or fails and may leave a part of the
  line there; \<open>on_message\<close> goes on after it; a thread sends an event, all of it or, when the
  connection fails, some first bytes.
\<close>

inductive bot_step :: "(json \<Rightarrow> string) \<Rightarrow> config \<Rightarrow> bot \<Rightarrow> label list \<Rightarrow> bot \<Rightarrow> bool" for dumps cfg where
  message_arrives: "receive cfg now m b = (b', ls) \<Longrightarrow> bot_step dumps cfg b ls b'"
| log_written: "tasks b = xs @ Auditing m ev al # ys \<Longrightarrow>
    bot_step dumps cfg b [Logged m ev al]
      (b\<lparr>tasks := xs @ Audited m ev al # ys, audit_log := append_audit_log timestamp m ev al (audit_log b)\<rparr>)"
| log_fails: "tasks b = xs @ Auditing m ev al # ys \<Longrightarrow>
    bot_step dumps cfg b [Log_failed m]
      (b\<lparr>tasks := xs @ ys, audit_log := audit_log b @ take n (audit_line timestamp m ev al @ [CHR 0x0A])\<rparr>)"
| resumes: "tasks b = xs @ Audited m ev al # ys \<Longrightarrow> resume cfg now m ev al (b\<lparr>tasks := xs @ ys\<rparr>) = (b', ls) \<Longrightarrow>
    bot_step dumps cfg b ls b'"
| sends: "tasks b = xs @ Sending m ev # ys \<Longrightarrow>
    bot_step dumps cfg b [Relayed m ev (take n (send_event dumps cfg ev))] (b\<lparr>tasks := xs @ ys\<rparr>)"

inductive bot_run :: "(json \<Rightarrow> string) \<Rightarrow> config \<Rightarrow> label list \<Rightarrow> bot \<Rightarrow> bool" for dumps cfg where
  starts: "bot_run dumps cfg [] (InputBot_init old)"
| steps: "bot_run dumps cfg tr b \<Longrightarrow> bot_step dumps cfg b ls b' \<Longrightarrow> bot_run dumps cfg (tr @ ls) b'"


section \<open>Parsing\<close>

lemma lower_char_space [simp]: "is_space (lower_char c) \<longleftrightarrow> is_space c"
proof -
  have "char_code c < 256" by (simp add: char_code_def)
  then show ?thesis by (auto simp: lower_char_def is_space_def char_code_def Let_def)
qed

lemma lower_char_idem [simp]: "lower_char (lower_char c) = lower_char c"
proof -
  have "char_code c < 256" by (simp add: char_code_def)
  then show ?thesis by (auto simp: lower_char_def char_code_def Let_def)
qed

lemma split_words_nonempty: "w \<noteq> [] \<or> (\<exists>c \<in> set s. \<not> is_space c) \<Longrightarrow> split_words w s \<noteq> []"
  by (induction w s rule: split_words.induct) auto

lemma split_space_nonempty: "s \<noteq> [] \<Longrightarrow> \<not> is_space (hd s) \<Longrightarrow> split_space s \<noteq> []"
  unfolding split_space_def by (rule split_words_nonempty) (metis list.set_sel(1))

lemma lower_strip: "lower (strip s) \<noteq> [] \<Longrightarrow> \<not> is_space (hd (lower (strip s)))"
  using strip_ends(1) [of s] by (simp add: lower_def hd_map)

lemma parse_command_returns: "\<exists>r. parse_command s prefix = Inr r"
proof -
  let ?t = "lower (strip s)"
  let ?u = "strip (drop (length prefix) ?t)"
  have "?t = [] \<or> split_space ?t \<noteq> []" "?u = [] \<or> split_space ?u \<noteq> []"
    using split_space_nonempty [OF _ lower_strip] split_space_nonempty [OF _ strip_ends(1)] by blast+
  then show ?thesis by (auto simp: parse_command_def Let_def split: list.split option.split)
qed

lemma parse_command_known:
  "parse_command s prefix = Inr (Some ev) \<Longrightarrow> (raw ev, command ev) \<in> set COMMAND_ALIASES"
  by (auto simp: parse_command_def Let_def dest!: map_of_SomeD split: if_splits list.splits option.splits)

text \<open>A prefix with a capital letter is never found, since the text has none.\<close>

lemma capital_prefix:
  assumes "c \<in> set prefix" "lower_char c \<noteq> c"
  shows "parse_command s prefix = Inr None"
proof -
  have "\<not> startswith prefix (lower t)" for t
  proof
    assume "startswith prefix (lower t)"
    then have "set prefix \<subseteq> set (lower t)" unfolding startswith_def by (metis set_take_subset)
    with assms show False by (auto simp: lower_def)
  qed
  with assms(1) show ?thesis by (auto simp: parse_command_def Let_def)
qed

section \<open>Only authorised users reach the console\<close>

definition authorised :: "config \<Rightarrow> label list \<Rightarrow> message \<Rightarrow> cmd_event \<Rightarrow> bool" where
  "authorised cfg tr m ev \<longleftrightarrow>
     Received m \<in> set tr \<and>
     (on_message cfg m = Inr (Proceed ev) \<or> on_message cfg m = Inr (Audit ev True) \<and> Logged m ev True \<in> set tr)"

fun task_ok :: "config \<Rightarrow> label list \<Rightarrow> task \<Rightarrow> bool" where
  "task_ok cfg tr (Auditing m ev al) \<longleftrightarrow> Received m \<in> set tr \<and> on_message cfg m = Inr (Audit ev al)"
| "task_ok cfg tr (Audited m ev al) \<longleftrightarrow>
     Received m \<in> set tr \<and> on_message cfg m = Inr (Audit ev al) \<and> Logged m ev al \<in> set tr"
| "task_ok cfg tr (Sending m ev) \<longleftrightarrow> authorised cfg tr m ev"

lemma task_ok_more: "task_ok cfg tr t \<Longrightarrow> task_ok cfg (tr @ ls) t"
  by (cases t) (auto simp: authorised_def)

lemma cool_down_tasks:
  assumes "cool_down cfg now m ev b = (b', ls)"
  shows "tasks b' = tasks b \<or> tasks b' = tasks b @ [Sending m ev]"
  using assms by (auto simp: cool_down_def Let_def split: if_splits)

lemma receive_tasks:
  assumes "receive cfg now m b = (b', ls)" "t \<in> set (tasks b')"
  shows "t \<in> set (tasks b) \<or> task_ok cfg (tr @ ls) t"
  using assms cool_down_tasks [of cfg now m _ b]
  by (fastforce simp: receive_def authorised_def split: sum.splits progress.splits prod.splits)

lemma bot_run_tasks: "bot_run dumps cfg tr b \<Longrightarrow> list_all (task_ok cfg tr) (tasks b)"
proof (induction rule: bot_run.induct)
  case (starts old)
  then show ?case by (simp add: InputBot_init_def)
next
  case (steps tr b ls b')
  have old: "task_ok cfg (tr @ ls) t" if "t \<in> set (tasks b)" for t
    using steps.IH that task_ok_more by (auto simp: list_all_iff)
  from steps.hyps(2) have "task_ok cfg (tr @ ls) t" if t: "t \<in> set (tasks b')" for t
  proof cases
    case (message_arrives now m)
    with receive_tasks [OF message_arrives t] old show ?thesis by blast
  next
    case (log_written xs m ev al ys)
    with t old [of "Auditing m ev al"] old [of t] show ?thesis by auto
  next
    case (log_fails xs m ev al ys)
    with t old [of t] show ?thesis by auto
  next
    case (resumes xs m ev al ys now)
    from resumes(2) have "tasks b' = xs @ ys \<or> al \<and> tasks b' = xs @ ys @ [Sending m ev]"
      by (auto simp: resume_def dest!: cool_down_tasks split: if_splits)
    with resumes(1) t old [of "Audited m ev al"] old [of t] show ?thesis by (auto simp: authorised_def)
  next
    case (sends xs m ev ys)
    with t old [of t] show ?thesis by auto
  qed
  then show ?case by (simp add: list_all_iff)
qed


lemma on_message_Proceed:
  "on_message cfg m = Inr (Proceed ev) \<longleftrightarrow>
     \<not> author_bot m \<and> channel m = cfg_channel_id cfg \<and>
     (cfg_allowed_user_ids cfg = [] \<or> author_id m \<in> set (cfg_allowed_user_ids cfg)) \<and>
     parse_command (content m) (cfg_prefix cfg) = Inr (Some ev) \<and> command ev \<notin> set (cfg_privileged_commands cfg)"
  by (auto simp: on_message_def split: sum.split option.split)

lemma on_message_Audit:
  "on_message cfg m = Inr (Audit ev al) \<longleftrightarrow>
     \<not> author_bot m \<and> channel m = cfg_channel_id cfg \<and>
     (cfg_allowed_user_ids cfg = [] \<or> author_id m \<in> set (cfg_allowed_user_ids cfg)) \<and>
     parse_command (content m) (cfg_prefix cfg) = Inr (Some ev) \<and> command ev \<in> set (cfg_privileged_commands cfg) \<and>
     al = (author_id m \<in> set (cfg_privileged_user_ids cfg))"
  by (auto simp: on_message_def split: sum.split option.split)

lemma cool_down_labels: "cool_down cfg now m ev b = (b', ls) \<Longrightarrow> ls = [] \<or> ls = [Accepted m ev now]"
  by (auto simp: cool_down_def Let_def split: if_splits)

lemma receive_labels:
  "receive cfg now m b = (b', ls) \<Longrightarrow> ls = [Received m] \<or> (\<exists>ev. ls = [Received m, Accepted m ev now])"
  by (auto simp: receive_def dest: cool_down_labels split: sum.splits progress.splits prod.splits)

lemma Relayed_step:
  assumes "bot_step dumps cfg b ls b'" "Relayed m ev bs \<in> set ls"
  obtains xs ys n where "tasks b = xs @ Sending m ev # ys" "bs = take n (send_event dumps cfg ev)"
  using assms
  by cases (auto simp: resume_def dest!: receive_labels cool_down_labels split: if_splits)

text \<open>
  C11. Only messages of authorised users reach the bridge. However the runs of \<open>on_message\<close>
  and the threads interleave, when bytes are sent to the relay they are (a first part of) the
  event of a message received before, written by a person and not by a bot, in the configured
  channel, by an allowed user if there is a list of them, with a command the bot knows. If
  the command is a privileged one, its author is a privileged user, and the log already has
  the entry.
\<close>

theorem only_authorised_reach_bridge:
  assumes "bot_run dumps cfg tr b" "bot_step dumps cfg b ls b'" "Relayed m ev bs \<in> set ls"
  shows "Received m \<in> set tr \<and> \<not> author_bot m \<and> channel m = cfg_channel_id cfg \<and>
    (cfg_allowed_user_ids cfg = [] \<or> author_id m \<in> set (cfg_allowed_user_ids cfg)) \<and>
    parse_command (content m) (cfg_prefix cfg) = Inr (Some ev) \<and>
    (command ev \<in> set (cfg_privileged_commands cfg) \<longrightarrow>
       author_id m \<in> set (cfg_privileged_user_ids cfg) \<and> Logged m ev True \<in> set tr) \<and>
    (\<exists>n. bs = take n (send_event dumps cfg ev))"
proof -
  from assms(2,3) obtain xs ys n where t: "tasks b = xs @ Sending m ev # ys" "bs = take n (send_event dumps cfg ev)"
    by (rule Relayed_step)
  with bot_run_tasks [OF assms(1)] have "authorised cfg tr m ev" by simp
  with t(2) show ?thesis by (auto simp: authorised_def on_message_Proceed on_message_Audit)
qed

definition example_config :: config where
  "example_config =
     \<lparr>cfg_token = ''t'', cfg_channel_id = 7, cfg_relay_host = ''127.0.0.1'', cfg_relay_port = 8765, cfg_prefix = [],
      cfg_duration = Fin (1 / 4), cfg_cooldown = Fin (1 / 2), cfg_allowed_user_ids = [],
      cfg_privileged_user_ids = [3], cfg_privileged_commands = [''home'', ''capture''], cfg_audit_log_path = ''log''\<rparr>"

definition example_message :: message where
  "example_message = \<lparr>author_bot = False, author_id = 3, channel = 7, content = '' Home '', message_id = 11\<rparr>"

definition example_event :: cmd_event where
  "example_event = \<lparr>command = ''home'', raw = ''home''\<rparr>"

lemma example_on_message: "on_message example_config example_message = Inr (Audit example_event True)"
proof -
  have "parse_command '' Home '' [] = Inr (Some example_event)" by code_simp
  then show ?thesis by (simp add: on_message_Audit example_config_def example_message_def example_event_def)
qed

lemma example_run:
  "bot_run dumps example_config
     [Received example_message, Logged example_message example_event True, Accepted example_message example_event (Fin 100)]
     \<lparr>last_by_user = [(3, Fin 100)], tasks = [Sending example_message example_event],
      audit_log = append_audit_log ''now'' example_message example_event True []\<rparr>"
proof -
  let ?m = example_message and ?ev = example_event
  let ?b1 = "\<lparr>last_by_user = [], tasks = [Auditing ?m ?ev True], audit_log = []\<rparr>"
  let ?b2 = "\<lparr>last_by_user = [], tasks = [Audited ?m ?ev True], audit_log = append_audit_log ''now'' ?m ?ev True []\<rparr>"
  let ?b3 = "\<lparr>last_by_user = [(3, Fin 100)], tasks = [Sending ?m ?ev], audit_log = append_audit_log ''now'' ?m ?ev True []\<rparr>"
  have "receive example_config (Fin 0) ?m (InputBot_init []) = (?b1, [Received ?m])"
    by (simp add: receive_def example_on_message InputBot_init_def)
  from steps [OF starts message_arrives [OF this]] have 1: "bot_run dumps example_config [Received ?m] ?b1" by simp
  have "bot_step dumps example_config ?b1 [Logged ?m ?ev True] ?b2"
    using log_written [of ?b1 "[]" ?m ?ev True "[]" dumps example_config "''now''"] by simp
  from steps [OF 1 this] have 2: "bot_run dumps example_config [Received ?m, Logged ?m ?ev True] ?b2" by simp
  have "\<not> flt (fsub (Fin 100) (Fin 0)) (cfg_cooldown example_config)" "author_id ?m = 3"
    using fl_exact_int [of 100] by (simp_all add: fsub_def pyround_small example_config_def example_message_def)
  then have "resume example_config (Fin 100) ?m ?ev True (?b2\<lparr>tasks := [] @ []\<rparr>) = (?b3, [Accepted ?m ?ev (Fin 100)])"
    by (simp add: resume_def cool_down_def)
  then have "bot_step dumps example_config ?b2 [Accepted ?m ?ev (Fin 100)] ?b3"
    by (intro resumes [of _ "[]" ?m ?ev True "[]"]) simp_all
  from steps [OF 2 this] show ?thesis by simp
qed

theorem only_authorised_reach_bridge_witness:
  "author_id example_message \<in> set (cfg_privileged_user_ids example_config)"
  using only_authorised_reach_bridge [OF example_run [of "\<lambda>_. ''{}''"]
      sends [of _ "[]" example_message example_event "[]" _ _ 3], of example_message example_event]
  by (simp add: example_event_def example_config_def)


section \<open>The cooldown\<close>

text \<open>The times at which events of a user were accepted.\<close>

definition accepted_time :: "int \<Rightarrow> label \<Rightarrow> pyfloat option" where
  "accepted_time u l = (case l of Accepted m ev t \<Rightarrow> if author_id m = u then Some t else None | _ \<Rightarrow> None)"

definition accepted_times :: "int \<Rightarrow> label list \<Rightarrow> pyfloat list" where
  "accepted_times u tr = List.map_filter (accepted_time u) tr"

definition spaced :: "pyfloat \<Rightarrow> pyfloat list \<Rightarrow> bool" where
  "spaced c ts \<longleftrightarrow> successively (\<lambda>x y. \<not> flt (fsub y x) c) ts"

definition cooled :: "config \<Rightarrow> label list \<Rightarrow> bot \<Rightarrow> bool" where
  "cooled cfg tr b \<longleftrightarrow>
     (\<forall>u. map_of (last_by_user b) u = (if accepted_times u tr = [] then None else Some (last (accepted_times u tr))) \<and>
          spaced (cfg_cooldown cfg) (accepted_times u tr))"

lemma accepted_times_simps [simp]:
  "accepted_times u [] = []"
  "accepted_times u (tr @ ls) = accepted_times u tr @ accepted_times u ls"
  "accepted_times u (l # ls) = (case accepted_time u l of None \<Rightarrow> accepted_times u ls | Some t \<Rightarrow> t # accepted_times u ls)"
  by (simp_all add: accepted_times_def List.map_filter_def accepted_time_def split: option.split)

lemma accepted_time_simps [simp]:
  "accepted_time u (Accepted m ev t) = (if author_id m = u then Some t else None)"
  "accepted_time u (Received m) = None" "accepted_time u (Logged m ev al) = None"
  "accepted_time u (Log_failed m) = None" "accepted_time u (Relayed m ev bs) = None"
  by (simp_all add: accepted_time_def)

lemma cool_down_cooled:
  assumes "cool_down cfg now m ev b = (b', ls)" "cooled cfg tr b"
  shows "cooled cfg (tr @ ls) b'"
proof (cases "ls = []")
  case True
  with assms show ?thesis by (auto simp: cool_down_def Let_def split: if_splits)
next
  case False
  let ?ts = "accepted_times (author_id m) tr"
  from False assms(1) have ls: "ls = [Accepted m ev now]" and b': "last_by_user b' = AList.update (author_id m) now (last_by_user b)"
    and t: "\<not> flt (fsub now (case map_of (last_by_user b) (author_id m) of Some t \<Rightarrow> t | None \<Rightarrow> Fin 0)) (cfg_cooldown cfg)"
    by (auto simp: cool_down_def Let_def split: if_splits)
  have "spaced (cfg_cooldown cfg) (?ts @ [now])"
    using assms(2) t by (cases "?ts = []") (auto simp: cooled_def spaced_def successively_append_iff)
  with assms(2) ls b' show ?thesis by (auto simp: cooled_def update_conv spaced_def)
qed

lemma cooled_other:
  assumes "cooled cfg tr b" "last_by_user b' = last_by_user b" "\<And>u. accepted_times u ls = []"
  shows "cooled cfg (tr @ ls) b'"
  using assms by (simp add: cooled_def)

lemma bot_run_cooled: "bot_run dumps cfg tr b \<Longrightarrow> cooled cfg tr b"
proof (induction rule: bot_run.induct)
  case (starts old)
  then show ?case by (simp add: InputBot_init_def cooled_def spaced_def)
next
  case (steps tr b ls b')
  from steps.hyps(2) show ?case
  proof cases
    case (message_arrives now m)
    then consider (other) "last_by_user b' = last_by_user b" "ls = [Received m]"
      | (cool) ev ls' where "cool_down cfg now m ev b = (b', ls')" "ls = Received m # ls'"
      by (auto simp: receive_def split: sum.splits progress.splits prod.splits)
    then show ?thesis
    proof cases
      case other
      with steps.IH show ?thesis by (intro cooled_other) simp_all
    next
      case (cool ev ls')
      have "cooled cfg (tr @ [Received m]) b" by (rule cooled_other [OF steps.IH]) simp_all
      from cool_down_cooled [OF cool(1) this] cool(2) show ?thesis by simp
    qed
  next
    case (resumes xs m ev al ys now)
    have b: "cooled cfg tr (b\<lparr>tasks := xs @ ys\<rparr>)" using cooled_other [OF steps.IH, of "b\<lparr>tasks := xs @ ys\<rparr>" "[]"] by simp
    from resumes(2) consider "al" "cool_down cfg now m ev (b\<lparr>tasks := xs @ ys\<rparr>) = (b', ls)"
      | "b' = b\<lparr>tasks := xs @ ys\<rparr>" "ls = []" by (auto simp: resume_def split: if_splits)
    then show ?thesis using b cool_down_cooled [OF _ b] by cases simp_all
  qed (use steps.IH in \<open>auto intro: cooled_other\<close>)
qed

text \<open>
  C36. The cooldown holds for every user: between two successive events of one user that the
  bot accepts, the clock has moved by the configured time at least, in whatever order the
  runs of \<open>on_message\<close> for that user's messages go on after their entries in the log. An
  event that is refused does not start a new cooldown.
\<close>

theorem cooldown_between_events:
  assumes "bot_run dumps cfg tr b"
  shows "successively (\<lambda>x y. \<not> flt (fsub y x) (cfg_cooldown cfg)) (accepted_times u tr)"
  using bot_run_cooled [OF assms] by (simp add: cooled_def spaced_def)

theorem cooldown_between_events_witness:
  "successively (\<lambda>x y. \<not> flt (fsub y x) (cfg_cooldown example_config))
     (accepted_times 3 [Received example_message, Logged example_message example_event True,
        Accepted example_message example_event (Fin 100)])"
  by (rule cooldown_between_events [OF example_run [of "\<lambda>_. ''{}''"]])

section \<open>The log\<close>

definition entry_in :: "message \<Rightarrow> cmd_event \<Rightarrow> bool \<Rightarrow> string \<Rightarrow> bool" where
  "entry_in m ev al text \<longleftrightarrow> (\<exists>before timestamp after. text = before @ audit_line timestamp m ev al @ CHR 0x0A # after)"

lemma entry_in_append: "entry_in m ev al text \<Longrightarrow> entry_in m ev al (text @ rest)"
  unfolding entry_in_def by (metis append.assoc append_Cons)

lemma entry_in_append_audit_log: "entry_in m ev al (append_audit_log timestamp m ev al text)"
  unfolding entry_in_def append_audit_log_def by blast

text \<open>What happens to a message with a privileged command.\<close>

definition attended :: "label list \<Rightarrow> bot \<Rightarrow> message \<Rightarrow> cmd_event \<Rightarrow> bool \<Rightarrow> bool" where
  "attended tr b m ev al \<longleftrightarrow>
     Auditing m ev al \<in> set (tasks b) \<or> entry_in m ev al (audit_log b) \<or> Log_failed m \<in> set tr"

lemma cool_down_log: "cool_down cfg now m ev b = (b', ls) \<Longrightarrow> audit_log b' = audit_log b \<and> set (tasks b) \<subseteq> set (tasks b')"
  by (auto simp: cool_down_def Let_def split: if_splits)

lemma receive_log: "receive cfg now m b = (b', ls) \<Longrightarrow> audit_log b' = audit_log b \<and> set (tasks b) \<subseteq> set (tasks b')"
  by (auto simp: receive_def dest: cool_down_log split: sum.splits progress.splits prod.splits)

lemma attended_step:
  assumes "bot_step dumps cfg b ls b'" "attended tr b m ev al"
  shows "attended (tr @ ls) b' m ev al"
  using assms(1)
proof cases
  case (message_arrives now m)
  with receive_log [OF message_arrives] assms(2) show ?thesis by (auto simp: attended_def)
next
  case (log_written xs m' ev' al' ys timestamp)
  with assms(2) entry_in_append_audit_log [of m ev al timestamp "audit_log b"] entry_in_append [of m ev al "audit_log b"]
  show ?thesis by (auto simp: attended_def append_audit_log_def)
next
  case (log_fails xs m' ev' al' ys n timestamp)
  with assms(2) entry_in_append [of m ev al "audit_log b"] show ?thesis by (auto simp: attended_def)
next
  case (resumes xs m' ev' al' ys now)
  then have "audit_log b' = audit_log b" "set (xs @ ys) \<subseteq> set (tasks b')"
    by (auto simp: resume_def dest!: cool_down_log split: if_splits)
  with resumes(1) assms(2) show ?thesis by (auto simp: attended_def)
next
  case (sends xs m' ev' ys n)
  with assms(2) show ?thesis by (auto simp: attended_def)
qed

lemma Received_step:
  assumes "bot_step dumps cfg b ls b'" "Received m \<in> set ls"
  shows "\<exists>now. receive cfg now m b = (b', ls)"
  using assms(1)
proof cases
  case (message_arrives now m')
  with receive_labels [OF message_arrives] assms(2) show ?thesis by auto
qed (use assms(2) in \<open>auto simp: resume_def dest!: cool_down_labels split: if_splits\<close>)

text \<open>
  C37. Every attempt at a privileged command is logged. For each message received from a
  person in the channel, allowed to use the bot at all, whose command is a privileged one,
  the log has an entry with the command, the status, the user, the channel and the message,
  unless the thread that writes it is still to run or failed; nothing that happens later
  removes the entry.
\<close>

theorem privileged_attempts_logged:
  assumes "bot_run dumps cfg tr b" "Received m \<in> set tr" "on_message cfg m = Inr (Audit ev al)"
  shows "al = (author_id m \<in> set (cfg_privileged_user_ids cfg)) \<and>
    (Auditing m ev al \<in> set (tasks b) \<or> entry_in m ev al (audit_log b) \<or> Log_failed m \<in> set tr)"
proof -
  from assms(1,2) have "attended tr b m ev al"
  proof (induction rule: bot_run.induct)
    case (steps tr b ls b')
    show ?case
    proof (cases "Received m \<in> set tr")
      case True
      with steps attended_step show ?thesis by blast
    next
      case False
      with steps.prems have r: "Received m \<in> set ls" by simp
      from Received_step [OF steps.hyps(2) r] obtain now where "receive cfg now m b = (b', ls)" by blast
      with assms(3) show ?thesis by (auto simp: receive_def attended_def)
    qed
  qed simp
  with assms(3) show ?thesis by (simp add: attended_def on_message_Audit)
qed

theorem privileged_attempts_logged_witness:
  "entry_in example_message example_event True (append_audit_log ''now'' example_message example_event True [])"
  using privileged_attempts_logged [OF example_run [of "\<lambda>_. ''{}''"] _ example_on_message] by simp


section \<open>A command on its way to the pad\<close>

lemma newline_utf8: "newline \<in> set (utf8 s) \<longleftrightarrow> CHR 0x0A \<in> set s"
proof -
  have "newline \<in> set (utf8 [c]) \<longleftrightarrow> c = CHR 0x0A" for c
  proof -
    have "char_code (CHR 0x0A) = 10" by code_simp
    then have c: "char_code c < 256" "c = CHR 0x0A \<longleftrightarrow> char_code c = 10"
      unfolding char_code_def by (simp, metis of_char_eq_iff)
    have w: "(of_nat n :: u8) = 10 \<longleftrightarrow> n = 10" if "n < 256" for n
    proof
      assume "(of_nat n :: u8) = 10"
      then have "unat (of_nat n :: u8) = 10" by simp
      with that show "n = 10" by (simp add: unat_of_nat)
    qed simp
    show ?thesis using c w [of "char_code c"] w [of "192 + char_code c div 64"] w [of "128 + char_code c mod 64"]
      by (auto simp: utf8_def Let_def)
  qed
  then show ?thesis by (induction s) (auto simp: utf8_def)
qed

lemma utf8_append: "utf8 (s @ t) = utf8 s @ utf8 t" by (simp add: utf8_def)

lemma utf8_newline: "utf8 [CHR 0x0A] = [newline]" by code_simp

lemma handle_lines_one:
  assumes "newline \<notin> set l"
  shows "handle_lines h (l @ [newline]) = pbind (h l) (\<lambda>_. pret [])"
proof -
  have "takeWhile (\<lambda>b. b \<noteq> newline) (l @ [newline]) = l" "dropWhile (\<lambda>b. b \<noteq> newline) (l @ [newline]) = [newline]"
    using assms by (induction l) auto
  moreover have "handle_lines h [] = pret []" by (subst handle_lines.simps) simp
  ultimately show ?thesis by (subst handle_lines.simps) simp
qed

lemma strip_braces: "strip (CHR ''{'' # s @ ''}'') = CHR ''{'' # s @ ''}''"
proof (rule strip_nonempty)
  have "\<not> is_space CHR ''{''" "\<not> is_space CHR ''}''" by code_simp+
  then show "\<not> is_space (hd (CHR ''{'' # s @ ''}''))" "\<not> is_space (last (CHR ''{'' # s @ ''}''))" by simp_all
qed simp

text \<open>How long the bridge holds an input of the bot.\<close>

definition held_for :: "config \<Rightarrow> pyfloat" where
  "held_for cfg = py_max (pyround (1 / 100)) (py_min (cfg_duration cfg) (Fin 5))"

lemma apply_relay_event:
  assumes "command ev \<noteq> []"
  shows "apply_event repr now (relay_event cfg ev) p =
    Some (Inr (), apply_command (command ev) (fadd now (held_for cfg)) p)"
  using assms
  by (simp add: apply_event_def relay_event_def event_duration_def held_for_def event_commands_def single_command_def
      many_commands_def event_sticks_def set_stick_def has_key_def py_str_def Let_def pbind_def pmod_def plift_def)

text \<open>Each command of the bot is one the pad knows.\<close>

lemma aliases_known:
  "(r, c) \<in> set COMMAND_ALIASES \<Longrightarrow>
   c \<noteq> [] \<and> (c \<in> fst ` set SOCKET_DPAD \<union> fst ` set SOCKET_BUTTONS \<union> fst ` set SOCKET_EXTRA_BITS \<union> fst ` set SOCKET_TRIGGER_AXES)"
  by (auto simp: COMMAND_ALIASES_def SOCKET_DPAD_def SOCKET_BUTTONS_def SOCKET_EXTRA_BITS_def SOCKET_TRIGGER_AXES_def)

text \<open>
  C12. A command of the bot reaches the pad of the bridge. Whatever the message was, the line
  that the bot sends for it, however the network cuts it into chunks, makes the bridge apply
  exactly the command that the alias stands for, one of those the pad knows, until the
  configured duration (between a hundredth of a second and five seconds) has passed; the
  connection ends without an exception. What is used of \<open>json\<close> is that an object is written
  in braces without line ends and is read back, and of UTF-8 that it is decoded to what was
  encoded.
\<close>

theorem command_reaches_pad:
  assumes parsed: "parse_command text prefix = Inr (Some ev)"
    and dumps: "dumps (relay_event cfg ev) = CHR ''{'' # body @ ''}''" "CHR 0x0A \<notin> set body"
    and loads: "loads (dumps (relay_event cfg ev)) = Some (relay_event cfg ev)"
    and decode: "decode (utf8 (dumps (relay_event cfg ev))) = dumps (relay_event cfg ev)"
    and chunks: "[] \<notin> set chunks" "concat chunks = send_event dumps cfg ev"
  shows "handle_client decode (handle_line loads repr clock stamp peer) chunks p =
      Some (Inr (), apply_command (command ev) (fadd (clock (total_events p + 1)) (held_for cfg))
        (p\<lparr>total_events := total_events p + 1, last_peer := peer, last_event := command ev,
           last_event_at := stamp (total_events p + 1)\<rparr>)\<lparr>active_peers := max 0 (active_peers p - 1)\<rparr>) \<and>
    command ev \<in> fst ` set SOCKET_DPAD \<union> fst ` set SOCKET_BUTTONS \<union> fst ` set SOCKET_EXTRA_BITS \<union> fst ` set SOCKET_TRIGGER_AXES"
proof -
  let ?l = "dumps (relay_event cfg ev)"
  let ?p = "p\<lparr>total_events := total_events p + 1, last_peer := peer, last_event := command ev,
           last_event_at := stamp (total_events p + 1)\<rparr>"
  have known: "command ev \<noteq> []" "command ev \<in> fst ` set SOCKET_DPAD \<union> fst ` set SOCKET_BUTTONS \<union> fst ` set SOCKET_EXTRA_BITS \<union> fst ` set SOCKET_TRIGGER_AXES"
    using aliases_known [OF parse_command_known [OF parsed]] by blast+
  have "(CHR 0x0A :: char) \<noteq> CHR ''{''" "(CHR 0x0A :: char) \<noteq> CHR ''}''" by simp_all
  then have nl: "newline \<notin> set (utf8 ?l)" using dumps by (simp add: newline_utf8)
  have line: "handle_line loads repr clock stamp peer ?l p =
      Some (Inr (), apply_command (command ev) (fadd (clock (total_events p + 1)) (held_for cfg)) ?p)"
    using known(1) loads dumps(1) apply_relay_event [OF known(1), of repr "clock (total_events p + 1)" cfg ?p]
    by (simp add: handle_line_def Let_def pbind_def plift_def) (simp add: relay_event_def py_str_def)
  have "recv_loop h [] chunks p = pbind (h (utf8 ?l)) (\<lambda>_. pret []) p" for h :: "bytes \<Rightarrow> (unit, socket_pad) py"
    using recv_loop_concat [of "[]" chunks h p] chunks handle_lines_one [OF nl, of h]
    by (metis append_Nil empty_iff list.set(1) send_event_def utf8_append utf8_newline)
  moreover have "strip (decode (utf8 ?l)) = ?l" using decode strip_braces [of body] dumps(1) by simp
  moreover have "active_peers (apply_command c u q) = active_peers q" for c u q
    by (rule apply_command_cases [where P = "\<lambda>r. active_peers r = active_peers q"]) simp_all
  ultimately show ?thesis using line known(2) by (simp add: handle_client_def pbind_def)
qed


definition quoted :: "string \<Rightarrow> string" where
  "quoted s = CHR 0x22 # s @ [CHR 0x22]"

definition example_dumps :: "json \<Rightarrow> string" where
  "example_dumps v =
     CHR ''{'' # (case v of
        JDict [(k1, JStr c), (k2, JStr r), (k3, JFloat d)] \<Rightarrow>
          quoted k1 @ '':'' @ quoted c @ '','' @ quoted k2 @ '':'' @ quoted r @ '','' @ quoted k3 @ '':0.25''
      | _ \<Rightarrow> []) @ ''}''"

theorem command_reaches_pad_witness:
  "\<exists>p. handle_client (map (\<lambda>b. char_of (unat b)))
     (handle_line (\<lambda>_. Some (relay_event example_config example_event)) (\<lambda>_. []) (\<lambda>_. Fin 0) (\<lambda>_. []) ''bot'')
     [send_event example_dumps example_config example_event] PadSocket_init = Some (Inr (), p)"
proof -
  define body where "body = quoted ''command'' @ '':'' @ quoted ''home'' @ '','' @ quoted ''raw'' @ '':'' @ quoted ''home'' @
    '','' @ quoted ''duration'' @ '':0.25''"
  have "parse_command ''home'' [] = Inr (Some example_event)" by code_simp
  moreover have d: "example_dumps (relay_event example_config example_event) = CHR ''{'' # body @ ''}''"
    by (simp add: example_dumps_def relay_event_def example_event_def body_def)
  moreover have "CHR 0x0A \<notin> set body" unfolding body_def by code_simp
  moreover have "map (\<lambda>b. char_of (unat b)) (utf8 (CHR ''{'' # body @ ''}'')) = CHR ''{'' # body @ ''}''"
    unfolding body_def by code_simp
  moreover have "send_event example_dumps example_config example_event \<noteq> []"
    by (simp add: send_event_def utf8_append utf8_newline)
  ultimately show ?thesis
    using command_reaches_pad [of "''home''" "[]" example_event example_dumps example_config body
        "\<lambda>_. Some (relay_event example_config example_event)" "map (\<lambda>b. char_of (unat b))"
        "[send_event example_dumps example_config example_event]" "\<lambda>_. []" "\<lambda>_. Fin 0" "\<lambda>_. []" "''bot''" PadSocket_init]
    by simp
qed

section \<open>Settings\<close>

text \<open>
  Of the privileged commands of the configuration only those count that an alias stands
  for. The names of the aliases themselves, \<open>screenshot\<close> or \<open>start\<close>, restrict nothing: the
  bot compares the list with the command that the alias stands for.
\<close>

theorem privileged_by_target_only:
  "on_message (cfg\<lparr>cfg_privileged_commands := pcs\<rparr>) m =
   on_message (cfg\<lparr>cfg_privileged_commands := filter (\<lambda>c. c \<in> snd ` set COMMAND_ALIASES) pcs\<rparr>) m"
proof -
  have "command ev \<in> snd ` set COMMAND_ALIASES" if "parse_command s prefix = Inr (Some ev)" for s prefix ev
    using parse_command_known [OF that] by force
  then show ?thesis by (auto simp: on_message_def split: sum.split option.split)
qed

lemma example_alias_unrestricted:
  "on_message (example_config\<lparr>cfg_privileged_commands := [''screenshot'']\<rparr>)
     (example_message\<lparr>author_id := 4, content := ''screenshot''\<rparr>) = Inr (Proceed \<lparr>command = ''capture'', raw = ''screenshot''\<rparr>)"
proof -
  have "parse_command ''screenshot'' [] = Inr (Some \<lparr>command = ''capture'', raw = ''screenshot''\<rparr>)" by code_simp
  then show ?thesis by (simp add: on_message_Proceed example_config_def example_message_def)
qed

text \<open>Which exceptions loading the configuration can raise, and what it guarantees if it returns.\<close>

definition config_ok :: "config \<Rightarrow> bool" where
  "config_ok cfg \<longleftrightarrow>
     cfg_token cfg \<noteq> [] \<and> (\<exists>x. cfg_duration cfg = Fin x) \<and> (\<exists>x. cfg_cooldown cfg = Fin x) \<and>
     [] \<notin> set (cfg_privileged_commands cfg)"

definition ends_with :: "pyexc set \<Rightarrow> ('a \<Rightarrow> bool) \<Rightarrow> ('a, 's) py \<Rightarrow> bool" where
  "ends_with E Q m \<longleftrightarrow> (\<forall>s. \<exists>r t. m s = Some (r, t) \<and> (case r of Inl e \<Rightarrow> e \<in> E | Inr x \<Rightarrow> Q x))"

lemma ends_with_pbind:
  assumes "ends_with E P m" "\<And>x. P x \<Longrightarrow> ends_with E Q (f x)"
  shows "ends_with E Q (pbind m f)"
  unfolding ends_with_def
proof
  fix s
  from assms(1) obtain r t where m: "m s = Some (r, t)" "case r of Inl e \<Rightarrow> e \<in> E | Inr x \<Rightarrow> P x"
    unfolding ends_with_def by blast
  show "\<exists>r t. pbind m f s = Some (r, t) \<and> (case r of Inl e \<Rightarrow> e \<in> E | Inr x \<Rightarrow> Q x)"
  proof (cases r)
    case (Inl e)
    with m show ?thesis by (simp add: pbind_def)
  next
    case (Inr x)
    with m assms(2) [of x] show ?thesis unfolding ends_with_def by (simp add: pbind_def)
  qed
qed

lemma ends_with_basic:
  "Q x \<Longrightarrow> ends_with E Q (pret x)" "e \<in> E \<Longrightarrow> ends_with E Q (praise e)" "(\<And>s. Q (f s)) \<Longrightarrow> ends_with E Q (pget f)"
  by (simp_all add: ends_with_def)

lemma ends_with_if: "(c \<Longrightarrow> ends_with E Q m) \<Longrightarrow> (\<not> c \<Longrightarrow> ends_with E Q n) \<Longrightarrow> ends_with E Q (if c then m else n)"
  by simp

lemma ends_with_int: "ValueError \<in> E \<Longrightarrow> ends_with E (\<lambda>_. True) (plift (int_of_str s))"
  by (auto simp: ends_with_def int_of_str_def split_def Let_def)

lemma ends_with_int_list: "ValueError \<in> E \<Longrightarrow> ends_with E (\<lambda>_. True) (int_list ss)"
proof (induction ss)
  case (Cons s ss)
  then show ?case unfolding int_list.simps
    by (intro ends_with_pbind [OF ends_with_int] ends_with_pbind [OF Cons.IH] ends_with_basic) simp_all
qed (simp add: ends_with_basic)

lemma ends_with_milliseconds:
  "ValueError \<in> E \<Longrightarrow> OverflowError \<in> E \<Longrightarrow> ends_with E (\<lambda>d. \<exists>x. d = Fin x) (milliseconds s)"
  unfolding milliseconds_def
  by (rule ends_with_pbind [OF ends_with_int]) (auto intro: ends_with_basic split: pyfloat.split)

lemma ends_with_environ: "ends_with E (\<lambda>_. True) (environ_default PF k d)"
  unfolding environ_default_def by (rule ends_with_basic) simp

lemma ends_with_pfor: "(\<And>x. ends_with E (\<lambda>_. True) (f x)) \<Longrightarrow> ends_with E (\<lambda>_. True) (pfor xs f)"
  by (induction xs) (auto intro: ends_with_basic ends_with_pbind)

lemma ends_with_load_env_file: "OSError \<in> E \<Longrightarrow> ends_with E (\<lambda>_. True) (load_env_file PF file)"
proof -
  assume E: "OSError \<in> E"
  have "ends_with E (\<lambda>_. True) (setdefault PF k v)" for k v
    unfolding setdefault_def using E by (auto simp: ends_with_def)
  then have "ends_with E (\<lambda>_. True) (load_line PF l)" for l
    by (auto simp: load_line_entry intro: ends_with_basic split: option.split)
  then show ?thesis unfolding load_env_file_def by (auto intro: ends_with_basic ends_with_pfor split: option.split)
qed

lemma items_nonempty: "[] \<notin> set (items s)" by (simp add: items_def)

lemma load_config_ends:
  "ends_with {SystemExit, ValueError, OverflowError, OSError} config_ok (load_config PF log_path file)"
proof -
  have "[] \<notin> set (map lower (items s))" for s using items_nonempty [of s] by (auto simp: lower_def)
  then show ?thesis unfolding load_config_def Let_def
    by (intro ends_with_if ends_with_pbind [OF ends_with_load_env_file] ends_with_pbind [OF ends_with_environ] ends_with_pbind [OF ends_with_int]
        ends_with_pbind [OF ends_with_int_list] ends_with_pbind [OF ends_with_milliseconds])
      (auto simp: config_ok_def intro: ends_with_basic)
qed

end
