(* ===== verification/Launcher.thy ===== *)
theory Launcher
  imports Python
begin

text \<open>
  The launcher for Playnite (\<open>switch_launcher.py\<close>): it starts OBS if it does not run, opens the
  projector window, starts the bridge, watches the window until it closes, and cleans up in
  its \<open>finally\<close> clause. What the operating system and OBS do is a parameter, an arbitrary
  function of the number of accesses so far; the trace holds what the launcher does and the
  ends of processes that it sees. The texts of exceptions are left out of the log, and the
  user interrupts the launcher only while it sleeps.
\<close>

record launcher_args =
  la_obs_exe :: string
  la_python :: string
  la_xinput_script :: string
  la_projector_title :: string
  la_source_name :: string
  la_projector_geometry :: string
  la_startup_timeout :: int
  la_keyboard :: bool
  la_debug :: bool
  la_port :: "string option"
  la_controller :: "int option"
  la_close_existing_obs :: bool

datatype proc = Obs | Xinput

record window =
  win_visible :: bool
  win_title :: string
  win_pid :: int
  win_handle :: int

record host =
  tasklist :: "nat \<Rightarrow> pyexc + string"
  windows :: "nat \<Rightarrow> window list"
  obs_exe_exists :: bool
  popen_result :: "nat \<Rightarrow> pyexc option"
  polled :: "proc \<Rightarrow> nat \<Rightarrow> int option"
  wait_ends :: "proc \<Rightarrow> nat \<Rightarrow> bool"
  time_monotonic :: "nat \<Rightarrow> pyfloat"
  has_simpleobsws :: bool
  websocket :: "nat \<Rightarrow> pyexc option"
  log_opens :: "nat \<Rightarrow> bool"
  log_dir_made :: bool
  sleep_interrupted :: "nat \<Rightarrow> bool"
  obs_pid :: int

datatype act =
    Log string | Popen proc "string list" | Exited proc int | Terminate proc | Kill proc | Post_close int
  | Close_windows int | Open_projector string string

text \<open>The variables of \<open>main\<close>; of a process, whether the variable holds one.\<close>

record launcher =
  accesses :: nat
  acts :: "act list"
  obs_proc :: bool
  started_obs :: bool
  xinput_proc :: bool

definition launcher_init :: launcher where
  "launcher_init = \<lparr>accesses = 0, acts = [], obs_proc = False, started_obs = False, xinput_proc = False\<rparr>"

definition look :: "(nat \<Rightarrow> 'a) \<Rightarrow> ('a, launcher) py" where
  "look f s = Some (Inr (f (accesses s)), s\<lparr>accesses := accesses s + 1\<rparr>)"

definition perform :: "act \<Rightarrow> (unit, launcher) py" where
  "perform a = pmod (\<lambda>s. s\<lparr>acts := acts s @ [a]\<rparr>)"

section \<open>Operations\<close>

definition launcher_log :: "host \<Rightarrow> string \<Rightarrow> (unit, launcher) py" where
  "launcher_log H msg = pbind (look (log_opens H)) (\<lambda>ok. if ok then perform (Log msg) else praise OSError)"

definition launcher_sleep :: "host \<Rightarrow> (unit, launcher) py" where
  "launcher_sleep H = pbind (look (sleep_interrupted H)) (\<lambda>i. if i then praise KeyboardInterrupt else pret ())"

definition process_running :: "host \<Rightarrow> string \<Rightarrow> (bool, launcher) py" where
  "process_running H image_name =
     pbind (look (tasklist H)) (\<lambda>r. pbind (plift r) (\<lambda>out. pret (contains (lower image_name) (lower out))))"

text \<open>\<open>EnumWindows\<close> goes on until the callback returns \<open>False\<close>.\<close>

fun enum_windows :: "string \<Rightarrow> window list \<Rightarrow> bool" where
  "enum_windows needle [] \<longleftrightarrow> False"
| "enum_windows needle (w # ws) \<longleftrightarrow>
     (if \<not> win_visible w then enum_windows needle ws
      else if length (win_title w) = 0 then enum_windows needle ws
      else if contains needle (lower (win_title w)) then True
      else enum_windows needle ws)"

definition window_exists :: "host \<Rightarrow> string \<Rightarrow> (bool, launcher) py" where
  "window_exists H title_part = look (\<lambda>n. enum_windows (lower title_part) (windows H n))"

definition close_windows_for_pid :: "host \<Rightarrow> int \<Rightarrow> (unit, launcher) py" where
  "close_windows_for_pid H pid =
     pbind (perform (Close_windows pid)) (\<lambda>_.
     pbind (look (windows H)) (\<lambda>ws.
     pfor ws (\<lambda>w. pwhen (win_pid w = pid) (perform (Post_close (win_handle w))))))"

definition await_obs :: "host \<Rightarrow> (unit, launcher) py" where
  "await_obs H = pbind (look (websocket H)) (\<lambda>r. case r of None \<Rightarrow> pret () | Some e \<Rightarrow> praise e)"

text \<open>\<open>time.monotonic() + timeout\<close>\<close>

definition deadline_after :: "host \<Rightarrow> int \<Rightarrow> (pyfloat, launcher) py" where
  "deadline_after H timeout =
     pbind (look (time_monotonic H)) (\<lambda>t.
     case pyround (of_int timeout) of Fin x \<Rightarrow> pret (fadd t (Fin x)) | _ \<Rightarrow> praise OverflowError)"

definition connect_turn :: "host \<Rightarrow> pyfloat \<Rightarrow> (unit loop, launcher) py" where
  "connect_turn H deadline =
     pbind (look (time_monotonic H)) (\<lambda>t.
     if flt t deadline
     then pcatch is_Exception
       (pbind (await_obs H) (\<lambda>_. pbind (await_obs H) (\<lambda>_. pret (Break ()))))
       (pbind (launcher_sleep H) (\<lambda>_. pret Continue))
     else praise RuntimeError)"

definition open_projector :: "host \<Rightarrow> string \<Rightarrow> string \<Rightarrow> int \<Rightarrow> (unit, launcher) py" where
  "open_projector H source_name geometry timeout =
     (if \<not> has_simpleobsws H then praise RuntimeError else
      pbind (deadline_after H timeout) (\<lambda>deadline.
      pbind (ploop (connect_turn H deadline)) (\<lambda>_.
      pbind (perform (Open_projector source_name geometry)) (\<lambda>_.
      pbind (await_obs H) (\<lambda>_.
      pbind (launcher_log H ''OpenSourceProjector result'') (\<lambda>_.
      await_obs H))))))"

definition popen :: "host \<Rightarrow> proc \<Rightarrow> string list \<Rightarrow> (unit, launcher) py" where
  "popen H p cmd =
     pbind (look (popen_result H)) (\<lambda>r. case r of None \<Rightarrow> perform (Popen p cmd) | Some e \<Rightarrow> praise e)"

definition poll :: "host \<Rightarrow> proc \<Rightarrow> (int option, launcher) py" where
  "poll H p =
     pbind (look (polled H p)) (\<lambda>r.
     case r of None \<Rightarrow> pret None | Some c \<Rightarrow> pbind (perform (Exited p c)) (\<lambda>_. pret (Some c)))"

text \<open>The result: whether there is a process, and whether it was started here.\<close>

definition start_obs :: "host \<Rightarrow> string \<Rightarrow> (bool \<times> bool, launcher) py" where
  "start_obs H obs_exe =
     pbind (process_running H ''obs64.exe'') (\<lambda>is_running.
     if is_running then
       pbind (launcher_log H ''OBS is already running; leaving it open during cleanup.'') (\<lambda>_. pret (False, False))
     else if \<not> obs_exe_exists H then praise OSError else
       pbind (launcher_log H ''Starting OBS.'') (\<lambda>_.
       pbind (popen H Obs [obs_exe, ''--disable-shutdown-check'']) (\<lambda>_. pret (True, True))))"

text \<open>\<open>proc.wait(timeout)\<close> ends, or raises \<open>TimeoutExpired\<close>.\<close>

definition stop_process :: "host \<Rightarrow> (unit, launcher) py" where
  "stop_process H =
     pbind (pget xinput_proc) (\<lambda>proc. if \<not> proc then pret () else
     pbind (poll H Xinput) (\<lambda>code. if code \<noteq> None then pret () else
     pbind (launcher_log H ''Stopping xinput2serial.'') (\<lambda>_.
     pbind (perform (Terminate Xinput)) (\<lambda>_.
     pbind (look (wait_ends H Xinput)) (\<lambda>ends. if ends then pret () else
     pbind (launcher_log H ''Force-stopping xinput2serial.'') (\<lambda>_.
     perform (Kill Xinput)))))))"

definition stop_obs :: "host \<Rightarrow> (unit, launcher) py" where
  "stop_obs H =
     pbind (pget obs_proc) (\<lambda>proc. if \<not> proc then pret () else
     pbind (poll H Obs) (\<lambda>code. if code \<noteq> None then pret () else
     pbind (launcher_log H ''Closing OBS.'') (\<lambda>_.
     pbind (close_windows_for_pid H (obs_pid H)) (\<lambda>_.
     pbind (look (wait_ends H Obs)) (\<lambda>ends. if ends then pret () else
     pbind (launcher_log H ''OBS did not close in time; terminating it.'') (\<lambda>_.
     perform (Terminate Obs)))))))"

section \<open>The main program\<close>

text \<open>The texts of integers are those of \<open>str\<close>, a parameter.\<close>

definition xinput_cmd :: "(int \<Rightarrow> string) \<Rightarrow> launcher_args \<Rightarrow> string list" where
  "xinput_cmd str A =
     [la_python A, la_xinput_script A, ''--auto'', ''--window'', la_projector_title A] @
     (if la_keyboard A then [''--keyboard''] else []) @
     (if la_debug A then [''--debug''] else []) @
     (case la_port A of Some p \<Rightarrow> if p \<noteq> [] then [''--port'', p] else [] | None \<Rightarrow> []) @
     (case la_controller A of Some c \<Rightarrow> [''--controller'', str c] | None \<Rightarrow> [])"

definition startup_turn :: "host \<Rightarrow> string \<Rightarrow> pyfloat \<Rightarrow> (unit loop, launcher) py" where
  "startup_turn H title deadline =
     pbind (look (time_monotonic H)) (\<lambda>t.
     if \<not> flt t deadline then praise RuntimeError else
     pbind (window_exists H title) (\<lambda>found. if found then pret (Break ()) else
     pbind (poll H Xinput) (\<lambda>code. if code \<noteq> None then praise RuntimeError else
     pbind (launcher_sleep H) (\<lambda>_. pret Continue))))"

definition monitor_turn :: "host \<Rightarrow> string \<Rightarrow> (unit loop, launcher) py" where
  "monitor_turn H title =
     pbind (window_exists H title) (\<lambda>found. if \<not> found then pret (Break ()) else
     pbind (poll H Xinput) (\<lambda>code. if code \<noteq> None then praise RuntimeError else
     pbind (launcher_sleep H) (\<lambda>_. pret Continue)))"

definition start_session :: "(int \<Rightarrow> string) \<Rightarrow> host \<Rightarrow> launcher_args \<Rightarrow> (unit, launcher) py" where
  "start_session str H A =
     pbind (pbind (start_obs H (la_obs_exe A)) (\<lambda>(p, st). pmod (\<lambda>s. s\<lparr>obs_proc := p, started_obs := st\<rparr>))) (\<lambda>_.
     pbind (open_projector H (la_source_name A) (la_projector_geometry A) (la_startup_timeout A)) (\<lambda>_.
     pbind (launcher_log H ''Starting xinput2serial.'') (\<lambda>_.
     pbind (popen H Xinput (xinput_cmd str A)) (\<lambda>_. pmod (\<lambda>s. s\<lparr>xinput_proc := True\<rparr>)))))"

definition watch_session :: "host \<Rightarrow> launcher_args \<Rightarrow> (int, launcher) py" where
  "watch_session H A =
     pbind (deadline_after H (la_startup_timeout A)) (\<lambda>deadline.
     pbind (ploop (startup_turn H (la_projector_title A) deadline)) (\<lambda>_.
     pbind (launcher_log H ''Projector detected; monitoring until it closes.'') (\<lambda>_.
     pbind (ploop (monitor_turn H (la_projector_title A))) (\<lambda>_.
     pbind (launcher_log H ''Projector closed.'') (\<lambda>_.
     pret 0)))))"

definition clean_up :: "host \<Rightarrow> launcher_args \<Rightarrow> (unit, launcher) py" where
  "clean_up H A =
     pbind (stop_process H) (\<lambda>_.
     pbind (pget started_obs) (\<lambda>st.
     pbind (pwhen (st \<or> la_close_existing_obs A) (stop_obs H)) (\<lambda>_.
     launcher_log H ''Launcher finished.'')))"

definition launcher_main :: "(int \<Rightarrow> string) \<Rightarrow> host \<Rightarrow> launcher_args \<Rightarrow> (int, launcher) py" where
  "launcher_main str H A =
     (if \<not> log_dir_made H then praise OSError else
      pfinally
        (pcatch is_Exception
          (pbind (start_session str H A) (\<lambda>_. watch_session H A))
          (pbind (launcher_log H ''ERROR'') (\<lambda>_. pret 1)))
        (clean_up H A))"


section \<open>What the launcher starts it stops\<close>

definition was_started :: "proc \<Rightarrow> launcher \<Rightarrow> bool" where
  "was_started p s \<longleftrightarrow> (\<exists>cmd. Popen p cmd \<in> set (acts s))"

fun stops :: "act \<Rightarrow> bool" where
  "stops (Terminate p) = True"
| "stops (Kill p) = True"
| "stops (Post_close h) = True"
| "stops (Close_windows pid) = True"
| "stops _ = False"

definition tracked :: "launcher \<Rightarrow> bool" where
  "tracked s \<longleftrightarrow>
     was_started Xinput s = xinput_proc s \<and> was_started Obs s = obs_proc s \<and> started_obs s = obs_proc s \<and>
     (\<forall>a \<in> set (acts s). \<not> stops a)"

lemma pbind_look [simp, py_simps]: "pbind (look f) g s = g (f (accesses s)) (s\<lparr>accesses := accesses s + 1\<rparr>)"
  by (simp add: pbind_def look_def)

lemma pbind_perform [simp, py_simps]: "pbind (perform a) g s = g () (s\<lparr>acts := acts s @ [a]\<rparr>)"
  by (simp add: perform_def)

lemma perform_app [simp, py_simps]: "perform a s = Some (Inr (), s\<lparr>acts := acts s @ [a]\<rparr>)"
  by (simp add: perform_def)

lemma tracked_accesses [simp]: "tracked (s\<lparr>accesses := n\<rparr>) = tracked s"
  by (simp add: tracked_def was_started_def)

lemma tracked_look [keeps_intros]: "keeps tracked (look f)"
  by (rule keepsI) (auto simp: look_def)

lemma tracked_perform: "\<not> stops a \<Longrightarrow> (\<And>p cmd. a \<noteq> Popen p cmd) \<Longrightarrow> keeps tracked (perform a)"
  unfolding perform_def by (rule keeps_pmod) (auto simp: tracked_def was_started_def)

lemma tracked_ops [keeps_intros]:
  "keeps tracked (launcher_log H msg)" "keeps tracked (launcher_sleep H)" "keeps tracked (process_running H i)"
  "keeps tracked (window_exists H t)" "keeps tracked (await_obs H)" "keeps tracked (deadline_after H n)"
  "keeps tracked (poll H p)"
  unfolding launcher_log_def launcher_sleep_def process_running_def window_exists_def await_obs_def deadline_after_def poll_def
  by (auto intro!: keeps_intros tracked_perform split: option.split pyfloat.split)

lemma tracked_start_xinput: "keeps tracked (pbind (popen H Xinput cmd) (\<lambda>_. pmod (\<lambda>s. s\<lparr>xinput_proc := True\<rparr>)))"
  by (rule keepsI) (auto simp: popen_def pbind_eq look_def tracked_def was_started_def split: option.splits)

lemma process_running_app:
  "process_running H i s =
     Some (case tasklist H (accesses s) of Inl e \<Rightarrow> Inl e | Inr out \<Rightarrow> Inr (contains (lower i) (lower out)),
           s\<lparr>accesses := accesses s + 1\<rparr>)"
  by (simp add: process_running_def pbind_def look_def split: sum.split)

lemma launcher_log_app:
  "launcher_log H msg s =
     (if log_opens H (accesses s) then Some (Inr (), s\<lparr>accesses := accesses s + 1, acts := acts s @ [Log msg]\<rparr>)
      else Some (Inl OSError, s\<lparr>accesses := accesses s + 1\<rparr>))"
  by (simp add: launcher_log_def)

lemma popen_app:
  "popen H p cmd s =
     (case popen_result H (accesses s) of
        None \<Rightarrow> Some (Inr (), s\<lparr>accesses := accesses s + 1, acts := acts s @ [Popen p cmd]\<rparr>)
      | Some e \<Rightarrow> Some (Inl e, s\<lparr>accesses := accesses s + 1\<rparr>))"
  by (simp add: popen_def split: option.split)

lemma start_obs_cases:
  assumes "start_obs H exe s = Some (r, t)"
  shows "obs_proc t = obs_proc s \<and> started_obs t = started_obs s \<and> xinput_proc t = xinput_proc s \<and>
    (r = Inr (True, True) \<and> (\<exists>m cmd. acts t = acts s @ [Log m, Popen Obs cmd]) \<or>
     (r = Inr (False, False) \<or> (\<exists>e. r = Inl e)) \<and> (acts t = acts s \<or> (\<exists>m. acts t = acts s @ [Log m])))"
proof (cases "tasklist H (accesses s)")
  case (Inl e)
  with assms show ?thesis by (auto simp: start_obs_def process_running_app pbind_def)
next
  case (Inr out)
  let ?obs = "contains (lower ''obs64.exe'') (lower out)" and ?s = "s\<lparr>accesses := accesses s + 1\<rparr>"
  have run: "start_obs H exe s =
    (if ?obs then pbind (launcher_log H ''OBS is already running; leaving it open during cleanup.'') (\<lambda>_. pret (False, False)) ?s
     else if \<not> obs_exe_exists H then Some (Inl OSError, ?s)
     else pbind (launcher_log H ''Starting OBS.'') (\<lambda>_.
       pbind (popen H Obs [exe, ''--disable-shutdown-check'']) (\<lambda>_. pret (True, True))) ?s)"
    unfolding start_obs_def by (simp add: process_running_app pbind_Inr Inr)
  show ?thesis
    using assms unfolding run
    by (auto simp: launcher_log_app popen_app pbind_def split: if_split_asm option.split_asm)
qed

lemma tracked_start_obs:
  assumes "tracked s" "\<not> obs_proc s"
    and "pbind (start_obs H exe) (\<lambda>(p, st). pmod (\<lambda>s. s\<lparr>obs_proc := p, started_obs := st\<rparr>)) s = Some (r, t)"
  shows "tracked t"
proof -
  from assms(3) obtain q u where q: "start_obs H exe s = Some (q, u)" by (auto simp: pbind_eq)
  note c = start_obs_cases [OF q]
  have pre: "was_started Xinput s = xinput_proc s" "\<not> was_started Obs s" "\<forall>a \<in> set (acts s). \<not> stops a" "\<not> started_obs s"
    using assms(1,2) by (simp_all add: tracked_def)
  from c consider (yes) m cmd where "q = Inr (True, True)" "acts u = acts s @ [Log m, Popen Obs cmd]"
    | (no) "q = Inr (False, False)" "acts u = acts s \<or> (\<exists>m. acts u = acts s @ [Log m])"
    | (error) e where "q = Inl e" "acts u = acts s \<or> (\<exists>m. acts u = acts s @ [Log m])" by blast
  then show ?thesis
  proof cases
    case yes
    then have "t = u\<lparr>obs_proc := True, started_obs := True\<rparr>" using assms(3) q by (simp add: pbind_Inr)
    with yes c pre show ?thesis by (simp add: tracked_def was_started_def)
  next
    case no
    then have "t = u\<lparr>obs_proc := False, started_obs := False\<rparr>" using assms(3) q by (simp add: pbind_Inr)
    with no(2) c pre show ?thesis by (auto simp: tracked_def was_started_def)
  next
    case error
    then have "t = u" using assms(3) q by (simp add: pbind_Inl)
    with error(2) c pre assms(2) show ?thesis by (auto simp: tracked_def was_started_def)
  qed
qed

lemma tracked_open_projector [keeps_intros]: "keeps tracked (open_projector H src geo n)"
  unfolding open_projector_def connect_turn_def by (auto intro!: keeps_intros tracked_perform)

lemma tracked_start_session:
  assumes "start_session str H A launcher_init = Some (r, t)"
  shows "tracked t"
proof -
  let ?rest = "\<lambda>_. pbind (open_projector H (la_source_name A) (la_projector_geometry A) (la_startup_timeout A)) (\<lambda>_.
     pbind (launcher_log H ''Starting xinput2serial.'') (\<lambda>_.
     pbind (popen H Xinput (xinput_cmd str A)) (\<lambda>_. pmod (\<lambda>s. s\<lparr>xinput_proc := True\<rparr>))))"
  have k: "keeps tracked (?rest x)" for x by (intro keeps_intros tracked_start_xinput)
  have "tracked launcher_init" "\<not> obs_proc launcher_init" by (simp_all add: tracked_def was_started_def launcher_init_def)
  note first = tracked_start_obs [OF this]
  from assms show ?thesis unfolding start_session_def
    by (subst (asm) pbind_eq) (blast intro: first keepsD [OF k])
qed

lemma tracked_watch_session: "keeps tracked (watch_session H A)"
  unfolding watch_session_def startup_turn_def monitor_turn_def by (auto intro!: keeps_intros)

lemma tracked_main_body:
  assumes "pcatch is_Exception (pbind (start_session str H A) (\<lambda>_. watch_session H A))
     (pbind (launcher_log H ''ERROR'') (\<lambda>_. pret 1)) launcher_init = Some (r, t)"
  shows "tracked t"
proof -
  have b: "tracked u" if "pbind (start_session str H A) (\<lambda>_. watch_session H A) launcher_init = Some (q, u)" for q u
    using that unfolding pbind_eq by (blast intro: tracked_start_session keepsD [OF tracked_watch_session])
  have h: "keeps tracked (pbind (launcher_log H ''ERROR'') (\<lambda>_. pret (1 :: int)))" by (intro keeps_intros)
  from assms obtain q u where q: "pbind (start_session str H A) (\<lambda>_. watch_session H A) launcher_init = Some (q, u)"
    by (auto simp: pcatch_def split: option.splits)
  with assms b [OF q] show ?thesis
    by (cases q) (auto simp: pcatch_def dest: keepsD [OF h] split: if_splits)
qed

text \<open>The cleanup, when the log can be written.\<close>

lemma pbind_poll:
  "pbind (poll H p) g s =
     (case polled H p (accesses s) of
        None \<Rightarrow> g None (s\<lparr>accesses := accesses s + 1\<rparr>)
      | Some c \<Rightarrow> g (Some c) (s\<lparr>accesses := accesses s + 1, acts := acts s @ [Exited p c]\<rparr>))"
  by (simp add: poll_def pbind_assoc split: option.split)

lemma pbind_log:
  "(\<And>n. log_opens H n) \<Longrightarrow>
   pbind (launcher_log H msg) g s = g () (s\<lparr>accesses := accesses s + 1, acts := acts s @ [Log msg]\<rparr>)"
  by (simp add: launcher_log_def pbind_assoc)

definition handled :: "proc \<Rightarrow> act \<Rightarrow> launcher \<Rightarrow> bool" where
  "handled p a s \<longleftrightarrow> a \<in> set (acts s) \<or> (\<exists>c. Exited p c \<in> set (acts s))"

definition leaves_obs :: "launcher \<Rightarrow> bool" where
  "leaves_obs s \<longleftrightarrow> (\<forall>a \<in> set (acts s). stops a \<longrightarrow> a = Terminate Xinput \<or> a = Kill Xinput)"

definition bridge_stopped :: "launcher \<Rightarrow> bool" where
  "bridge_stopped s \<longleftrightarrow>
     (was_started Xinput s \<longrightarrow> handled Xinput (Terminate Xinput) s) \<and>
     was_started Obs s = obs_proc s \<and> started_obs s = obs_proc s \<and> leaves_obs s"

definition all_stopped :: "host \<Rightarrow> launcher \<Rightarrow> bool" where
  "all_stopped H s \<longleftrightarrow>
     (was_started Xinput s \<longrightarrow> handled Xinput (Terminate Xinput) s) \<and>
     (was_started Obs s \<longrightarrow> handled Obs (Close_windows (obs_pid H)) s) \<and> (\<not> was_started Obs s \<longrightarrow> leaves_obs s)"

lemmas stopped_simps = tracked_def bridge_stopped_def all_stopped_def was_started_def handled_def leaves_obs_def

lemma stop_process_yields:
  assumes "\<And>n. log_opens H n"
  shows "yields tracked (stop_process H) (\<lambda>_. bridge_stopped)"
proof (rule yieldsI)
  fix s assume "tracked s"
  then show "\<exists>x t. stop_process H s = Some (Inr x, t) \<and> bridge_stopped t"
    by (cases "xinput_proc s"; cases "polled H Xinput (accesses s)"; cases "wait_ends H Xinput (accesses s + 2)")
      (auto simp: stop_process_def pbind_poll pbind_log [OF assms] stopped_simps)
qed



text \<open>Posting to windows only adds to the trace.\<close>

definition post_close :: "int \<Rightarrow> window \<Rightarrow> (unit, launcher) py" where
  "post_close pid w = pwhen (win_pid w = pid) (perform (Post_close (win_handle w)))"

lemma post_close_ends:
  "\<exists>as. pfor ws (post_close pid) s = Some (Inr (), s\<lparr>acts := acts s @ as\<rparr>) \<and> set as \<subseteq> range Post_close"
proof (induction ws arbitrary: s)
  case Nil
  show ?case by (rule exI [of _ "[]"]) simp
next
  case (Cons w ws)
  let ?a = "if win_pid w = pid then [Post_close (win_handle w)] else []"
  from Cons [of "s\<lparr>acts := acts s @ ?a\<rparr>"] obtain as
    where "pfor ws (post_close pid) (s\<lparr>acts := acts s @ ?a\<rparr>) = Some (Inr (), s\<lparr>acts := acts s @ ?a @ as\<rparr>)"
      "set as \<subseteq> range Post_close" by auto
  moreover have "post_close pid w s = Some (Inr (), s\<lparr>acts := acts s @ ?a\<rparr>)" by (simp add: post_close_def pwhen_def)
  ultimately have "pfor (w # ws) (post_close pid) s = Some (Inr (), s\<lparr>acts := acts s @ ?a @ as\<rparr>)"
    "set (?a @ as) \<subseteq> range Post_close"
    by (auto simp: pbind_Inr)
  then show ?case by blast
qed

lemma close_windows_ends:
  obtains n as where "close_windows_for_pid H pid s =
      Some (Inr (), s\<lparr>accesses := n, acts := acts s @ Close_windows pid # as\<rparr>)" "set as \<subseteq> range Post_close"
proof -
  let ?s = "s\<lparr>acts := acts s @ [Close_windows pid], accesses := accesses s + 1\<rparr>"
  from post_close_ends [of "windows H (accesses s)" pid ?s] obtain as
    where "pfor (windows H (accesses s)) (post_close pid) ?s = Some (Inr (), ?s\<lparr>acts := acts ?s @ as\<rparr>)" "set as \<subseteq> range Post_close"
    by blast
  moreover have "close_windows_for_pid H pid s = pfor (windows H (accesses s)) (post_close pid) ?s"
    by (simp add: close_windows_for_pid_def flip: post_close_def)
  ultimately show thesis using that by simp
qed


lemma stop_obs_yields:
  assumes "\<And>n. log_opens H n"
  shows "yields bridge_stopped (stop_obs H) (\<lambda>_. all_stopped H)"
proof (rule yieldsI)
  fix s assume s: "bridge_stopped s"
  consider "\<not> obs_proc s" | c where "obs_proc s" "polled H Obs (accesses s) = Some c" | "obs_proc s" "polled H Obs (accesses s) = None"
    by fastforce
  then show "\<exists>x t. stop_obs H s = Some (Inr x, t) \<and> all_stopped H t"
  proof cases
    case 1
    with s show ?thesis by (simp add: stop_obs_def stopped_simps)
  next
    case 2
    with s show ?thesis by (auto simp: stop_obs_def pbind_poll stopped_simps)
  next
    case 3
    let ?s = "s\<lparr>accesses := accesses s + 1 + 1, acts := acts s @ [Log ''Closing OBS.'']\<rparr>"
    obtain n as where c: "close_windows_for_pid H (obs_pid H) ?s =
        Some (Inr (), ?s\<lparr>accesses := n, acts := acts ?s @ Close_windows (obs_pid H) # as\<rparr>)" "set as \<subseteq> range Post_close"
      by (rule close_windows_ends)
    from c(2) have as: "Popen p cmd \<notin> set as" for p cmd by auto
    have "pbind (close_windows_for_pid H (obs_pid H)) g ?s = g () (?s\<lparr>accesses := n, acts := acts ?s @ Close_windows (obs_pid H) # as\<rparr>)"
      for g :: "unit \<Rightarrow> (unit, launcher) py" by (simp only: pbind_def c(1)) simp
    then have "\<exists>x t. stop_obs H s = Some (Inr x, t) \<and>
      (\<exists>bs. acts t = acts ?s @ Close_windows (obs_pid H) # as @ bs \<and> (\<forall>p cmd. Popen p cmd \<notin> set bs))"
      using 3 by (auto simp: stop_obs_def pbind_poll pbind_log [OF assms])
    then show ?thesis using s as 3(1) by (fastforce simp: stopped_simps)
  qed
qed

lemma clean_up_yields:
  assumes "\<And>n. log_opens H n"
  shows "yields tracked (clean_up H A) (\<lambda>_. all_stopped H)"
proof -
  have l: "yields (all_stopped H) (launcher_log H m) (\<lambda>_. all_stopped H)" for m
    by (rule yieldsI) (use assms in \<open>auto simp: launcher_log_app stopped_simps\<close>)
  have "yields bridge_stopped (pbind (pget started_obs) (\<lambda>st. pwhen (st \<or> la_close_existing_obs A) (stop_obs H))) (\<lambda>_. all_stopped H)"
  proof (rule yieldsI)
    fix s assume s: "bridge_stopped s"
    show "\<exists>x t. pbind (pget started_obs) (\<lambda>st. pwhen (st \<or> la_close_existing_obs A) (stop_obs H)) s = Some (Inr x, t) \<and> all_stopped H t"
    proof (cases "started_obs s \<or> la_close_existing_obs A")
      case True
      with yieldsE [OF stop_obs_yields [OF assms] s] show ?thesis by (simp add: pwhen_def) blast
    next
      case False
      with s show ?thesis by (simp add: pwhen_def stopped_simps)
    qed
  qed
  from yields_pbind [OF stop_process_yields [OF assms] yields_pbind [OF this l]]
  show ?thesis unfolding clean_up_def by (simp only: pbind_assoc)
qed



definition example_launcher_args :: launcher_args where
  "example_launcher_args =
     \<lparr>la_obs_exe = ''obs64.exe'', la_python = ''python.exe'', la_xinput_script = ''xinput2serial.py'',
      la_projector_title = ''Projector'', la_source_name = ''Scene'', la_projector_geometry = [], la_startup_timeout = 30,
      la_keyboard = False, la_debug = False, la_port = None, la_controller = None, la_close_existing_obs = False\<rparr>"

text \<open>A host whose clock stands still, on which the projector is open at accesses 14 to 16.\<close>

definition example_host :: host where
  "example_host =
     \<lparr>tasklist = (\<lambda>_. Inr []), windows = (\<lambda>n. if n = 14 \<or> n = 16 then [\<lparr>win_visible = True, win_title = ''My Projector'', win_pid = 1, win_handle = 2\<rparr>] else []),
      obs_exe_exists = True, popen_result = (\<lambda>_. None), polled = (\<lambda>_ _. None), wait_ends = (\<lambda>_ _. True),
      time_monotonic = (\<lambda>_. Fin 0), has_simpleobsws = True, websocket = (\<lambda>_. None), log_opens = (\<lambda>_. True),
      log_dir_made = True, sleep_interrupted = (\<lambda>_. False), obs_pid = 5\<rparr>"

section \<open>The result of a session\<close>

lemma window_exists_app:
  "window_exists H title s =
     Some (Inr (enum_windows (lower title) (windows H (accesses s))), s\<lparr>accesses := accesses s + 1\<rparr>)"
  by (simp add: window_exists_def look_def)

lemma launcher_sleep_app:
  "launcher_sleep H s =
     Some (if sleep_interrupted H (accesses s) then Inl KeyboardInterrupt else Inr (), s\<lparr>accesses := accesses s + 1\<rparr>)"
  by (simp add: launcher_sleep_def)

lemma poll_app:
  "poll H p s =
     Some (Inr (polled H p (accesses s)),
       case polled H p (accesses s) of
         None \<Rightarrow> s\<lparr>accesses := accesses s + 1\<rparr>
       | Some c \<Rightarrow> s\<lparr>accesses := accesses s + 1, acts := acts s @ [Exited p c]\<rparr>)"
  by (simp add: poll_def split: option.split)

lemma startup_turn_break:
  assumes "startup_turn H title d s = Some (Inr l, t)"
  shows "accesses s \<le> accesses t \<and>
    (l = Break () \<longrightarrow> (\<exists>n \<ge> accesses s. n < accesses t \<and> enum_windows (lower title) (windows H n)))"
  using assms
  by (auto simp: startup_turn_def pbind_def look_def window_exists_app launcher_sleep_app poll_app
      split: if_split_asm option.split_asm intro!: exI [of _ "Suc (accesses s)"])

lemma monitor_turn_break:
  assumes "monitor_turn H title s = Some (Inr l, t)"
  shows "accesses s \<le> accesses t \<and>
    (l = Break () \<longrightarrow> (\<exists>n \<ge> accesses s. n < accesses t \<and> \<not> enum_windows (lower title) (windows H n)))"
  using assms
  by (auto simp: monitor_turn_def pbind_def window_exists_app launcher_sleep_app poll_app
      split: if_split_asm option.split_asm)

text \<open>A loop that ends with something its last turn has seen.\<close>

lemma ploop_sees:
  assumes "ploop body s = Some (Inr (), t)"
    and turn: "\<And>s l t. body s = Some (Inr l, t) \<Longrightarrow>
      accesses s \<le> accesses t \<and> (l = Break () \<longrightarrow> (\<exists>n \<ge> accesses s. n < accesses t \<and> seen n))"
  shows "\<exists>n \<ge> accesses s. n < accesses t \<and> seen n"
proof -
  have "(case Inr () of Inr _ \<Rightarrow> \<exists>n \<ge> accesses s. n < accesses t \<and> seen n | Inl (_ :: pyexc) \<Rightarrow> True)"
    using assms(1)
  proof (rule ploop_rule [where P = "\<lambda>u. accesses s \<le> accesses u" and
        Q = "\<lambda>r u. case r of Inr _ \<Rightarrow> \<exists>n \<ge> accesses s. n < accesses u \<and> seen n | Inl _ \<Rightarrow> True"])
    fix u v assume "accesses s \<le> accesses u" "body u = Some (Inr Continue, v)"
    with turn show "accesses s \<le> accesses v" by fastforce
  next
    fix u x v assume u: "accesses s \<le> accesses u" and run: "body u = Some (Inr (Break x), v)"
    from turn [OF run] obtain n where "accesses u \<le> n" "n < accesses v" "seen n" by auto
    with u show "case Inr x of Inr _ \<Rightarrow> \<exists>n \<ge> accesses s. n < accesses v \<and> seen n | Inl _ \<Rightarrow> True"
      using order_trans by auto
  qed simp_all
  then show ?thesis by simp
qed

lemma startup_sees:
  assumes "ploop (startup_turn H title d) s = Some (Inr (), t)"
  shows "\<exists>n \<ge> accesses s. n < accesses t \<and> enum_windows (lower title) (windows H n)"
  using assms by (rule ploop_sees) (rule startup_turn_break)

lemma monitor_sees:
  assumes "ploop (monitor_turn H title) s = Some (Inr (), t)"
  shows "\<exists>n \<ge> accesses s. n < accesses t \<and> \<not> enum_windows (lower title) (windows H n)"
  using assms by (rule ploop_sees) (rule monitor_turn_break)

text \<open>
  The launcher returns 0 only after a session: the projector window was there, and later
  it was gone. Otherwise it returns 1 or ends with an exception.
\<close>

theorem launcher_success:
  assumes "launcher_main str H A launcher_init = Some (Inr code, s)"
  shows "code = 1 \<or> code = 0 \<and>
    (\<exists>n m. n < m \<and> enum_windows (lower (la_projector_title A)) (windows H n) \<and>
       \<not> enum_windows (lower (la_projector_title A)) (windows H m))"
proof -
  let ?seen = "\<lambda>n. enum_windows (lower (la_projector_title A)) (windows H n)"
  have watch: "c = 0 \<and> (\<exists>n m. n < m \<and> ?seen n \<and> \<not> ?seen m)" if run: "watch_session H A u = Some (Inr c, v)" for u v c
  proof -
    from run obtain d u1 u2 u3 u4 where c: "c = 0" and
      1: "ploop (startup_turn H (la_projector_title A) d) u1 = Some (Inr (), u2)" and
      2: "launcher_log H ''Projector detected; monitoring until it closes.'' u2 = Some (Inr (), u3)" and
      3: "ploop (monitor_turn H (la_projector_title A)) u3 = Some (Inr (), u4)"
      unfolding watch_session_def pbind_eq by auto
    from 2 have "accesses u2 \<le> accesses u3" by (auto simp: launcher_log_app split: if_splits)
    moreover from 1 obtain n where "n < accesses u2" "?seen n" using startup_sees [OF 1] by blast
    moreover from 3 obtain m where "accesses u3 \<le> m" "\<not> ?seen m" using monitor_sees [OF 3] by blast
    ultimately have "n < m \<and> ?seen n \<and> \<not> ?seen m" by simp
    with c show ?thesis by blast
  qed
  let ?main = "pcatch is_Exception (pbind (start_session str H A) (\<lambda>_. watch_session H A)) (pbind (launcher_log H ''ERROR'') (\<lambda>_. pret 1))"
  from assms obtain u where u: "?main launcher_init = Some (Inr code, u)"
    unfolding launcher_main_def by (auto simp: pfinally_eq split: if_splits)
  then obtain q v where q: "pbind (start_session str H A) (\<lambda>_. watch_session H A) launcher_init = Some (q, v)"
    by (auto simp: pcatch_def split: option.splits)
  show ?thesis
  proof (cases q)
    case (Inl e)
    with u q have "code = 1" by (auto simp: pcatch_def launcher_log_app pbind_def split: if_splits)
    then show ?thesis ..
  next
    case (Inr c)
    with u q have "code = c" by (simp add: pcatch_def)
    with q Inr watch show ?thesis by (auto simp: pbind_eq)
  qed
qed


lemma ploop_turn:
  "body s = Some (Inr (Break x), t) \<Longrightarrow> ploop body s = Some (Inr x, t)"
  "body s = Some (Inr Continue, t) \<Longrightarrow> ploop body s = ploop body t"
  by (simp_all add: ploop.simps [of body s])

lemmas launcher_ops = launcher_log_app process_running_app popen_app poll_app window_exists_app launcher_sleep_app


theorem launcher_success_witness:
  "\<exists>s. launcher_main (\<lambda>_. []) example_host example_launcher_args launcher_init = Some (Inr 0, s) \<and>
     (\<exists>n m. n < m \<and> enum_windows ''projector'' (windows example_host n) \<and> \<not> enum_windows ''projector'' (windows example_host m))"
proof -
  have f: "pyround 30 = Fin 30" using fl_exact_int [of 30] by (simp add: pyround_small)
  have c: "\<not> contains (lower ''obs64.exe'') (lower [])" "contains ''projector'' (lower ''My Projector'')"
    "lower ''Projector'' = ''projector''"
    by code_simp+
  have "\<exists>s. launcher_main (\<lambda>_. []) example_host example_launcher_args launcher_init = Some (Inr 0, s)"
    by (simp add: f c launcher_main_def start_session_def start_obs_def open_projector_def clean_up_def stop_process_def stop_obs_def
        deadline_after_def await_obs_def connect_turn_def startup_turn_def monitor_turn_def watch_session_def ploop_turn
        close_windows_for_pid_def pfinally_def pcatch_def pbind_def pwhen_def launcher_ops look_def is_Exception_def
        example_host_def example_launcher_args_def launcher_init_def)
  then obtain s where s: "launcher_main (\<lambda>_. []) example_host example_launcher_args launcher_init = Some (Inr 0, s)" by blast
  from launcher_success [OF s] c(3) have "\<exists>n m. n < m \<and> enum_windows ''projector'' (windows example_host n) \<and> \<not> enum_windows ''projector'' (windows example_host m)"
    by (simp add: example_launcher_args_def)
  with s show ?thesis by blast
qed


section \<open>The launcher does not wait forever for the projector\<close>

text \<open>A computation that comes to an end within \<open>k\<close> accesses, with a result or an \<open>Exception\<close>.\<close>

definition ends_within :: "nat \<Rightarrow> ('a, launcher) py \<Rightarrow> launcher \<Rightarrow> bool" where
  "ends_within k m s \<longleftrightarrow>
     (\<exists>r t. m s = Some (r, t) \<and> accesses s \<le> accesses t \<and> accesses t \<le> accesses s + k \<and> (\<forall>e. r = Inl e \<longrightarrow> is_Exception e))"

lemma ends_within_pbind:
  assumes "ends_within j m s" "\<And>x t. m s = Some (Inr x, t) \<Longrightarrow> accesses s \<le> accesses t \<Longrightarrow> accesses t \<le> accesses s + j \<Longrightarrow> ends_within k (f x) t"
  shows "ends_within (j + k) (pbind m f) s"
proof -
  from assms(1) obtain r t where m: "m s = Some (r, t)" "accesses s \<le> accesses t" "accesses t \<le> accesses s + j" "\<forall>e. r = Inl e \<longrightarrow> is_Exception e"
    unfolding ends_within_def by blast
  show ?thesis
  proof (cases r)
    case (Inl e)
    with m show ?thesis unfolding ends_within_def by (auto simp: pbind_Inl)
  next
    case (Inr x)
    with m assms(2) [of x t] have "ends_within k (f x) t" by simp
    then obtain r' t' where "f x t = Some (r', t')" "accesses t \<le> accesses t'" "accesses t' \<le> accesses t + k" "\<forall>e. r' = Inl e \<longrightarrow> is_Exception e"
      unfolding ends_within_def by blast
    with m Inr show ?thesis unfolding ends_within_def by (intro exI [of _ r'] exI [of _ t']) (simp add: pbind_Inr)
  qed
qed

lemma ends_within_more: "ends_within j m s \<Longrightarrow> j \<le> k \<Longrightarrow> ends_within k m s"
  unfolding ends_within_def by (meson add_left_mono order_trans)

text \<open>A loop whose turns take time, and which goes on only before access \<open>D\<close>.\<close>

lemma ploop_ends_within:
  assumes turn: "\<And>s. ends_within k (body :: ('r loop, launcher) py) s"
    and time: "\<And>s t. body s = Some (Inr Continue, t) \<Longrightarrow> accesses s < accesses t \<and> accesses s < D"
  shows "ends_within (if accesses s < D then D - accesses s + 2 * k else k) (ploop body) s"
proof (induction "D - accesses s" arbitrary: s rule: less_induct)
  case less
  from turn [of s] obtain r t where b: "body s = Some (r, t)" "accesses s \<le> accesses t" "accesses t \<le> accesses s + k" "\<forall>e. r = Inl e \<longrightarrow> is_Exception e"
    unfolding ends_within_def by blast
  consider e where "r = Inl e" | x where "r = Inr (Break x)" | "r = Inr Continue" by (metis loop.exhaust sum.exhaust)
  then show ?case
  proof cases
    case 1
    with b show ?thesis unfolding ends_within_def by (simp add: ploop.simps [of _ s])
  next
    case 2
    with b show ?thesis unfolding ends_within_def by (simp add: ploop.simps [of _ s])
  next
    case 3
    with b time have t: "accesses s < accesses t" "accesses s < D" by blast+
    then have "D - accesses t < D - accesses s" by simp
    from less [OF this] obtain r' t' where l: "ploop body t = Some (r', t')" "accesses t \<le> accesses t'"
      "accesses t' \<le> accesses t + (if accesses t < D then D - accesses t + 2 * k else k)" "\<forall>e. r' = Inl e \<longrightarrow> is_Exception e"
      unfolding ends_within_def by blast
    moreover have "ploop body s = Some (r', t')" using b(1) 3 l(1) by (simp add: ploop_turn)
    moreover have "accesses t' \<le> accesses s + (if accesses s < D then D - accesses s + 2 * k else k)"
      using b(3) t l(3) by (simp split: if_splits)
    ultimately show ?thesis unfolding ends_within_def using b(2) by (meson order_trans)
  qed
qed


text \<open>
  A host whose operations raise only exceptions that \<open>main\<close> catches, whose log can be written,
  and on which a deadline set in the first \<open>N + 20\<close> accesses has passed \<open>N\<close> accesses later.
\<close>

definition calm_host :: "host \<Rightarrow> bool" where
  "calm_host H \<longleftrightarrow>
     (\<forall>n. log_opens H n \<and> \<not> sleep_interrupted H n \<and> (\<forall>e. tasklist H n = Inl e \<longrightarrow> is_Exception e) \<and>
        (\<forall>e. websocket H n = Some e \<longrightarrow> is_Exception e) \<and> (\<forall>e. popen_result H n = Some e \<longrightarrow> is_Exception e))"

definition deadlines_pass :: "host \<Rightarrow> int \<Rightarrow> nat \<Rightarrow> bool" where
  "deadlines_pass H timeout N \<longleftrightarrow>
     (\<forall>m \<le> N + 20. \<forall>n \<ge> m + N. \<not> flt (time_monotonic H n) (fadd (time_monotonic H m) (pyround (of_int timeout))))"

lemma ends_within_pret: "ends_within 0 (pret x) s" "is_Exception e \<Longrightarrow> ends_within 0 (praise e) s" "ends_within 0 (pmod f) s \<longleftrightarrow> accesses (f s) = accesses s"
  by (auto simp: ends_within_def)

lemma ends_within_ops:
  assumes "calm_host H"
  shows "ends_within 1 (launcher_log H m) s" "ends_within 1 (launcher_sleep H) s" "ends_within 1 (process_running H i) s"
    "ends_within 1 (popen H p cmd) s" "ends_within 1 (poll H p) s" "ends_within 1 (window_exists H w) s"
    "ends_within 1 (await_obs H) s" "ends_within 1 (deadline_after H n) s" "ends_within 1 (look f) s" "ends_within 0 (perform a) s"
  using assms
  by (auto simp: calm_host_def ends_within_def launcher_ops await_obs_def deadline_after_def look_def is_Exception_def
      split: option.split sum.split pyfloat.split)


lemma ends_within_pcatch:
  assumes "ends_within j m s" "\<And>t. ends_within k h t"
  shows "ends_within (j + k) (pcatch c m h) s"
proof -
  from assms(1) obtain r t where m: "m s = Some (r, t)" "accesses s \<le> accesses t" "accesses t \<le> accesses s + j" "\<forall>e. r = Inl e \<longrightarrow> is_Exception e"
    unfolding ends_within_def by blast
  from assms(2) [of t] obtain r' t' where "h t = Some (r', t')" "accesses t \<le> accesses t'" "accesses t' \<le> accesses t + k" "\<forall>e. r' = Inl e \<longrightarrow> is_Exception e"
    unfolding ends_within_def by blast
  with m show ?thesis unfolding ends_within_def by (cases r) (auto simp: pcatch_def)
qed

lemma ends_within_if: "(c \<Longrightarrow> ends_within k m s) \<Longrightarrow> (\<not> c \<Longrightarrow> ends_within k m' s) \<Longrightarrow> ends_within k (if c then m else m') s"
  by simp

lemma RuntimeError_Exception [simp]: "is_Exception RuntimeError" "is_Exception OSError" by (simp_all add: is_Exception_def)

lemma turns_end:
  assumes "calm_host H"
  shows "ends_within 4 (connect_turn H d) s" "ends_within 4 (startup_turn H w d) s"
proof -
  note ops = ends_within_ops [OF assms]
  have 0: "ends_within (1 + 0) (pbind (launcher_sleep H) (\<lambda>_. pret c)) s" for s and c :: "unit loop"
    by (intro ends_within_pbind ops ends_within_pret)
  have "ends_within (1 + ((1 + (1 + 0)) + (1 + 0))) (connect_turn H d) s"
    unfolding connect_turn_def
    by (intro ends_within_pbind [OF ops(9)] ends_within_if ends_within_pcatch 0 ends_within_pbind [OF ops(7)] ends_within_pret
        ends_within_more [OF ends_within_pret(2)]) simp_all
  then show "ends_within 4 (connect_turn H d) s" by (rule ends_within_more) simp
  have "ends_within (1 + (1 + (1 + (1 + 0)))) (startup_turn H w d) s"
    unfolding startup_turn_def
    by (intro ends_within_pbind [OF ops(9)] ends_within_pbind [OF ops(6)] ends_within_pbind [OF ops(5)] ends_within_if 0
        ends_within_more [OF ends_within_pret(1)] ends_within_more [OF ends_within_pret(2)]) simp_all
  then show "ends_within 4 (startup_turn H w d) s" by (rule ends_within_more) simp
qed

lemma turns_take_time:
  "connect_turn H d s = Some (Inr Continue, t) \<Longrightarrow> accesses s < accesses t \<and> flt (time_monotonic H (accesses s)) d"
  "startup_turn H w d s = Some (Inr Continue, t) \<Longrightarrow> accesses s < accesses t \<and> flt (time_monotonic H (accesses s)) d"
  by (auto simp: connect_turn_def startup_turn_def pcatch_def pbind_def look_def await_obs_def launcher_ops
      split: if_split_asm option.split_asm)

text \<open>
  The contract of a turn of a waiting loop: it ends, and it lets the loop go on only while
  the clock is before the deadline. A loop of such turns, with a deadline just set, ends.
\<close>

locale waiting_loop =
  fixes turn :: "host \<Rightarrow> pyfloat \<Rightarrow> (unit loop, launcher) py"
  assumes turn_ends: "calm_host H \<Longrightarrow> ends_within 4 (turn H d) s"
    and turn_time: "turn H d s = Some (Inr Continue, t) \<Longrightarrow> accesses s < accesses t \<and> flt (time_monotonic H (accesses s)) d"
begin

lemma loop_ends:
  assumes "calm_host H" "deadlines_pass H timeout N" "accesses s \<le> N + 20"
  shows "ends_within (N + 9) (pbind (deadline_after H timeout) (\<lambda>d. ploop (turn H d))) s"
proof -
  have d: "deadline_after H timeout s = Some (Inr d, t) \<Longrightarrow>
      d = fadd (time_monotonic H (accesses s)) (pyround (of_int timeout)) \<and> accesses t = accesses s + 1" for d t
    by (auto simp: deadline_after_def split: pyfloat.splits)
  have "ends_within (1 + (N + 8)) (pbind (deadline_after H timeout) (\<lambda>d. ploop (turn H d))) s"
  proof (rule ends_within_pbind [OF ends_within_ops(8) [OF assms(1)]])
    fix d t assume dt: "deadline_after H timeout s = Some (Inr d, t)"
    have "accesses u < accesses t' \<and> accesses u < accesses s + N" if "turn H d u = Some (Inr Continue, t')" for u t'
      using turn_time [OF that] assms(2,3) d [OF dt] unfolding deadlines_pass_def by (metis not_le)
    from ploop_ends_within [OF turn_ends [OF assms(1)] this, of d t] d [OF dt] show "ends_within (N + 8) (ploop (turn H d)) t"
      by (auto elim: ends_within_more split: if_splits)
  qed
  then show ?thesis by (simp add: add.commute)
qed

end

interpretation connecting: waiting_loop connect_turn
  by unfold_locales (simp_all add: turns_end turns_take_time)

interpretation appearing: waiting_loop "\<lambda>H. startup_turn H title" for title
  by unfold_locales (simp_all add: turns_end turns_take_time)

lemma start_session_ends:
  assumes "calm_host H" "deadlines_pass H (la_startup_timeout A) N"
  shows "ends_within (N + 17) (start_session str H A) launcher_init"
proof -
  note ops = ends_within_ops [OF assms(1)]
  have obs: "ends_within (1 + (1 + (1 + 0))) (start_obs H exe) s" for exe s
    unfolding start_obs_def
    by (intro ends_within_pbind [OF ops(3)] ends_within_if ends_within_pbind [OF ops(1)] ends_within_pbind [OF ops(4)] ends_within_pret
        ends_within_more [OF ends_within_pret(1)] ends_within_more [OF ends_within_pret(2)]) simp_all
  have set: "ends_within 0 (case x of (p, st) \<Rightarrow> pmod (\<lambda>s. s\<lparr>obs_proc := p, started_obs := st\<rparr>)) s" for x s
    by (cases x) (simp add: ends_within_pret)
  have proj: "ends_within ((N + 9) + (0 + (1 + (1 + 1)))) (open_projector H src geo (la_startup_timeout A)) s" if "accesses s \<le> 3" for src geo s
  proof -
    have "ends_within (N + 9) (pbind (deadline_after H (la_startup_timeout A)) (\<lambda>d. ploop (connect_turn H d))) s"
      using that by (intro connecting.loop_ends assms) simp_all
    then have "ends_within ((N + 9) + (0 + (1 + (1 + 1)))) (pbind (pbind (deadline_after H (la_startup_timeout A)) (\<lambda>d. ploop (connect_turn H d)))
        (\<lambda>_. pbind (perform (Open_projector src geo)) (\<lambda>_. pbind (await_obs H) (\<lambda>_. pbind (launcher_log H ''OpenSourceProjector result'') (\<lambda>_. await_obs H))))) s"
      by (rule ends_within_pbind) (intro ends_within_pbind [OF ops(10)] ends_within_pbind [OF ops(7)] ends_within_pbind [OF ops(1)] ops(7))
    then show ?thesis unfolding open_projector_def pbind_assoc
      using ends_within_more [OF ends_within_pret(2) [OF RuntimeError_Exception(1)]] by (intro ends_within_if) simp_all
  qed
  have "ends_within ((1 + (1 + (1 + 0)) + 0) + (((N + 9) + (0 + (1 + (1 + 1)))) + (1 + (1 + 0)))) (start_session str H A) launcher_init"
    unfolding start_session_def
    by (intro ends_within_pbind [OF ends_within_pbind [OF obs set]] ends_within_pbind [OF proj] ends_within_pbind [OF ops(1)]
        ends_within_pbind [OF ops(4)]) (simp_all add: launcher_init_def ends_within_pret)
  then show ?thesis by (rule ends_within_more) simp
qed

lemma watch_session_fails:
  assumes "calm_host H" "deadlines_pass H (la_startup_timeout A) N" "accesses s \<le> N + 20"
    and none: "\<And>n. \<not> enum_windows (lower (la_projector_title A)) (windows H n)"
  shows "\<exists>e t. watch_session H A s = Some (Inl e, t) \<and> is_Exception e"
proof -
  let ?loop = "pbind (deadline_after H (la_startup_timeout A)) (\<lambda>d. ploop (startup_turn H (la_projector_title A) d))"
  have "ends_within (N + 9) ?loop s"
    by (rule appearing.loop_ends [OF assms(1-3)])
  then obtain r t where r: "?loop s = Some (r, t)" "\<forall>e. r = Inl e \<longrightarrow> is_Exception e" unfolding ends_within_def by blast
  have "r \<noteq> Inr ()"
    using r(1) none startup_sees [of H "la_projector_title A"] unfolding pbind_eq by blast
  then obtain e where e: "r = Inl e" by (cases r) auto
  have "watch_session H A = pbind ?loop (\<lambda>_.
     pbind (launcher_log H ''Projector detected; monitoring until it closes.'') (\<lambda>_.
     pbind (ploop (monitor_turn H (la_projector_title A))) (\<lambda>_.
     pbind (launcher_log H ''Projector closed.'') (\<lambda>_. pret 0))))"
    by (simp only: watch_session_def pbind_assoc)
  then have "watch_session H A s = Some (Inl e, t)" using r(1) e by (simp only: pbind_def) simp
  with r(2) e show ?thesis by blast
qed

text \<open>
  C38. The launcher does not wait forever for the projector: if its window never appears, on a
  host whose clock runs, the launcher ends and returns 1. OBS and the bridge may have been
  started, may answer or not, and may exit at any time.
\<close>

theorem launcher_gives_up:
  assumes "calm_host H" "log_dir_made H" "deadlines_pass H (la_startup_timeout A) N"
    and none: "\<And>n. \<not> enum_windows (lower (la_projector_title A)) (windows H n)"
  shows "\<exists>s. launcher_main str H A launcher_init = Some (Inr 1, s)"
proof -
  let ?body = "pbind (start_session str H A) (\<lambda>_. watch_session H A)"
  let ?handler = "pbind (launcher_log H ''ERROR'') (\<lambda>_. pret 1)"
  have opens: "log_opens H n" for n using assms(1) by (simp add: calm_host_def)
  from start_session_ends [OF assms(1,3), of str] obtain q v where v: "start_session str H A launcher_init = Some (q, v)"
    "accesses v \<le> N + 17" "\<forall>e. q = Inl e \<longrightarrow> is_Exception e" unfolding ends_within_def by (auto simp: launcher_init_def)
  have "\<exists>e u. ?body launcher_init = Some (Inl e, u) \<and> is_Exception e"
  proof (cases q)
    case (Inl e)
    with v show ?thesis by (auto simp: pbind_Inl)
  next
    case (Inr x)
    with v watch_session_fails [OF assms(1,3) _ none, of v] show ?thesis by (auto simp: pbind_Inr)
  qed
  then obtain e u where "?body launcher_init = Some (Inl e, u)" "is_Exception e" by blast
  then obtain t where t: "pcatch is_Exception ?body ?handler launcher_init = Some (Inr 1, t)"
    using opens by (auto simp: pcatch_def pbind_log [OF opens])
  obtain x s where "clean_up H A t = Some (Inr x, s)" by (rule yieldsE [OF clean_up_yields [OF opens] tracked_main_body [OF t]])
  with t assms(2) show ?thesis by (simp add: launcher_main_def pfinally_def)
qed


theorem launcher_gives_up_witness:
  "\<exists>s. launcher_main (\<lambda>_. []) (example_host\<lparr>windows := \<lambda>_. [], time_monotonic := \<lambda>n. Fin (of_nat n)\<rparr>)
     example_launcher_args launcher_init = Some (Inr 1, s)"
proof (rule launcher_gives_up [where N = 31])
  let ?H = "example_host\<lparr>windows := \<lambda>_. [], time_monotonic := \<lambda>n. Fin (of_nat n)\<rparr>"
  show "calm_host ?H" "log_dir_made ?H" by (simp_all add: calm_host_def example_host_def)
  have 30: "pyround (of_int (la_startup_timeout example_launcher_args)) = Fin 30"
    using fl_exact_int [of 30] by (simp add: pyround_small example_launcher_args_def)
  have "pyround (of_nat m + 30) = Fin (of_nat m + 30)" if "m \<le> 51" for m
    using that fl_exact_int [of "int m + 30"] by (simp add: pyround_small)
  then show "deadlines_pass ?H (la_startup_timeout example_launcher_args) 31"
    unfolding deadlines_pass_def 30 by (auto simp: example_host_def)
qed (simp add: example_host_def)

end
