(* ===== verification/Enumeration.thy ===== *)
theory Enumeration
  imports Firmware
begin

text \<open>
  How the device answers the host during enumeration: endpoint sizes, descriptors,
  addresses, configurations, unknown requests and bus events. The statements are
  about LUFA's request handling with the descriptors and callbacks of the firmware.
\<close>

section \<open>Endpoint sizes\<close>

lemma EPSizeMask_loop_finds:
  assumes "unat Bytes \<le> 32768" "k \<le> 12"
    and "k = 0 \<or> 8 * 2 ^ (k - 1) < unat Bytes"
  shows "\<exists>m \<le> 12. EPSizeMask_loop Bytes (of_nat k) (of_nat (8 * 2 ^ k)) = Some (of_nat m) \<and>
    unat Bytes \<le> 8 * 2 ^ m \<and> (m = 0 \<or> 8 * 2 ^ (m - 1) < unat Bytes)"
  using assms(2,3)
proof (induction "12 - k" arbitrary: k)
  case 0
  then have "k = 12" by simp
  with 0 assms(1) show ?case
    by (intro exI [of _ 12]) (simp add: EPSizeMask_loop.simps word_less_nat_alt)
next
  case (Suc d)
  have "k \<le> 11" using Suc.hyps(2) by simp
  then have "(2 :: nat) ^ k \<le> 2 ^ 11" by (intro power_increasing) simp_all
  then have "(8 * 2 ^ k :: nat) < 65536" by simp
  then have u: "unat (of_nat (8 * 2 ^ k) :: u16) = 8 * 2 ^ k" by (subst unat_of_nat) simp
  show ?case
  proof (cases "8 * 2 ^ k < unat Bytes")
    case True
    with u have less: "of_nat (8 * 2 ^ k) < Bytes" by (simp add: word_less_nat_alt del: of_nat_mult of_nat_power)
    have "EPSizeMask_loop Bytes (of_nat k) (of_nat (8 * 2 ^ k)) =
        EPSizeMask_loop Bytes (of_nat (k + 1)) (of_nat (8 * 2 ^ (k + 1)))"
      using less by (subst EPSizeMask_loop.simps) (simp add: push_bit_eq_mult ac_simps)
    with Suc.hyps(1) [of "k + 1"] Suc.hyps(2) True show ?thesis by simp
  next
    case False
    with u have "\<not> of_nat (8 * 2 ^ k) < Bytes" by (simp add: word_less_nat_alt del: of_nat_mult of_nat_power)
    with False Suc.prems show ?thesis by (intro exI [of _ k]) (subst EPSizeMask_loop.simps, simp)
  qed
qed

lemma EPSizeMask_loop_endless:
  assumes "32768 < Bytes" "EPSizeMask_loop Bytes m c = Some y" "c = 0 \<or> (\<exists>k < 16. c = 2 ^ k)"
  shows False
proof -
  have "32768 < b \<longrightarrow> (c = 0 \<or> (\<exists>k < 16 :: nat. c = 2 ^ k)) \<longrightarrow> False" if "EPSizeMask_loop b m c = Some y" for b m c y
  proof (rule EPSizeMask_loop.raw_induct [OF _ that, where P = "\<lambda>b m c y. 32768 < b \<longrightarrow>
      (c = 0 \<or> (\<exists>k < 16. c = 2 ^ k)) \<longrightarrow> False"], intro impI)
    fix f and b c :: u16 and m y :: u8
    assume IH: "\<And>(b :: u16) m (c :: u16) y. f b m c = Some y \<Longrightarrow> 32768 < b \<longrightarrow> (c = 0 \<or> (\<exists>k < 16. c = 2 ^ k)) \<longrightarrow> False"
      and eq: "(if c < b then f b (m + 1) (push_bit 1 c) else Some m) = Some y"
      and b: "32768 < b" and c: "c = 0 \<or> (\<exists>k < 16. c = 2 ^ k)"
    have "c \<le> 32768"
    proof -
      have "(2 ^ k :: u16) \<le> 2 ^ 15" if "k < 16" for k :: nat
      proof -
        have "(2 :: nat) ^ k \<le> 2 ^ 15" using that by (intro power_increasing) simp_all
        moreover from this have "unat (of_nat (2 ^ k) :: u16) = 2 ^ k" by (subst unat_of_nat) simp
        ultimately show ?thesis by (simp add: word_le_nat_alt)
      qed
      with c show ?thesis by auto
    qed
    with b have "c < b" by simp
    moreover have "push_bit 1 c = 0 \<or> (\<exists>k < 16. push_bit 1 c = 2 ^ k)"
    proof -
      have p: "push_bit 1 (2 ^ k :: u16) = 2 ^ Suc k" for k by (simp add: push_bit_eq_mult)
      have z: "(2 ^ 16 :: u16) = 0" by simp
      show ?thesis
      proof (cases "c = 0")
        case False
        with c obtain k where k: "k < 16" "c = 2 ^ k" by blast
        show ?thesis
        proof (cases "k = 15")
          case True
          then have "push_bit 1 c = 0" using k(2) z p [of 15] by simp
          then show ?thesis ..
        next
          case False
          with k(1) have "Suc k < 16" by simp
          with p [of k] k(2) show ?thesis by blast
        qed
      qed simp
    qed
    ultimately show False using IH [of b "m + 1" "push_bit 1 c" y] eq b by simp
  qed
  with assms show False by blast
qed


text \<open>
  C27. Endpoint sizes. For up to 32768 bytes, the size code computed for an endpoint is that
  of the smallest bank of at least that many bytes, starting from 8. For more bytes the
  16-bit comparison value wraps to zero and the function never returns.
\<close>

theorem BytesToEPSizeMask_minimal:
  "(Bytes \<le> 32768 \<longrightarrow> (\<exists>m \<le> 12. Endpoint_BytesToEPSizeMask Bytes = Some (push_bit 4 (of_nat m)) \<and>
      unat Bytes \<le> 8 * 2 ^ m \<and> (m = 0 \<or> 8 * 2 ^ (m - 1) < unat Bytes))) \<and>
   (32768 < Bytes \<longrightarrow> Endpoint_BytesToEPSizeMask Bytes = None)"
proof (intro conjI impI)
  assume "Bytes \<le> 32768"
  then have "unat Bytes \<le> 32768" by (simp add: word_le_nat_alt)
  from EPSizeMask_loop_finds [OF this, of 0] obtain m where
    "m \<le> 12" "EPSizeMask_loop Bytes 0 8 = Some (of_nat m)"
    "unat Bytes \<le> 8 * 2 ^ m" "m = 0 \<or> 8 * 2 ^ (m - 1) < unat Bytes" by auto
  then show "\<exists>m \<le> 12. Endpoint_BytesToEPSizeMask Bytes = Some (push_bit 4 (of_nat m)) \<and>
      unat Bytes \<le> 8 * 2 ^ m \<and> (m = 0 \<or> 8 * 2 ^ (m - 1) < unat Bytes)"
    by (intro exI [of _ m]) (simp add: Endpoint_BytesToEPSizeMask_def)
next
  assume b: "32768 < Bytes"
  have c: "(8 :: u16) = 0 \<or> (\<exists>k < 16. (8 :: u16) = 2 ^ k)" by (intro disjI2 exI [of _ 3]) simp
  have "EPSizeMask_loop Bytes 0 8 = None"
    using EPSizeMask_loop_endless [OF b _ c] by (cases "EPSizeMask_loop Bytes 0 8") blast+
  then show "Endpoint_BytesToEPSizeMask Bytes = None" by (simp add: Endpoint_BytesToEPSizeMask_def)
qed

text \<open>The endpoints of the firmware, and a size beyond the limit.\<close>

theorem BytesToEPSizeMask_minimal_witness:
  "(\<exists>m \<le> 12. Endpoint_BytesToEPSizeMask 64 = Some (push_bit 4 (of_nat m)) \<and> unat (64 :: u16) \<le> 8 * 2 ^ m \<and>
      (m = 0 \<or> 8 * 2 ^ (m - 1) < unat (64 :: u16))) \<and>
   Endpoint_BytesToEPSizeMask 40000 = None"
  using BytesToEPSizeMask_minimal [of 64] BytesToEPSizeMask_minimal [of 40000] by simp

section \<open>Waiting for the host\<close>

text \<open>
  The state of the program just before a turn of the waiting loop reads the frame
  number, and after that turn. The host sends a new frame every millisecond: however
  often the loop has gone round, the number eventually differs from any given one.
\<close>

definition poll_flags :: "environment \<Rightarrow> firmware \<Rightarrow> firmware" where
  "poll_flags E s = snd (rd E UECONX (snd (read_DeviceState E (snd (rd E UEINTX (snd (rd E UECFG0X s)))))))"

definition poll_turn :: "environment \<Rightarrow> firmware \<Rightarrow> firmware" where
  "poll_turn E s = snd (USB_Device_GetFrameNumber E (poll_flags E s))"

definition frames_advance :: "environment \<Rightarrow> bool" where
  "frames_advance E \<longleftrightarrow>
     (\<forall>s f. \<exists>k. fst (USB_Device_GetFrameNumber E (poll_flags E ((poll_turn E ^^ k) s))) \<noteq> f)"

lemma WaitUntilReady_turn:
  "(\<exists>e t. WaitUntilReady_step E (T, f) s = Some (Inr (Return e, t))) \<or>
   WaitUntilReady_step E (T, f) s =
     (let g = fst (USB_Device_GetFrameNumber E (poll_flags E s)) in
      if g \<noteq> f then Some (Inr (Again (T - 1, g), poll_turn E s)) else Some (Inr (Again (T, f), poll_turn E s))) \<and>
   (T = 0 \<longrightarrow> fst (USB_Device_GetFrameNumber E (poll_flags E s)) = f)"
  unfolding WaitUntilReady_step_def poll_flags_def poll_turn_def
  by (auto simp: endpoint_simps split_def rd_pair)


lemma WaitUntilReady_loop_returns:
  assumes "frames_advance E"
  shows "\<exists>e t. turn_loop (WaitUntilReady_step E) (T, f) (s :: firmware) = Some (Inr (Some e, t))"
proof (induction "unat T" arbitrary: T f s rule: less_induct)
  case less
  have "\<exists>e t. turn_loop (WaitUntilReady_step E) (T, f) u = Some (Inr (Some e, t))"
    if "fst (USB_Device_GetFrameNumber E (poll_flags E ((poll_turn E ^^ k) u))) \<noteq> f" for k u
    using that
  proof (induction k arbitrary: u)
    case 0
    consider e t where "WaitUntilReady_step E (T, f) u = Some (Inr (Return e, t))"
      | g where "T \<noteq> 0" "WaitUntilReady_step E (T, f) u = Some (Inr (Again (T - 1, g), poll_turn E u))"
      using WaitUntilReady_turn [of E T f u] 0 by (auto simp: Let_def)
    then show ?case
    proof cases
      case 1
      then show ?thesis by (intro exI) (rule turn_loop_Return)
    next
      case 2
      from 2(1) have "unat (T - 1) < unat T" by (simp add: unat_minus_one word_gt_0 unat_gt_0)
      note IH = less.hyps [OF this]
      have eq: "turn_loop (WaitUntilReady_step E) (T, f) u = turn_loop (WaitUntilReady_step E) (T - 1, g) (poll_turn E u)"
        by (rule turn_loop_Again) (rule 2(2))
      show ?thesis unfolding eq by (rule IH)
    qed
  next
    case (Suc k)
    let ?g = "fst (USB_Device_GetFrameNumber E (poll_flags E u))"
    consider e t where "WaitUntilReady_step E (T, f) u = Some (Inr (Return e, t))"
      | "T \<noteq> 0" "WaitUntilReady_step E (T, f) u = Some (Inr (Again (T - 1, ?g), poll_turn E u))"
      | "WaitUntilReady_step E (T, f) u = Some (Inr (Again (T, f), poll_turn E u))"
      using WaitUntilReady_turn [of E T f u] by (auto simp: Let_def split: if_splits)
    then show ?case
    proof cases
      case 1
      then show ?thesis by (intro exI) (rule turn_loop_Return)
    next
      case 2
      from 2(1) have "unat (T - 1) < unat T" by (simp add: unat_minus_one word_gt_0 unat_gt_0)
      note IH = less.hyps [OF this]
      have eq: "turn_loop (WaitUntilReady_step E) (T, f) u = turn_loop (WaitUntilReady_step E) (T - 1, ?g) (poll_turn E u)"
        by (rule turn_loop_Again) (rule 2(2))
      show ?thesis unfolding eq by (rule IH)
    next
      case 3
      from Suc.prems have "fst (USB_Device_GetFrameNumber E (poll_flags E ((poll_turn E ^^ k) (poll_turn E u)))) \<noteq> f"
        by (simp add: funpow_swap1)
      note IH = Suc.IH [OF this]
      have eq: "turn_loop (WaitUntilReady_step E) (T, f) u = turn_loop (WaitUntilReady_step E) (T, f) (poll_turn E u)"
        by (rule turn_loop_Again) (rule 3)
      show ?thesis unfolding eq by (rule IH)
    qed
  qed
  with assms show ?case unfolding frames_advance_def by blast
qed


text \<open>A host that sends frames but never takes data.\<close>

definition silent_host :: environment where
  "silent_host = ready_environment\<lparr>reg_value := \<lambda>_ _. 0, frame_number := \<lambda>l. of_nat (length l)\<rparr>"

lemma length_poll_turn: "length (io_log (poll_turn E s)) = length (io_log s) + 5"
  by (simp add: poll_turn_def poll_flags_def USB_Device_GetFrameNumber_def rd_pair Let_def)

lemma length_poll_flags: "length (io_log (poll_flags E s)) = length (io_log s) + 4"
  by (simp add: poll_flags_def rd_pair)

lemma silent_host_frames: "frames_advance silent_host"
  unfolding frames_advance_def
proof (intro allI)
  fix s :: firmware and f :: u16
  let ?g = "\<lambda>k. fst (USB_Device_GetFrameNumber silent_host (poll_flags silent_host ((poll_turn silent_host ^^ k) s)))"
  have g: "?g 0 = of_nat (length (io_log s)) + 4" "?g 1 = of_nat (length (io_log s)) + 9"
    by (simp_all add: USB_Device_GetFrameNumber_def [of silent_host] silent_host_def [THEN arg_cong, of frame_number]
      Let_def length_poll_flags length_poll_turn)
  have "?g 0 \<noteq> ?g 1" unfolding g by simp
  then show "\<exists>k. ?g k \<noteq> f" by metis
qed



section \<open>Control requests\<close>

lemma status_stage_written_to:
  "r \<noteq> UEINTX \<Longrightarrow>
   calm (\<lambda>s. written_to r (io_log s)) (written_to r (io_log s)) (Endpoint_ClearStatusStage E s)"
  by (rule calm_status_view) simp_all

lemma calm_Some: "calm view v m \<Longrightarrow> m = Some (Inr x) \<Longrightarrow> view x = v"
  by simp

lemma low_7_bits: "(ucast (w AND 0x7F :: u16) :: u8) = 0 \<longleftrightarrow> w AND 0x7F = 0"
proof -
  have m: "(0x7F :: u16) = mask 7" by (simp add: mask_eq_exp_minus_1)
  show ?thesis unfolding m
  proof
    assume z: "ucast (w AND mask 7) = (0 :: u8)"
    show "w AND mask 7 = 0"
    proof (rule bit_word_eqI)
      fix n
      have "\<not> bit (ucast (w AND mask 7) :: u8) n" by (simp add: z)
      then show "bit (w AND mask 7) n \<longleftrightarrow> bit 0 n" by (auto simp: bit_simps)
    qed
  qed simp
qed

text \<open>
  A new address takes effect after the status stage. \<open>SET_ADDRESS\<close> writes the address
  register twice: first the address, with the enable bit as it was, and, as the very
  last access, the enable bit, after the flag that the status packet was sent. The
  device is then addressed, or back to the default state for address 0.
\<close>

theorem SetAddress_order:
  assumes "USB_Device_SetAddress E s = Some (Inr t)"
  shows "\<exists>v w u l. written_to UDADDR (io_log t) = written_to UDADDR (io_log s) @
      [(v AND BV ADDEN) OR (ucast (wValue (USB_ControlRequest s) AND 0x7F) AND 0x7F), w OR BV ADDEN] \<and>
    io_log t = Wr UDADDR (w OR BV ADDEN) # Rd UDADDR w # Rd UEINTX u # l \<and> bit u TXINI \<and>
    USB_DeviceState t = (if wValue (USB_ControlRequest s) AND 0x7F \<noteq> 0 then DEVICE_STATE_Addressed else DEVICE_STATE_Default)"
proof -
  let ?a = "ucast (wValue (USB_ControlRequest s) AND 0x7F) :: u8"
  let ?s = "Endpoint_ClearSETUP E (USB_Device_SetDeviceAddress E ?a s)"
  from assms obtain x y where x: "Endpoint_ClearStatusStage E ?s = Some (Inr x)"
    and y: "wait_bit E UEINTX TXINI x = Some y"
    and t: "t = (USB_Device_EnableDeviceAddress E ?a y)\<lparr>USB_DeviceState :=
      if ?a \<noteq> 0 then DEVICE_STATE_Addressed else DEVICE_STATE_Default\<rparr>"
    by (auto simp: USB_Device_SetAddress_def obind_eq_Some returns_eq_Some Let_def)
  from wait_bit_Some [OF y] obtain vs u where u: "io_log y = Rd UEINTX u # map (Rd UEINTX) vs @ io_log x" "bit u TXINI"
    by blast
  have "written_to UDADDR (io_log y) = written_to UDADDR (io_log x)"
    using wait_bit_written [OF y] by (simp add: written_to_def)
  also have "\<dots> = written_to UDADDR (io_log ?s)"
    using calm_Some [OF status_stage_written_to x, of UDADDR] by simp
  also have "\<dots> = written_to UDADDR (io_log s) @ [(reg_value E UDADDR (io_log s) AND BV ADDEN) OR (?a AND 0x7F)]"
    by (simp add: request_simps)
  finally have w: "written_to UDADDR (io_log y) =
      written_to UDADDR (io_log s) @ [(reg_value E UDADDR (io_log s) AND BV ADDEN) OR (?a AND 0x7F)]" .
  have "?a = 0 \<longleftrightarrow> wValue (USB_ControlRequest s) AND 0x7F = 0" by (rule low_7_bits)
  with w u show ?thesis unfolding t
    by (intro exI [of _ "reg_value E UDADDR (io_log s)"] exI [of _ "reg_value E UDADDR (io_log y)"]
        exI [of _ u] exI [of _ "map (Rd UEINTX) vs @ io_log x"]) (simp add: request_simps)
qed


text \<open>A request for address 5.\<close>

definition request_state :: "u8 \<Rightarrow> u8 \<Rightarrow> u16 \<Rightarrow> u16 \<Rightarrow> firmware" where
  "request_state ty req val len = (example_firmware SYNCED)\<lparr>USB_ControlRequest :=
     \<lparr>bmRequestType = ty, bRequest = req, wValue = val, wIndex = 0, wLength = len\<rparr>\<rparr>"

lemma bit_ready: "n < 8 \<Longrightarrow> bit (reg_value ready_environment r l) n"
proof -
  assume n: "n < 8"
  have "(0xFF :: u8) = - 1" by simp
  moreover have "bit (- 1 :: u8) n" using n by (simp only: bit_minus_1_iff possible_bit_word) simp
  ultimately have "bit (0xFF :: u8) n" by (simp only:)
  then show ?thesis by (simp add: ready_environment_def)
qed

lemma status_stage_ready: "\<exists>t. Endpoint_ClearStatusStage ready_environment s = Some (Inr t)"
proof -
  have loop: "\<exists>u. turn_loop (unless_unattached_step ready_environment n) () s = Some (Inr (None, u))" if "n < 8" for n
    using bit_ready [OF that]
    by (subst turn_loop.simps) (simp add: unless_unattached_step_def test_bit_unfold Let_def)
  from loop [of RXOUTI] loop [of TXINI] show ?thesis
    by (auto simp: Endpoint_ClearStatusStage_def after_loop_def)
qed

lemma wait_bit_ready: "n < 8 \<Longrightarrow> \<exists>t. wait_bit ready_environment r n s = Some t"
  using bit_ready [of n r "io_log s"] by (subst wait_bit.simps) simp

theorem SetAddress_order_witness:
  "\<exists>t. USB_Device_SetAddress ready_environment (request_state 0 5 5 0) = Some (Inr t) \<and>
    USB_DeviceState t = DEVICE_STATE_Addressed"
proof -
  let ?s = "request_state 0 5 5 0" and ?a = "5 :: u8"
  from status_stage_ready obtain x where "Endpoint_ClearStatusStage ready_environment
      (Endpoint_ClearSETUP ready_environment (USB_Device_SetDeviceAddress ready_environment ?a ?s)) = Some (Inr x)" ..
  moreover obtain y where "wait_bit ready_environment UEINTX TXINI x = Some y"
    using wait_bit_ready [of TXINI UEINTX x] by auto
  moreover have "wValue (USB_ControlRequest ?s) = 5" by (simp add: request_state_def)
  ultimately obtain t where t: "USB_Device_SetAddress ready_environment ?s = Some (Inr t)"
    by (simp add: USB_Device_SetAddress_def)
  from SetAddress_order [OF t] have "USB_DeviceState t = DEVICE_STATE_Addressed"
    by (auto simp: request_state_def)
  with t show ?thesis by blast
qed


text \<open>
  C25. Descriptors. A request for a descriptor that the device has never leaves the
  descriptor's bytes, and if it comes to an end, what was written to the endpoint is a
  prefix of that descriptor, no longer than the host asked for.
\<close>

theorem GetDescriptor_prefix:
  assumes "wValue (USB_ControlRequest s) \<noteq> join16 DTYPE_String USE_INTERNAL_SERIAL"
    and "CALLBACK_USB_GetDescriptor (wValue (USB_ControlRequest s)) (wIndex (USB_ControlRequest s)) = (sz, d)" "sz \<noteq> 0"
  shows "USB_Device_GetDescriptor E (joystick_app E) s \<noteq> Some (Inl e) \<and>
    (\<forall>t. USB_Device_GetDescriptor E (joystick_app E) s = Some (Inr t) \<longrightarrow>
      (\<exists>k \<le> min (unat sz) (unat (wLength (USB_ControlRequest s))).
         written_to UEDATX (io_log t) = written_to UEDATX (io_log s) @ take k d))"
proof -
  let ?s = "Endpoint_ClearSETUP E s"
  have len: "unat sz \<le> length d" using GetDescriptor_size [of "wValue (USB_ControlRequest s)" "wIndex (USB_ControlRequest s)"] assms(2)
    by simp
  have eq: "USB_Device_GetDescriptor E (joystick_app E) s =
      obind (Template_Endpoint_Control_W E (load d) sz ?s) (\<lambda>(_, s). Some (Inr (Endpoint_ClearOUT E s)))"
    using assms by (simp add: USB_Device_GetDescriptor_def joystick_app_def Endpoint_Write_Control_PStream_LE_def)
  have "written_to UEDATX (io_log t) = written_to UEDATX (io_log s) @ take k d"
    if "sent (load d) 0 k ?s u" "t = Endpoint_ClearOUT E u" "k \<le> unat sz" for k t u
  proof -
    from that(1) obtain bs where bs: "map Inr bs = map (load d) [0..<k]"
      "written_to UEDATX (io_log u) = written_to UEDATX (io_log s) @ bs"
      by (auto simp: sent_def endpoint_simps)
    have "map (load d) [0..<k] = map Inr (take k d)"
      using that(3) len by (auto simp: load_def intro!: nth_equalityI)
    with bs(1) have "bs = take k d" by (metis inj_map_eq_map inj_Inr)
    with bs(2) that(2) show ?thesis by (simp add: endpoint_simps)
  qed
  moreover have "wLength (USB_ControlRequest ?s) = wLength (USB_ControlRequest s)" by (simp add: endpoint_simps)
  moreover have "Template_Endpoint_Control_W E (load d) sz ?s \<noteq> Some (Inl e)"
    by (rule control_W_safe) (use len in \<open>auto simp: load_def\<close>)
  ultimately show ?thesis unfolding eq
    by (auto simp: obind_eq_Some dest!: control_W_prefix)
qed

text \<open>
  The configuration descriptor, of which the host first asks for the header: a host
  that takes every packet and starts the status stage once it has \<open>n\<close> bytes.
\<close>

definition reading_host :: "nat \<Rightarrow> environment" where
  "reading_host n = ready_environment\<lparr>reg_value := \<lambda>r l. if r = UEINTX
     then if length (written_to UEDATX l) = n then BV RXOUTI else BV TXINI else 0\<rparr>"

lemma reading_host_ends:
  "case USB_Device_GetDescriptor (reading_host 9) (joystick_app (reading_host 9)) (request_state 0x80 6 0x0200 9) of
     Some (Inr t) \<Rightarrow> length (written_to UEDATX (io_log t)) = 9 | _ \<Rightarrow> False"
  by code_simp

theorem GetDescriptor_prefix_witness:
  "\<exists>t. USB_Device_GetDescriptor (reading_host 9) (joystick_app (reading_host 9)) (request_state 0x80 6 0x0200 9) =
      Some (Inr t) \<and> written_to UEDATX (io_log t) = take 9 (configuration_bytes ConfigurationDescriptor)"
proof -
  let ?s = "request_state 0x80 6 0x0200 9" and ?d = "configuration_bytes ConfigurationDescriptor"
  have q: "wValue (USB_ControlRequest ?s) = 0x0200" "wLength (USB_ControlRequest ?s) = 9" "wIndex (USB_ControlRequest ?s) = 0"
    "written_to UEDATX (io_log ?s) = []" by (simp_all add: request_state_def)
  obtain t where t: "USB_Device_GetDescriptor (reading_host 9) (joystick_app (reading_host 9)) ?s = Some (Inr t)"
    "length (written_to UEDATX (io_log t)) = 9"
    using reading_host_ends by (auto split: option.splits sum.splits)
  have "CALLBACK_USB_GetDescriptor 0x0200 0 = (41, ?d)"
    by (simp add: CALLBACK_USB_GetDescriptor_def configuration_bytes_eq)
  moreover have "(0x0200 :: u16) \<noteq> join16 DTYPE_String USE_INTERNAL_SERIAL" by (simp add: join16_def)
  ultimately obtain k where k: "k \<le> 9" "written_to UEDATX (io_log t) = take k ?d"
    using GetDescriptor_prefix [of ?s 41 ?d "reading_host 9"] t(1) by (auto simp: q)
  with t(2) have "k = 9" by simp
  with k t(1) show ?thesis by blast
qed


text \<open>
  Unknown requests are refused. A request that is neither a standard request LUFA
  knows nor \<open>SET_IDLE\<close>, while its SETUP packet stays pending, is acknowledged and the
  control endpoint is stalled, as the last two register writes.
\<close>

theorem unknown_request_stalled:
  assumes "\<And>l. bit (reg_value E UEINTX l) RXSTPI"
    and "bRequest (USB_ControlRequest (read_request E s)) \<notin> {0, 1, 3, 5, 6, 8, 9, HID_REQ_SetIdle}"
  shows "\<exists>t v w l. USB_Device_ProcessControlRequest E (joystick_app E) s = Some (Inr t) \<and>
    io_log t = Wr UECONX (w OR BV STALLRQ) # Rd UECONX w # Wr UEINTX (v AND NOT (BV RXSTPI)) # Rd UEINTX v # l \<and>
    USB_DeviceState t = USB_DeviceState s \<and> usb.more t = usb.more s"
proof -
  let ?r = "read_request E s"
  have app: "EVENT_ControlRequest (joystick_app E) ?r = Some (Inr ?r)"
    using assms(2) by (simp add: joystick_app_def EVENT_USB_Device_ControlRequest_def)
  have std: "standard_request E (joystick_app E) u = Some (Inr u)" if "USB_ControlRequest u = USB_ControlRequest ?r" for u
    using assms(2) that by (simp add: standard_request_def Let_def)
  have st: "USB_DeviceState ?r = USB_DeviceState s" by (simp add: read_request_def endpoint_simps)
  show ?thesis
    unfolding USB_Device_ProcessControlRequest_def app
    using assms(1) st by (simp add: request_simps std)
qed


theorem unknown_request_stalled_witness:
  "\<exists>t w. USB_Device_ProcessControlRequest ready_environment (joystick_app ready_environment) (example_firmware SYNCED) =
      Some (Inr t) \<and> (\<exists>l. io_log t = Wr UECONX (w OR BV STALLRQ) # l)"
proof -
  have "bRequest (USB_ControlRequest (read_request ready_environment (example_firmware SYNCED))) = 0xFF"
    by (simp add: read_request_def endpoint_simps ready_environment_def)
  then have "bRequest (USB_ControlRequest (read_request ready_environment (example_firmware SYNCED)))
      \<notin> {0, 1, 3, 5, 6, 8, 9, HID_REQ_SetIdle}" by simp
  from unknown_request_stalled [OF bit_ready this] show ?thesis by fastforce
qed

text \<open>The callback for a new configuration leaves LUFA's own state alone.\<close>

lemma ConfigurationChanged_more:
  assumes "EVENT_USB_Device_ConfigurationChanged E s = Some (Inr t)"
  shows "io_st.more t = io_st.more s"
  using assms
  by (auto simp: EVENT_USB_Device_ConfigurationChanged_def obind_eq_Some returns_eq_Some Let_def
      split: if_splits dest!: more_ConfigureEndpoint)

lemma status_stage_config:
  "calm USB_Device_ConfigurationNumber (USB_Device_ConfigurationNumber s) (Endpoint_ClearStatusStage E s)"
  by (rule calm_status_view) simp_all

text \<open>
  Configurations. \<open>SET_CONFIGURATION\<close> with a number above the only configuration
  changes nothing. With number 0 or 1 it stores the number, and a device that has an
  address is then in the configured state, also for number 0.
\<close>

theorem SetConfiguration_effect:
  assumes "\<And>l. bit (reg_value E UDADDR l) ADDEN"
    and "USB_Device_SetConfiguration E (joystick_app E) s = Some (Inr t)"
  shows "let n = (ucast (wValue (USB_ControlRequest s)) :: u8) in
    if 1 < n then t = s
    else USB_Device_ConfigurationNumber t = n \<and> USB_DeviceState t = DEVICE_STATE_Configured"
proof (cases "1 < (ucast (wValue (USB_ControlRequest s)) :: u8)")
  case True
  with assms(2) show ?thesis by (simp add: USB_Device_SetConfiguration_def)
next
  case False
  let ?n = "ucast (wValue (USB_ControlRequest s)) :: u8"
  let ?s = "(Endpoint_ClearSETUP E s)\<lparr>USB_Device_ConfigurationNumber := ?n\<rparr>"
  have q: "USB_ControlRequest (Endpoint_ClearSETUP E s) = USB_ControlRequest s" by (simp add: endpoint_simps)
  let ?c = "\<lambda>x. if USB_Device_ConfigurationNumber x \<noteq> 0 then x\<lparr>USB_DeviceState := DEVICE_STATE_Configured\<rparr>
    else (snd (USB_Device_IsAddressSet E x))\<lparr>USB_DeviceState := DEVICE_STATE_Configured\<rparr>"
  have addr: "fst (USB_Device_IsAddressSet E x)" for x :: firmware
    using assms(1) by (simp add: USB_Device_IsAddressSet_def test_bit_unfold Let_def)
  from False assms(2) obtain x where x: "Endpoint_ClearStatusStage E ?s = Some (Inr x)"
    and t: "EVENT_USB_Device_ConfigurationChanged E (?c x) = Some (Inr t)"
    by (auto simp: USB_Device_SetConfiguration_def obind_eq_Some Let_def split_def q addr joystick_app_def cong: if_cong)
  have "USB_Device_ConfigurationNumber x = ?n" using calm_Some [OF status_stage_config x] by simp
  moreover have "USB_DeviceState (?c x) = DEVICE_STATE_Configured"
    "USB_Device_ConfigurationNumber (?c x) = USB_Device_ConfigurationNumber x"
    by (simp_all add: USB_Device_IsAddressSet_def test_bit_unfold Let_def)
  ultimately show ?thesis using False more_eqD [OF ConfigurationChanged_more [OF t]] by simp
qed


lemma ConfigureEndpoint_ready:
  assumes "unat (a AND ENDPOINT_EPNUM_MASK) < ENDPOINT_TOTAL_ENDPOINTS"
  shows "\<exists>t. Endpoint_ConfigureEndpoint ready_environment a ty 64 banks s = Some (True, t)"
proof -
  have "fst (ConfigureEndpoint_loop ready_environment n d0 d1 k u)" for n d0 d1 k and u :: "'a usb_scheme"
    by (induction k arbitrary: u) (simp_all add: endpoint_simps split_def bit_ready)
  then have "\<exists>t. ConfigureEndpoint_loop ready_environment n d0 d1 k u = (True, t)" for n d0 d1 k and u :: "'a usb_scheme"
    by (metis prod.collapse)
  with assms show ?thesis
    by (simp add: Endpoint_ConfigureEndpoint_def Endpoint_ConfigureEndpoint_Prv_def EPSizeMask_64 Let_def)
qed

lemma ConfigurationChanged_ready:
  "\<exists>t. EVENT_USB_Device_ConfigurationChanged ready_environment s = Some (Inr t)"
proof -
  obtain t where t: "Endpoint_ConfigureEndpoint ready_environment JOYSTICK_IN_EPADDR EP_TYPE_INTERRUPT 64 1 s = Some (True, t)"
    using ConfigureEndpoint_ready [of JOYSTICK_IN_EPADDR EP_TYPE_INTERRUPT 1 s] by auto
  obtain u where "Endpoint_ConfigureEndpoint ready_environment JOYSTICK_OUT_EPADDR EP_TYPE_INTERRUPT 64 1 t = Some (True, u)"
    using ConfigureEndpoint_ready [of JOYSTICK_OUT_EPADDR EP_TYPE_INTERRUPT 1 t] by auto
  with t show ?thesis by (simp add: EVENT_USB_Device_ConfigurationChanged_def)
qed

theorem SetConfiguration_effect_witness:
  "\<exists>t. USB_Device_SetConfiguration ready_environment (joystick_app ready_environment) (request_state 0 9 0 0) = Some (Inr t) \<and>
    USB_Device_ConfigurationNumber t = 0 \<and> USB_DeviceState t = DEVICE_STATE_Configured"
proof -
  let ?E = ready_environment and ?s = "request_state 0 9 0 0"
  have q: "wValue (USB_ControlRequest ?s) = 0" "wValue (USB_ControlRequest (Endpoint_ClearSETUP ?E ?s)) = 0"
    by (simp_all add: request_state_def endpoint_simps)
  from status_stage_ready obtain x where
    x: "Endpoint_ClearStatusStage ?E ((Endpoint_ClearSETUP ?E ?s)\<lparr>USB_Device_ConfigurationNumber := 0\<rparr>) = Some (Inr x)" ..
  with q have "USB_Device_SetConfiguration ?E (joystick_app ?E) ?s = EVENT_USB_Device_ConfigurationChanged ?E
      (if USB_Device_ConfigurationNumber x \<noteq> 0 then x\<lparr>USB_DeviceState := DEVICE_STATE_Configured\<rparr>
       else let (b, s) = USB_Device_IsAddressSet ?E x in
         s\<lparr>USB_DeviceState := if b then DEVICE_STATE_Configured else DEVICE_STATE_Powered\<rparr>)"
    by (simp add: USB_Device_SetConfiguration_def joystick_app_def)
  with ConfigurationChanged_ready obtain t where t: "USB_Device_SetConfiguration ?E (joystick_app ?E) ?s = Some (Inr t)" by metis
  from SetConfiguration_effect [OF bit_ready t] have
    "USB_Device_ConfigurationNumber t = 0 \<and> USB_DeviceState t = DEVICE_STATE_Configured" by (simp add: q)
  with t show ?thesis by blast
qed

section \<open>Bus events\<close>

text \<open>
  Bus events. A suspended bus leaves the device unattached. After a wake-up it is
  configured if a configuration was chosen, otherwise addressed if it has an address,
  otherwise powered. A bus reset always returns and puts it into the default state
  without a configuration.
\<close>

theorem bus_events:
  "(\<exists>t. handle_SUSPI E s = Some t \<and> USB_DeviceState t = DEVICE_STATE_Unattached) \<and>
   (\<forall>t. handle_WAKEUPI E s = Some t \<longrightarrow>
      USB_Device_ConfigurationNumber t = USB_Device_ConfigurationNumber s \<and>
      (if USB_Device_ConfigurationNumber s \<noteq> 0 then USB_DeviceState t = DEVICE_STATE_Configured
       else \<exists>v l. io_log t = Rd UDADDR v # l \<and>
         USB_DeviceState t = (if bit v ADDEN then DEVICE_STATE_Addressed else DEVICE_STATE_Powered))) \<and>
   (\<exists>t. handle_EORSTI E s = Some t \<and> USB_DeviceState t = DEVICE_STATE_Default \<and> USB_Device_ConfigurationNumber t = 0)"
proof (intro conjI allI impI)
  show "\<exists>t. handle_SUSPI E s = Some t \<and> USB_DeviceState t = DEVICE_STATE_Unattached"
    by (simp add: handle_SUSPI_def EVENT_USB_Device_Disconnect_def)
next
  fix t assume "handle_WAKEUPI E s = Some t"
  then obtain y where y: "wait_bit E PLLCSR PLOCK (USB_PLL_On s) = Some y"
    and t: "t = (let u = USB_INT_Enable E USB_INT_SUSPI (USB_INT_Disable E USB_INT_WAKEUPI
        (USB_INT_Clear E USB_INT_WAKEUPI (USB_CLK_Unfreeze E y))) in
      if USB_Device_ConfigurationNumber u \<noteq> 0 then u\<lparr>USB_DeviceState := DEVICE_STATE_Configured\<rparr>
      else let (b, u) = USB_Device_IsAddressSet E u in
        u\<lparr>USB_DeviceState := if b then DEVICE_STATE_Addressed else DEVICE_STATE_Powered\<rparr>)"
    by (auto simp: handle_WAKEUPI_def bind_eq_Some_conv EVENT_USB_Device_Connect_def Let_def)
  define u where "u = USB_INT_Enable E USB_INT_SUSPI (USB_INT_Disable E USB_INT_WAKEUPI
        (USB_INT_Clear E USB_INT_WAKEUPI (USB_CLK_Unfreeze E y)))"
  have "io_st.more u = io_st.more s" using wait_bit_more [OF y] by (simp add: u_def)
  note n = more_eqD(3) [OF this]
  show "USB_Device_ConfigurationNumber t = USB_Device_ConfigurationNumber s"
    using n unfolding t u_def [symmetric] by (simp add: USB_Device_IsAddressSet_def test_bit_unfold Let_def)
  show "if USB_Device_ConfigurationNumber s \<noteq> 0 then USB_DeviceState t = DEVICE_STATE_Configured
       else \<exists>v l. io_log t = Rd UDADDR v # l \<and>
         USB_DeviceState t = (if bit v ADDEN then DEVICE_STATE_Addressed else DEVICE_STATE_Powered)"
    using n unfolding t u_def [symmetric] by (simp add: USB_Device_IsAddressSet_def test_bit_unfold Let_def)
next
  let ?s = "USB_INT_Enable E USB_INT_WAKEUPI (USB_INT_Disable E USB_INT_SUSPI (USB_INT_Clear E USB_INT_SUSPI
    ((USB_INT_Clear E USB_INT_EORSTI s)\<lparr>USB_DeviceState := DEVICE_STATE_Default, USB_Device_ConfigurationNumber := 0\<rparr>)))"
  obtain ok t where t: "Endpoint_ConfigureEndpoint E ENDPOINT_CONTROLEP EP_TYPE_CONTROL
      (of_nat FIXED_CONTROL_ENDPOINT_SIZE) 1 ?s = Some (ok, t)"
    using ConfigureEndpoint_control [of E ?s] by blast
  have "io_st.more t = io_st.more ((USB_INT_Clear E USB_INT_EORSTI s)\<lparr>USB_DeviceState := DEVICE_STATE_Default,
      USB_Device_ConfigurationNumber := 0\<rparr>)"
    using more_ConfigureEndpoint [OF t] by simp
  from more_eqD [OF this] t show "\<exists>t. handle_EORSTI E s = Some t \<and> USB_DeviceState t = DEVICE_STATE_Default \<and>
      USB_Device_ConfigurationNumber t = 0"
    by (simp add: handle_EORSTI_def USB_Event_Stub_def)
qed


text \<open>A configured device is configured again after a wake-up.\<close>

theorem bus_events_witness:
  "\<exists>t. handle_WAKEUPI ready_environment (example_firmware SYNCED) = Some t \<and> USB_DeviceState t = DEVICE_STATE_Configured"
proof -
  obtain y where "wait_bit ready_environment PLLCSR PLOCK (USB_PLL_On (example_firmware SYNCED)) = Some y"
    using wait_bit_ready [of PLOCK] by auto
  then obtain t where "handle_WAKEUPI ready_environment (example_firmware SYNCED) = Some t"
    by (auto simp: handle_WAKEUPI_def Let_def)
  moreover have "USB_Device_ConfigurationNumber (example_firmware SYNCED) \<noteq> 0" by (simp add: example_firmware_def)
  ultimately show ?thesis using bus_events [of ready_environment "example_firmware SYNCED"] by auto
qed


section \<open>The descriptors\<close>


end
