(* ===== verification/ConfigDescriptors.thy ===== *)
theory ConfigDescriptors
  imports Descriptors
begin

text \<open>
  The configuration descriptor parser of LUFA (\<open>Drivers/USB/Core/ConfigDescriptors.c\<close>
  and the inline function of its header): walking over the sub-descriptors of a
  configuration descriptor in a buffer. The position is the number of bytes
  remaining and the offset of the current sub-descriptor. The comparator of
  \<open>USB_GetNextDescriptorComp\<close> is a function of the application and an argument here.
\<close>

section \<open>Operations\<close>

type_synonym walk = "u16 \<times> nat"

datatype DSearch_Return = DESCRIPTOR_SEARCH_Found | DESCRIPTOR_SEARCH_Fail | DESCRIPTOR_SEARCH_NotFound

datatype DSearch_Comp_Return =
  DESCRIPTOR_SEARCH_COMP_Found | DESCRIPTOR_SEARCH_COMP_Fail | DESCRIPTOR_SEARCH_COMP_EndOfDescriptor

definition DESCRIPTOR_TYPE :: "bytes \<Rightarrow> nat \<Rightarrow> fault + u8" where
  "DESCRIPTOR_TYPE D loc = load D (loc + 1)"

definition DESCRIPTOR_SIZE :: "bytes \<Rightarrow> nat \<Rightarrow> fault + u8" where
  "DESCRIPTOR_SIZE D loc = load D loc"

definition USB_GetNextDescriptor :: "bytes \<Rightarrow> walk \<Rightarrow> fault + walk" where
  "USB_GetNextDescriptor D = (\<lambda>(BytesRem, CurrConfigLoc).
     fbind (DESCRIPTOR_SIZE D CurrConfigLoc) (\<lambda>sz.
     let CurrDescriptorSize = (ucast sz :: u16);
         CurrDescriptorSize = (if BytesRem < CurrDescriptorSize then BytesRem else CurrDescriptorSize)
     in Inr (BytesRem - CurrDescriptorSize, CurrConfigLoc + unat CurrDescriptorSize)))"

text \<open>\<open>while (*BytesRem) { USB_GetNextDescriptor(...); ... }\<close>, with the rest of the body
  as a function of the positions before and after.\<close>

definition walk_step ::
  "bytes \<Rightarrow> (walk \<Rightarrow> walk \<Rightarrow> fault + ('r, unit) turn \<times> walk) \<Rightarrow> unit \<Rightarrow> walk \<Rightarrow> (('r, unit) turn \<times> walk) outcome" where
  "walk_step D body u s =
     (if fst s = 0 then Some (Inr (Leave, s))
      else Some (fbind (USB_GetNextDescriptor D s) (body s)))"

definition OfType_body :: "bytes \<Rightarrow> u8 \<Rightarrow> walk \<Rightarrow> walk \<Rightarrow> fault + (unit, unit) turn \<times> walk" where
  "OfType_body D Type prev s =
     fbind (DESCRIPTOR_TYPE D (snd s)) (\<lambda>t. Inr (if t = Type then Return () else Again (), s))"

definition USB_GetNextDescriptorOfType :: "bytes \<Rightarrow> u8 \<Rightarrow> walk \<Rightarrow> walk outcome" where
  "USB_GetNextDescriptorOfType D Type s =
     obind (turn_loop (walk_step D (OfType_body D Type)) () s) (\<lambda>(_, s). Some (Inr s))"

definition OfTypeBefore_body :: "bytes \<Rightarrow> u8 \<Rightarrow> u8 \<Rightarrow> walk \<Rightarrow> walk \<Rightarrow> fault + (unit, unit) turn \<times> walk" where
  "OfTypeBefore_body D Type BeforeType prev s =
     fbind (DESCRIPTOR_TYPE D (snd s)) (\<lambda>t.
     if t = Type then Inr (Return (), s)
     else fbind (DESCRIPTOR_TYPE D (snd s)) (\<lambda>t.
       if t = BeforeType then Inr (Return (), (0, snd s)) else Inr (Again (), s)))"

definition USB_GetNextDescriptorOfTypeBefore :: "bytes \<Rightarrow> u8 \<Rightarrow> u8 \<Rightarrow> walk \<Rightarrow> walk outcome" where
  "USB_GetNextDescriptorOfTypeBefore D Type BeforeType s =
     obind (turn_loop (walk_step D (OfTypeBefore_body D Type BeforeType)) () s) (\<lambda>(_, s). Some (Inr s))"

definition USB_GetNextDescriptorOfTypeAfter :: "bytes \<Rightarrow> u8 \<Rightarrow> u8 \<Rightarrow> walk \<Rightarrow> walk outcome" where
  "USB_GetNextDescriptorOfTypeAfter D Type AfterType s =
     obind (USB_GetNextDescriptorOfType D AfterType s) (\<lambda>s.
     if fst s \<noteq> 0 then USB_GetNextDescriptorOfType D Type s else Some (Inr s))"

definition Comp_body ::
  "(nat \<Rightarrow> fault + DSearch_Return) \<Rightarrow> walk \<Rightarrow> walk \<Rightarrow> fault + (DSearch_Comp_Return, unit) turn \<times> walk" where
  "Comp_body ComparatorRoutine prev s =
     fbind (ComparatorRoutine (snd s)) (\<lambda>ErrorCode.
     case ErrorCode of
       DESCRIPTOR_SEARCH_NotFound \<Rightarrow> Inr (Again (), s)
     | DESCRIPTOR_SEARCH_Fail \<Rightarrow> Inr (Return DESCRIPTOR_SEARCH_COMP_Fail, prev)
     | DESCRIPTOR_SEARCH_Found \<Rightarrow> Inr (Return DESCRIPTOR_SEARCH_COMP_Found, s))"

definition USB_GetNextDescriptorComp ::
  "bytes \<Rightarrow> (nat \<Rightarrow> fault + DSearch_Return) \<Rightarrow> walk \<Rightarrow> (DSearch_Comp_Return \<times> walk) outcome" where
  "USB_GetNextDescriptorComp D ComparatorRoutine s =
     obind (turn_loop (walk_step D (Comp_body ComparatorRoutine)) () s) (\<lambda>(r, s).
     Some (Inr (case r of Some e \<Rightarrow> e | None \<Rightarrow> DESCRIPTOR_SEARCH_COMP_EndOfDescriptor, s)))"

text \<open>The comparator of the HID host driver that looks for the HID descriptor of an interface
  (\<open>Class/Host/HIDClassHost.c\<close>).\<close>

definition DCOMP_HID_Host_NextHIDDescriptor :: "bytes \<Rightarrow> nat \<Rightarrow> fault + DSearch_Return" where
  "DCOMP_HID_Host_NextHIDDescriptor D CurrentDescriptor =
     fbind (DESCRIPTOR_TYPE D CurrentDescriptor) (\<lambda>t.
     Inr (if t = DTYPE_HID then DESCRIPTOR_SEARCH_Found
          else if t = DTYPE_Interface then DESCRIPTOR_SEARCH_Fail
          else DESCRIPTOR_SEARCH_NotFound))"

section \<open>Chains of sub-descriptors\<close>

text \<open>
  A sub-descriptor says its own length; at an offset of the buffer lie the
  sub-descriptors \<open>ds\<close>, and after them the rest of the buffer.
\<close>

definition wf_desc :: "bytes \<Rightarrow> bool" where
  "wf_desc d \<longleftrightarrow> 2 \<le> length d \<and> length d < 256 \<and> d ! 0 = of_nat (length d)"

definition chain_at :: "bytes \<Rightarrow> nat \<Rightarrow> bytes list \<Rightarrow> bytes \<Rightarrow> bool" where
  "chain_at D loc ds tail \<longleftrightarrow> loc \<le> length D \<and> drop loc D = concat ds @ tail \<and>
     (\<forall>d \<in> set ds. wf_desc d) \<and> length (concat ds) < 65536"

definition bytes_of :: "bytes list \<Rightarrow> u16" where
  "bytes_of ds = of_nat (length (concat ds))"

lemma load_drop: "loc \<le> length D \<Longrightarrow> load D (loc + i) = load (drop loc D) i"
  by (auto simp: load_def)

lemma load_drop_0: "loc \<le> length D \<Longrightarrow> load D loc = load (drop loc D) 0"
  using load_drop [of loc D 0] by simp

lemma chain_TYPE:
  assumes "chain_at D loc (d # ds) tail"
  shows "DESCRIPTOR_TYPE D loc = Inr (d ! 1)"
  using assms load_drop [of loc D 1]
  by (auto simp: chain_at_def DESCRIPTOR_TYPE_def load_def wf_desc_def nth_append)

lemma chain_TYPE_end:
  assumes "chain_at D loc [] tail"
  shows "DESCRIPTOR_TYPE D loc = (if 2 \<le> length tail then Inr (tail ! 1) else Inl OutOfBounds)"
  using assms load_drop [of loc D 1] by (auto simp: chain_at_def DESCRIPTOR_TYPE_def load_def)

lemma bytes_of_Nil [simp]: "bytes_of [] = 0"
  by (simp add: bytes_of_def)

lemma bytes_of_zero: "chain_at D loc ds tail \<Longrightarrow> bytes_of ds = 0 \<longleftrightarrow> ds = []"
  by (cases ds) (auto simp: bytes_of_def chain_at_def wf_desc_def word_unat_eq_iff unat_of_nat
      simp del: of_nat_add)

lemma chain_next:
  assumes "chain_at D loc (d # ds) tail"
  shows "USB_GetNextDescriptor D (bytes_of (d # ds), loc) = Inr (bytes_of ds, loc + length d)"
    and "chain_at D (loc + length d) ds tail"
proof -
  have d: "wf_desc d" and l: "loc \<le> length D" "drop loc D = d @ concat ds @ tail"
    and n: "length d + length (concat ds) < 65536"
    using assms by (auto simp: chain_at_def)
  have "0 < length d" using d by (cases d) (simp_all add: wf_desc_def)
  moreover have "load D loc = load (d @ concat ds @ tail) 0"
    using load_drop_0 [OF l(1)] l(2) by simp
  ultimately have "DESCRIPTOR_SIZE D loc = Inr (d ! 0)"
    by (simp add: DESCRIPTOR_SIZE_def load_def nth_append)
  moreover have "unat (of_nat (length d) :: u8) = length d" using d by (simp add: wf_desc_def unat_of_nat)
  then have sz: "(ucast (d ! 0) :: u16) = of_nat (length d)"
    using d by (metis wf_desc_def of_nat_unat)
  moreover have "\<not> bytes_of (d # ds) < of_nat (length d)" "unat (of_nat (length d) :: u16) = length d"
    using n by (auto simp: bytes_of_def word_less_nat_alt unat_of_nat simp del: of_nat_add)
  ultimately show "USB_GetNextDescriptor D (bytes_of (d # ds), loc) = Inr (bytes_of ds, loc + length d)"
    by (simp add: USB_GetNextDescriptor_def bytes_of_def)
  have "drop (loc + length d) D = concat ds @ tail" using l(2) by (metis append_eq_conv_conj drop_drop add.commute)
  moreover have "loc + length d \<le> length D"
    using l by (metis add_le_cancel_left le_add_diff_inverse length_append length_drop le_add1)
  ultimately show "chain_at D (loc + length d) ds tail" using assms n by (simp add: chain_at_def)
qed

text \<open>A walk on a chain: one turn of the loop, and its end.\<close>

lemma walk_chain:
  assumes "chain_at D loc (d # ds) tail"
  shows "turn_loop (walk_step D body) () (bytes_of (d # ds), loc) =
    (case body (bytes_of (d # ds), loc) (bytes_of ds, loc + length d) of
       Inl e \<Rightarrow> Some (Inl e)
     | Inr (Return r, t) \<Rightarrow> Some (Inr (Some r, t))
     | Inr (Leave, t) \<Rightarrow> Some (Inr (None, t))
     | Inr (Again u, t) \<Rightarrow> turn_loop (walk_step D body) u t)"
  using chain_next(1) [OF assms] bytes_of_zero [OF assms]
  by (subst turn_loop.simps) (simp add: walk_step_def)

lemma walk_end: "turn_loop (walk_step D body) () (0, loc) = Some (Inr (None, (0, loc)))"
  by (subst turn_loop.simps) (simp add: walk_step_def)

lemma OfType_chain:
  assumes "chain_at D loc (d # ds) tail" "dropWhile (\<lambda>e. e ! 1 \<noteq> T) ds = es"
  shows "USB_GetNextDescriptorOfType D T (bytes_of (d # ds), loc) =
    (if es \<noteq> [] \<or> 2 \<le> length tail
     then Some (Inr (bytes_of es, loc + length (concat (d # ds)) - length (concat es)))
     else Some (Inl OutOfBounds))"
  using assms
proof (induction ds arbitrary: d loc)
  case Nil
  from walk_chain [OF Nil.prems(1), of "OfType_body D T"] chain_TYPE_end [OF chain_next(2) [OF Nil.prems(1)]]
  show ?case using Nil.prems(2) by (simp add: USB_GetNextDescriptorOfType_def OfType_body_def walk_end)
next
  case (Cons e ds)
  note nx = chain_next(2) [OF Cons.prems(1)]
  from walk_chain [OF Cons.prems(1), of "OfType_body D T"] chain_TYPE [OF nx] Cons.IH [OF nx]
  show ?case using Cons.prems(2)
    by (auto simp: USB_GetNextDescriptorOfType_def OfType_body_def add.assoc split: if_splits)
qed


lemma OfTypeBefore_chain:
  assumes "chain_at D loc (d # ds) tail" "dropWhile (\<lambda>e. e ! 1 \<noteq> T \<and> e ! 1 \<noteq> B) ds = es"
  shows "USB_GetNextDescriptorOfTypeBefore D T B (bytes_of (d # ds), loc) =
    (if es \<noteq> [] \<or> 2 \<le> length tail
     then Some (Inr (if es \<noteq> [] \<and> hd es ! 1 = T then bytes_of es else 0,
       loc + length (concat (d # ds)) - length (concat es)))
     else Some (Inl OutOfBounds))"
  using assms
proof (induction ds arbitrary: d loc)
  case Nil
  from walk_chain [OF Nil.prems(1), of "OfTypeBefore_body D T B"] chain_TYPE_end [OF chain_next(2) [OF Nil.prems(1)]]
  show ?case using Nil.prems(2)
    by (simp add: USB_GetNextDescriptorOfTypeBefore_def OfTypeBefore_body_def walk_end)
next
  case (Cons e ds)
  note nx = chain_next(2) [OF Cons.prems(1)]
  from walk_chain [OF Cons.prems(1), of "OfTypeBefore_body D T B"] chain_TYPE [OF nx] Cons.IH [OF nx]
  show ?case using Cons.prems(2)
    by (auto simp: USB_GetNextDescriptorOfTypeBefore_def OfTypeBefore_body_def add.assoc split: if_splits)
qed

lemma chain_suffix:
  "chain_at D loc (xs @ ds) tail \<Longrightarrow> chain_at D (loc + length (concat xs)) ds tail"
proof (induction xs arbitrary: loc)
  case (Cons x xs)
  then have "chain_at D (loc + length x) (xs @ ds) tail" using chain_next(2) [of D loc x "xs @ ds" tail] by simp
  from Cons.IH [OF this] show ?case by (simp add: add.assoc)
qed simp


text \<open>
  The comparator search on a chain, for a comparator that looks at nothing but the
  descriptor it is given.
\<close>

lemma Comp_chain:
  assumes "chain_at D loc (d # ds) tail" "ds = xs @ e # ys"
    and "\<And>loc d ds. chain_at D loc (d # ds) tail \<Longrightarrow> cmp loc = Inr (c d)"
    and "\<forall>x \<in> set xs. c x = DESCRIPTOR_SEARCH_NotFound" "c e \<noteq> DESCRIPTOR_SEARCH_NotFound"
  shows "USB_GetNextDescriptorComp D cmp (bytes_of (d # ds), loc) = Some (Inr
    (if c e = DESCRIPTOR_SEARCH_Found
     then (DESCRIPTOR_SEARCH_COMP_Found, (bytes_of (e # ys), loc + length (concat (d # xs))))
     else (DESCRIPTOR_SEARCH_COMP_Fail,
       (bytes_of (last (d # xs) # e # ys), loc + length (concat (butlast (d # xs)))))))"
  using assms(1,2,4)
proof (induction xs arbitrary: d ds loc)
  case Nil
  then have ds: "ds = e # ys" by simp
  from chain_next(2) [OF Nil.prems(1)] have "cmp (loc + length d) = Inr (c e)"
    unfolding ds by (rule assms(3))
  with walk_chain [OF Nil.prems(1), of "Comp_body cmp"] assms(5) ds show ?case
    by (cases "c e") (simp_all add: USB_GetNextDescriptorComp_def Comp_body_def)
next
  case (Cons x xs)
  then have ds: "ds = x # xs @ e # ys" by simp
  note nx = chain_next(2) [OF Cons.prems(1)]
  from nx have "cmp (loc + length d) = Inr (c x)" unfolding ds by (rule assms(3))
  with walk_chain [OF Cons.prems(1), of "Comp_body cmp"] Cons.IH [OF nx [unfolded ds] refl] Cons.prems(3) ds
  show ?case by (auto simp: USB_GetNextDescriptorComp_def Comp_body_def add.assoc)
qed

section \<open>Properties\<close>

text \<open>
  Searching by type. On a buffer that holds well-formed sub-descriptors, the search
  stops at the first one of the wanted type after the current one; if there is none,
  it ends with no bytes remaining. In that case it has read the type of a further
  descriptor behind the last one, which is outside the buffer unless two more bytes
  follow.
\<close>

theorem next_descriptor_of_type:
  assumes "chain_at D loc (d # ds) tail"
  shows "USB_GetNextDescriptorOfType D T (bytes_of (d # ds), loc) =
    (let es = dropWhile (\<lambda>e. e ! 1 \<noteq> T) ds in
     if es \<noteq> [] \<or> 2 \<le> length tail
     then Some (Inr (bytes_of es, loc + length (concat (d # ds)) - length (concat es)))
     else Some (Inl OutOfBounds))"
  using OfType_chain [OF assms refl, of T] by (simp only: Let_def)

definition joystick_subdescriptors :: "bytes list" where
  "joystick_subdescriptors =
     [[9, 2, 41, 0, 1, 1, 0, 0xA0, 250], [9, 4, 0, 0, 2, 3, 0, 0, 0],
      [9, 0x21, 0x11, 1, 0, 1, 0x22, 203, 0], [7, 5, 0x02, 3, 64, 0, 8], [7, 5, 0x81, 3, 64, 0, 8]]"

lemma joystick_chain: "chain_at (configuration_bytes ConfigurationDescriptor) 0 joystick_subdescriptors []"
  unfolding chain_at_def configuration_bytes_eq joystick_subdescriptors_def by (simp add: wf_desc_def)

text \<open>The first endpoint of the firmware's own configuration descriptor, and a type it does not have.\<close>

theorem next_descriptor_of_type_witness:
  "USB_GetNextDescriptorOfType (configuration_bytes ConfigurationDescriptor) DTYPE_Endpoint (41, 0) = Some (Inr (14, 27)) \<and>
   USB_GetNextDescriptorOfType (configuration_bytes ConfigurationDescriptor) 0x24 (41, 0) = Some (Inl OutOfBounds)"
proof -
  let ?D = "configuration_bytes ConfigurationDescriptor"
  have b: "bytes_of joystick_subdescriptors = 41" by (simp add: bytes_of_def joystick_subdescriptors_def)
  note spec = next_descriptor_of_type [OF joystick_chain [unfolded joystick_subdescriptors_def],
      folded joystick_subdescriptors_def, unfolded b]
  show ?thesis using spec [of DTYPE_Endpoint] spec [of "0x24"]
    by (simp add: joystick_subdescriptors_def bytes_of_def)
qed


text \<open>
  Searching with a comparator. The search of the HID host driver for the HID
  descriptor of an interface stops at the first descriptor that is a HID or an
  interface descriptor. A HID descriptor is found there; at an interface descriptor
  the search fails and the position is put back to the descriptor before it, so that
  the next search finds that interface.
\<close>

theorem hid_descriptor_search:
  assumes "chain_at D loc (d # xs @ e # ys) tail"
    and "\<forall>x \<in> set xs. x ! 1 \<noteq> DTYPE_HID \<and> x ! 1 \<noteq> DTYPE_Interface"
    and "e ! 1 = DTYPE_HID \<or> e ! 1 = DTYPE_Interface"
  shows "USB_GetNextDescriptorComp D (DCOMP_HID_Host_NextHIDDescriptor D) (bytes_of (d # xs @ e # ys), loc) =
    Some (Inr (if e ! 1 = DTYPE_HID
      then (DESCRIPTOR_SEARCH_COMP_Found, (bytes_of (e # ys), loc + length (concat (d # xs))))
      else (DESCRIPTOR_SEARCH_COMP_Fail,
        (bytes_of (last (d # xs) # e # ys), loc + length (concat (butlast (d # xs)))))))"
proof -
  let ?c = "\<lambda>d :: bytes. if d ! 1 = DTYPE_HID then DESCRIPTOR_SEARCH_Found
    else if d ! 1 = DTYPE_Interface then DESCRIPTOR_SEARCH_Fail else DESCRIPTOR_SEARCH_NotFound"
  have "DCOMP_HID_Host_NextHIDDescriptor D loc = Inr (?c d)" if "chain_at D loc (d # ds) tail" for loc d ds
    using chain_TYPE [OF that] by (simp add: DCOMP_HID_Host_NextHIDDescriptor_def)
  from Comp_chain [OF assms(1) refl this] assms(2,3) show ?thesis by auto
qed

text \<open>From the interface descriptor of the firmware, at offset 9.\<close>

theorem hid_descriptor_search_witness:
  "USB_GetNextDescriptorComp (configuration_bytes ConfigurationDescriptor)
     (DCOMP_HID_Host_NextHIDDescriptor (configuration_bytes ConfigurationDescriptor)) (32, 9) =
   Some (Inr (DESCRIPTOR_SEARCH_COMP_Found, (23, 18)))"
proof -
  have "chain_at (configuration_bytes ConfigurationDescriptor) 9
      ([9, 4, 0, 0, 2, 3, 0, 0, 0] # [] @ [9, 0x21, 0x11, 1, 0, 1, 0x22, 203, 0] #
       [[7, 5, 0x02, 3, 64, 0, 8], [7, 5, 0x81, 3, 64, 0, 8]]) []"
    unfolding chain_at_def configuration_bytes_eq by (simp add: wf_desc_def)
  from hid_descriptor_search [OF this] show ?thesis by (simp add: bytes_of_def)
qed

text \<open>
  A descriptor of length zero. At a sub-descriptor that gives its length as zero and
  is not of the wanted type, the search by type never returns.
\<close>

theorem zero_length_endless:
  assumes "rem \<noteq> 0" "loc + 1 < length D" "D ! loc = 0" "D ! (loc + 1) \<noteq> T"
  shows "USB_GetNextDescriptorOfType D T (rem, loc) = None"
proof -
  have "walk_step D (OfType_body D T) () (rem, loc) = Some (Inr (Again (), (rem, loc)))"
    using assms by (simp add: walk_step_def USB_GetNextDescriptor_def DESCRIPTOR_SIZE_def
        OfType_body_def DESCRIPTOR_TYPE_def load_def)
  then show ?thesis by (simp add: USB_GetNextDescriptorOfType_def turn_loop_endless)
qed

theorem zero_length_endless_witness:
  "USB_GetNextDescriptorOfType [0, 4, 0, 0] DTYPE_Endpoint (4, 0) = None"
  using zero_length_endless [of 4 0 "[0, 4, 0, 0]" DTYPE_Endpoint] by simp

end
