(* ===== verification/Endianness.thy ===== *)
theory Endianness
  imports Prelude
begin

text \<open>
  Byte order (\<open>LUFA/Common/Endianness.h\<close>): the compile-time macros, the run-time
  functions that swap the bytes of a union in place, and the in-place reversal of
  an array. The unions are little-endian, as on AVR.
\<close>

definition SWAPENDIAN_16 :: "u16 \<Rightarrow> u16" where
  "SWAPENDIAN_16 x = drop_bit 8 (x AND 0xFF00) OR push_bit 8 (x AND 0x00FF)"

definition SWAPENDIAN_32 :: "u32 \<Rightarrow> u32" where
  "SWAPENDIAN_32 x = drop_bit 24 (x AND 0xFF000000) OR drop_bit 8 (x AND 0x00FF0000) OR
     push_bit 8 (x AND 0x0000FF00) OR push_bit 24 (x AND 0x000000FF)"

text \<open>The two views of a union: the bytes of a word, and the word of its bytes.\<close>

definition le32 :: "u32 \<Rightarrow> bytes" where
  "le32 w = [ucast w, ucast (drop_bit 8 w), ucast (drop_bit 16 w), ucast (drop_bit 24 w)]"

fun of_le16 :: "bytes \<Rightarrow> u16" where
  "of_le16 [b0, b1] = join16 b1 b0"
| "of_le16 _ = 0"

fun of_le32 :: "bytes \<Rightarrow> u32" where
  "of_le32 [b0, b1, b2, b3] =
     ucast b0 OR push_bit 8 (ucast b1) OR push_bit 16 (ucast b2) OR push_bit 24 (ucast b3)"
| "of_le32 _ = 0"

definition swap_bytes :: "nat \<Rightarrow> nat \<Rightarrow> bytes \<Rightarrow> fault + bytes" where
  "swap_bytes i j D =
     fbind (load D i) (\<lambda>Temp.
     fbind (load D j) (\<lambda>x.
     fbind (store D i x) (\<lambda>D.
     store D j Temp)))"

definition SwapEndian_16 :: "u16 \<Rightarrow> fault + u16" where
  "SwapEndian_16 w = fbind (swap_bytes 0 1 (le16 w)) (\<lambda>D. Inr (of_le16 D))"

definition SwapEndian_32 :: "u32 \<Rightarrow> fault + u32" where
  "SwapEndian_32 w =
     fbind (swap_bytes 0 3 (le32 w)) (\<lambda>D.
     fbind (swap_bytes 1 2 D) (\<lambda>D.
     Inr (of_le32 D)))"

text \<open>The loop, with \<open>CurrDataPos\<close> as an offset into the data.\<close>

function SwapEndian_loop :: "nat \<Rightarrow> u8 \<Rightarrow> bytes \<Rightarrow> fault + bytes" where
  "SwapEndian_loop pos len D =
     (if 1 < len
      then fbind (swap_bytes pos (pos + unat len - 1) D) (SwapEndian_loop (pos + 1) (len - 2))
      else Inr D)"
  by pat_completeness auto

lemma unat_minus_2: "1 < (w :: u8) \<Longrightarrow> unat (w - 2) = unat w - 2"
  by (subst unat_sub) (auto simp: word_le_nat_alt word_less_nat_alt)

termination SwapEndian_loop
  by (relation "measure (\<lambda>(_, len, _). unat len)") (auto simp: unat_minus_2 word_less_nat_alt)

definition SwapEndian_n :: "bytes \<Rightarrow> u8 \<Rightarrow> fault + bytes" where
  "SwapEndian_n D len = SwapEndian_loop 0 len D"

declare SwapEndian_loop.simps [simp del]

lemma swap_bytes_in [mem_simps]:
  "i < length D \<Longrightarrow> j < length D \<Longrightarrow> swap_bytes i j D = Inr (D[i := D ! j, j := D ! i])"
  by (simp add: swap_bytes_def mem_simps)

lemma le16_cancel: "of_le16 (le16 w) = w"
  by (simp add: le16_def join16_le16)

lemma le32_cancel: "of_le32 (le32 w) = w"
  by (rule bit_word_eqI) (auto simp: le32_def bit_simps; rule ccontr; simp)

lemma of_le32_cancel: "le32 (of_le32 [a, b, c, d]) = [a, b, c, d]"
  by (auto simp: le32_def bit_eq_iff bit_simps dest: bit_imp_le_length)

lemma SwapEndian_16_eq: "SwapEndian_16 w = Inr (of_le16 (rev (le16 w)))"
  by (simp add: SwapEndian_16_def le16_def mem_simps)

lemma SwapEndian_32_eq: "SwapEndian_32 w = Inr (of_le32 (rev (le32 w)))"
  by (simp add: SwapEndian_32_def le32_def mem_simps)

lemma byte_masks:
  "(0xFF00 :: u16) = push_bit 8 (mask 8)" "(0x00FF :: u16) = mask 8"
  "(0xFF000000 :: u32) = push_bit 24 (mask 8)" "(0x00FF0000 :: u32) = push_bit 16 (mask 8)"
  "(0x0000FF00 :: u32) = push_bit 8 (mask 8)" "(0x000000FF :: u32) = mask 8"
  by (simp_all add: mask_eq_exp_minus_1 push_bit_eq_mult)

lemma SWAPENDIAN_16_eq: "SWAPENDIAN_16 w = of_le16 (rev (le16 w))"
  unfolding SWAPENDIAN_16_def byte_masks
  by (simp add: le16_def) (rule bit_word_eqI, auto simp: bit_join16 bit_simps)

lemma SWAPENDIAN_32_eq: "SWAPENDIAN_32 v = of_le32 (rev (le32 v))"
  unfolding SWAPENDIAN_32_def byte_masks
  by (simp add: le32_def) (rule bit_word_eqI, auto simp: bit_simps)

lemma SWAPENDIAN_16_twice: "SWAPENDIAN_16 (SWAPENDIAN_16 w) = w"
  using le16_cancel [of w] unfolding SWAPENDIAN_16_eq by (simp add: le16_def [of w] le16_join16)

lemma SWAPENDIAN_32_twice: "SWAPENDIAN_32 (SWAPENDIAN_32 v) = v"
proof -
  obtain a b c d where l: "le32 v = [a, b, c, d]" by (simp add: le32_def)
  have "le32 (of_le32 [d, c, b, a]) = [d, c, b, a]" by (rule of_le32_cancel)
  with l le32_cancel [of v] show ?thesis
    unfolding SWAPENDIAN_32_eq by (simp del: of_le32.simps)
qed

text \<open>
  The macros and the run-time functions swap alike. For every value, the function
  and the macro that replaces it for constants give the same result, and swapping
  twice gives the value back.
\<close>

theorem SwapEndian_equiv:
  "SwapEndian_16 w = Inr (SWAPENDIAN_16 w) \<and> SwapEndian_32 v = Inr (SWAPENDIAN_32 v) \<and>
   SWAPENDIAN_16 (SWAPENDIAN_16 w) = w \<and> SWAPENDIAN_32 (SWAPENDIAN_32 v) = v"
  by (simp only: SwapEndian_16_eq SwapEndian_32_eq SWAPENDIAN_16_twice SWAPENDIAN_32_twice)
    (simp only: SWAPENDIAN_16_eq SWAPENDIAN_32_eq)

lemma SwapEndian_loop_rev:
  "length M = unat len \<Longrightarrow> SwapEndian_loop (length A) len (A @ M @ B) = Inr (A @ rev M @ B)"
proof (induction "unat len" arbitrary: len A M B rule: less_induct)
  case less
  show ?case
  proof (cases "1 < len")
    case True
    then have len: "2 \<le> length M" using less.prems by (simp add: word_less_nat_alt)
    then obtain x M' where "M = x # M'" by (cases M) auto
    moreover with len obtain N y where "M' = N @ [y]" by (cases M' rule: rev_cases) auto
    ultimately have M: "M = x # N @ [y]" by simp
    let ?D = "A @ M @ B"
    have last: "length A + unat len - 1 = length A + 1 + length N" using less.prems M by simp
    have "swap_bytes (length A) (length A + unat len - 1) ?D = Inr ((A @ [y]) @ N @ x # B)"
      unfolding last by (simp add: M swap_bytes_in nth_append list_update_append)
    moreover have "length N = unat (len - 2)" "unat (len - 2) < unat len"
      using less.prems M True by (simp_all add: unat_minus_2)
    ultimately show ?thesis
      using less.hyps [of "len - 2" N "A @ [y]" "x # B"] True M
      by (subst SwapEndian_loop.simps) simp
  next
    case False
    then have "length M \<le> 1" using less.prems by (simp add: word_less_nat_alt)
    then have "rev M = M" by (cases M) auto
    with False show ?thesis by (subst SwapEndian_loop.simps) simp
  qed
qed

text \<open>
  \<open>SwapEndian_n\<close> reverses the first \<open>Length\<close> bytes in place, for odd lengths as
  well as for the even ones its documentation asks for, and touches nothing else.
\<close>

theorem SwapEndian_n_rev:
  assumes "unat len \<le> length D"
  shows "SwapEndian_n D len = Inr (rev (take (unat len) D) @ drop (unat len) D)"
  using SwapEndian_loop_rev [of "take (unat len) D" len "[]" "drop (unat len) D"] assms
  by (simp add: SwapEndian_n_def)

theorem SwapEndian_n_rev_witness: "SwapEndian_n [1, 2, 3, 4, 5, 6] 5 = Inr [5, 4, 3, 2, 1, 6]"
  using SwapEndian_n_rev [of 5 "[1, 2, 3, 4, 5, 6]"] by simp


section \<open>Conversion for the byte order of the processor\<close>

text \<open>
  The macros that convert between the order of the processor and a fixed one. Those in small
  letters call the functions, those in capitals use the macros for constants.
\<close>

datatype byte_order = ARCH_LITTLE_ENDIAN | ARCH_BIG_ENDIAN

definition le16_to_cpu :: "byte_order \<Rightarrow> u16 \<Rightarrow> fault + u16" where
  "le16_to_cpu arch x = (if arch = ARCH_BIG_ENDIAN then SwapEndian_16 x else Inr x)"

definition le32_to_cpu :: "byte_order \<Rightarrow> u32 \<Rightarrow> fault + u32" where
  "le32_to_cpu arch x = (if arch = ARCH_BIG_ENDIAN then SwapEndian_32 x else Inr x)"

definition be16_to_cpu :: "byte_order \<Rightarrow> u16 \<Rightarrow> fault + u16" where
  "be16_to_cpu arch x = (if arch = ARCH_BIG_ENDIAN then Inr x else SwapEndian_16 x)"

definition be32_to_cpu :: "byte_order \<Rightarrow> u32 \<Rightarrow> fault + u32" where
  "be32_to_cpu arch x = (if arch = ARCH_BIG_ENDIAN then Inr x else SwapEndian_32 x)"

definition cpu_to_le16 :: "byte_order \<Rightarrow> u16 \<Rightarrow> fault + u16" where
  "cpu_to_le16 arch x = (if arch = ARCH_BIG_ENDIAN then SwapEndian_16 x else Inr x)"

definition cpu_to_le32 :: "byte_order \<Rightarrow> u32 \<Rightarrow> fault + u32" where
  "cpu_to_le32 arch x = (if arch = ARCH_BIG_ENDIAN then SwapEndian_32 x else Inr x)"

definition cpu_to_be16 :: "byte_order \<Rightarrow> u16 \<Rightarrow> fault + u16" where
  "cpu_to_be16 arch x = (if arch = ARCH_BIG_ENDIAN then Inr x else SwapEndian_16 x)"

definition cpu_to_be32 :: "byte_order \<Rightarrow> u32 \<Rightarrow> fault + u32" where
  "cpu_to_be32 arch x = (if arch = ARCH_BIG_ENDIAN then Inr x else SwapEndian_32 x)"

definition LE16_TO_CPU :: "byte_order \<Rightarrow> u16 \<Rightarrow> u16" where
  "LE16_TO_CPU arch x = (if arch = ARCH_BIG_ENDIAN then SWAPENDIAN_16 x else x)"

definition LE32_TO_CPU :: "byte_order \<Rightarrow> u32 \<Rightarrow> u32" where
  "LE32_TO_CPU arch x = (if arch = ARCH_BIG_ENDIAN then SWAPENDIAN_32 x else x)"

definition BE16_TO_CPU :: "byte_order \<Rightarrow> u16 \<Rightarrow> u16" where
  "BE16_TO_CPU arch x = (if arch = ARCH_BIG_ENDIAN then x else SWAPENDIAN_16 x)"

definition BE32_TO_CPU :: "byte_order \<Rightarrow> u32 \<Rightarrow> u32" where
  "BE32_TO_CPU arch x = (if arch = ARCH_BIG_ENDIAN then x else SWAPENDIAN_32 x)"

definition CPU_TO_LE16 :: "byte_order \<Rightarrow> u16 \<Rightarrow> u16" where
  "CPU_TO_LE16 arch x = (if arch = ARCH_BIG_ENDIAN then SWAPENDIAN_16 x else x)"

definition CPU_TO_LE32 :: "byte_order \<Rightarrow> u32 \<Rightarrow> u32" where
  "CPU_TO_LE32 arch x = (if arch = ARCH_BIG_ENDIAN then SWAPENDIAN_32 x else x)"

definition CPU_TO_BE16 :: "byte_order \<Rightarrow> u16 \<Rightarrow> u16" where
  "CPU_TO_BE16 arch x = (if arch = ARCH_BIG_ENDIAN then x else SWAPENDIAN_16 x)"

definition CPU_TO_BE32 :: "byte_order \<Rightarrow> u32 \<Rightarrow> u32" where
  "CPU_TO_BE32 arch x = (if arch = ARCH_BIG_ENDIAN then x else SWAPENDIAN_32 x)"

text \<open>The bytes of a value in the memory of a processor.\<close>

definition memory16 :: "byte_order \<Rightarrow> u16 \<Rightarrow> bytes" where
  "memory16 arch w = (if arch = ARCH_BIG_ENDIAN then rev (le16 w) else le16 w)"

definition memory32 :: "byte_order \<Rightarrow> u32 \<Rightarrow> bytes" where
  "memory32 arch v = (if arch = ARCH_BIG_ENDIAN then rev (le32 v) else le32 v)"

lemma le16_SWAPENDIAN: "le16 (SWAPENDIAN_16 w) = rev (le16 w)"
  unfolding SWAPENDIAN_16_eq by (simp add: le16_def [of w] le16_join16)

lemma le32_SWAPENDIAN: "le32 (SWAPENDIAN_32 v) = rev (le32 v)"
proof -
  obtain a b c d where l: "le32 v = [a, b, c, d]" by (simp add: le32_def)
  then show ?thesis unfolding SWAPENDIAN_32_eq using of_le32_cancel [of d c b a] by (simp del: of_le32.simps)
qed

lemma SwapEndian_swaps: "SwapEndian_16 w = Inr (SWAPENDIAN_16 w)" "SwapEndian_32 v = Inr (SWAPENDIAN_32 v)"
  by (simp_all only: SwapEndian_16_eq SwapEndian_32_eq SWAPENDIAN_16_eq SWAPENDIAN_32_eq)

text \<open>
  On every processor a converted value lies in memory in the order the name of the macro
  says: \<open>cpu_to_be32\<close> leaves the most significant byte first, \<open>cpu_to_le32\<close> the least
  significant one.
\<close>

theorem conversion_order:
  "\<exists>w1 w2 v1 v2. cpu_to_le16 arch w = Inr w1 \<and> memory16 arch w1 = le16 w \<and>
     cpu_to_be16 arch w = Inr w2 \<and> memory16 arch w2 = rev (le16 w) \<and>
     cpu_to_le32 arch v = Inr v1 \<and> memory32 arch v1 = le32 v \<and>
     cpu_to_be32 arch v = Inr v2 \<and> memory32 arch v2 = rev (le32 v)"
  by (cases arch)
    (simp_all add: cpu_to_le16_def cpu_to_be16_def cpu_to_le32_def cpu_to_be32_def memory16_def memory32_def
      SwapEndian_swaps le16_SWAPENDIAN le32_SWAPENDIAN)

text \<open>Converting there and back gives the value, and the macros for constants agree with the functions.\<close>

theorem conversion_back:
  "fbind (cpu_to_le16 arch w) (le16_to_cpu arch) = Inr w" "fbind (cpu_to_be16 arch w) (be16_to_cpu arch) = Inr w"
  "fbind (cpu_to_le32 arch v) (le32_to_cpu arch) = Inr v" "fbind (cpu_to_be32 arch v) (be32_to_cpu arch) = Inr v"
  "cpu_to_le16 arch w = Inr (CPU_TO_LE16 arch w)" "cpu_to_be16 arch w = Inr (CPU_TO_BE16 arch w)"
  "cpu_to_le32 arch v = Inr (CPU_TO_LE32 arch v)" "cpu_to_be32 arch v = Inr (CPU_TO_BE32 arch v)"
  "le16_to_cpu arch w = Inr (LE16_TO_CPU arch w)" "be16_to_cpu arch w = Inr (BE16_TO_CPU arch w)"
  "le32_to_cpu arch v = Inr (LE32_TO_CPU arch v)" "be32_to_cpu arch v = Inr (BE32_TO_CPU arch v)"
  by (simp_all add: cpu_to_le16_def cpu_to_be16_def cpu_to_le32_def cpu_to_be32_def
      le16_to_cpu_def be16_to_cpu_def le32_to_cpu_def be32_to_cpu_def CPU_TO_LE16_def CPU_TO_BE16_def CPU_TO_LE32_def CPU_TO_BE32_def
      LE16_TO_CPU_def BE16_TO_CPU_def LE32_TO_CPU_def BE32_TO_CPU_def SwapEndian_swaps SWAPENDIAN_16_twice SWAPENDIAN_32_twice)

end
