(* ===== verification/HidDevice.thy ===== *)
theory HidDevice
  imports EndpointStream
begin

text \<open>
  LUFA's driver for HID devices (\<open>Drivers/USB/Class/Device/HIDClassDevice.c\<close> and the inline
  function of its header), for applications that leave the reports to the library. The
  structure with configuration and state of the interface is an extension of the USB state.
  The device runs at full speed, so the task returns if the frame is not a new one.
  The two callbacks of the application are parameters; those of LUFA's joystick demo
  (\<open>Demos/Device/ClassDriver/Joystick/Joystick.c\<close>) are an instance of their contract.
\<close>

section \<open>Model\<close>

text \<open>\<open>PrevReportINBuffer\<close> is a pointer, null or to a buffer.\<close>

record HID_Config =
  InterfaceNumber :: u8
  ReportINEndpoint :: USB_Endpoint_Table_t
  PrevReportINBuffer :: "bytes option"
  PrevReportINBufferSize :: u8

record HID_State =
  UsingReportProtocol :: bool
  PrevFrameNum :: u16
  IdleCount :: u16
  IdleMSRemaining :: u16

record hid_usb = usb +
  hid_Config :: HID_Config
  hid_State :: HID_State

text \<open>
  \<open>CALLBACK_HID_Device_CreateHIDReport\<close> gets the report identifier, the type and the buffer and
  gives its result, the identifier, the buffer and the size of the report. To
  \<open>CALLBACK_HID_Device_ProcessHIDReport\<close> go identifier, type, the memory from the pointer to the
  end of its array, and the size.
\<close>

record 's hid_application =
  CreateHIDReport :: "u8 \<Rightarrow> u8 \<Rightarrow> bytes \<Rightarrow> 's \<Rightarrow> (bool \<times> u8 \<times> bytes \<times> u16 \<times> 's) outcome"
  ProcessHIDReport :: "u8 \<Rightarrow> u8 \<Rightarrow> bytes \<Rightarrow> u16 \<Rightarrow> 's \<Rightarrow> 's outcome"

abbreviation (input) HID_REQ_GetReport :: u8 where "HID_REQ_GetReport \<equiv> 0x01"
abbreviation (input) HID_REQ_GetIdle :: u8 where "HID_REQ_GetIdle \<equiv> 0x02"
abbreviation (input) HID_REQ_GetProtocol :: u8 where "HID_REQ_GetProtocol \<equiv> 0x03"
abbreviation (input) HID_REQ_SetReport :: u8 where "HID_REQ_SetReport \<equiv> 0x09"
abbreviation (input) HID_REQ_Set_Idle :: u8 where "HID_REQ_Set_Idle \<equiv> 0x0A"
abbreviation (input) HID_REQ_SetProtocol :: u8 where "HID_REQ_SetProtocol \<equiv> 0x0B"
abbreviation (input) HID_REPORT_ITEM_In :: u8 where "HID_REPORT_ITEM_In \<equiv> 0"

definition update_State :: "(HID_State \<Rightarrow> HID_State) \<Rightarrow> 'a hid_usb_scheme \<Rightarrow> 'a hid_usb_scheme" where
  "update_State f s = s\<lparr>hid_State := f (hid_State s)\<rparr>"

text \<open>\<open>memcpy (PrevReportINBuffer, data, PrevReportINBufferSize)\<close> unless the pointer is null.\<close>

definition keep_report :: "bytes \<Rightarrow> 'a hid_usb_scheme \<Rightarrow> 'a hid_usb_scheme outcome" where
  "keep_report ReportData s =
     (case PrevReportINBuffer (hid_Config s) of
        None \<Rightarrow> Some (Inr s)
      | Some buf \<Rightarrow>
          Some (fbind (memcpy buf 0 ReportData (unat (PrevReportINBufferSize (hid_Config s)))) (\<lambda>buf.
            Inr (s\<lparr>hid_Config := (hid_Config s)\<lparr>PrevReportINBuffer := Some buf\<rparr>\<rparr>))))"

definition hid_GetReport ::
  "environment \<Rightarrow> 'a hid_usb_scheme hid_application \<Rightarrow> 'a hid_usb_scheme \<Rightarrow> 'a hid_usb_scheme outcome" where
  "hid_GetReport E cb s =
     (let ReportID = ucast (wValue (USB_ControlRequest s) AND 0xFF);
          ReportType = ucast (drop_bit 8 (wValue (USB_ControlRequest s))) - 1;
          ReportData = replicate (unat (PrevReportINBufferSize (hid_Config s))) 0
      in obind (CreateHIDReport cb ReportID ReportType ReportData s) (\<lambda>(_, ReportID, ReportData, ReportSize, s).
         obind (keep_report ReportData s) (\<lambda>s.
         let s = Endpoint_SelectEndpoint ENDPOINT_CONTROLEP s;
             s = Endpoint_ClearSETUP E s;
             s = (if ReportID \<noteq> 0 then Endpoint_Write_8 ReportID s else s)
         in obind (Endpoint_Write_Control_Stream_LE E ReportData ReportSize s) (\<lambda>(_, s).
            Some (Inr (Endpoint_ClearOUT E s))))))"

text \<open>The array on the stack has indeterminate bytes \<open>junk\<close> before it is filled.\<close>

definition hid_SetReport ::
  "environment \<Rightarrow> 'a hid_usb_scheme hid_application \<Rightarrow> (nat \<Rightarrow> u8) \<Rightarrow> 'a hid_usb_scheme \<Rightarrow> 'a hid_usb_scheme outcome" where
  "hid_SetReport E cb junk s =
     (let ReportSize = wLength (USB_ControlRequest s);
          ReportID = ucast (wValue (USB_ControlRequest s) AND 0xFF) :: u8;
          ReportType = ucast (drop_bit 8 (wValue (USB_ControlRequest s))) - 1;
          ReportData = map junk [0..<unat ReportSize];
          s = Endpoint_ClearSETUP E s
      in obind (Endpoint_Read_Control_Stream_LE E ReportData ReportSize s) (\<lambda>(_, ReportData, s).
         let s = Endpoint_ClearIN E s in
         ProcessHIDReport cb ReportID ReportType (drop (if ReportID \<noteq> 0 then 1 else 0) ReportData)
           (ReportSize - (if ReportID \<noteq> 0 then 1 else 0)) s))"

text \<open>\<open>while (!(Endpoint_IsINReady()));\<close>, then one byte and the status stage.\<close>

definition hid_answer :: "environment \<Rightarrow> u8 \<Rightarrow> 'a hid_usb_scheme \<Rightarrow> 'a hid_usb_scheme outcome" where
  "hid_answer E b s =
     (let s = Endpoint_ClearSETUP E s in
      obind (returns (wait_bit E UEINTX TXINI s)) (\<lambda>s.
      let s = Endpoint_Write_8 b s;
          s = Endpoint_ClearIN E s
      in Endpoint_ClearStatusStage E s))"

definition HID_Device_ProcessControlRequest ::
  "environment \<Rightarrow> 'a hid_usb_scheme hid_application \<Rightarrow> (nat \<Rightarrow> u8) \<Rightarrow> 'a hid_usb_scheme \<Rightarrow> 'a hid_usb_scheme outcome" where
  "HID_Device_ProcessControlRequest E cb junk s =
     (let (setup, s) = Endpoint_IsSETUPReceived E s in
      if \<not> setup then Some (Inr s) else
      if wIndex (USB_ControlRequest s) \<noteq> ucast (InterfaceNumber (hid_Config s)) then Some (Inr s) else
      let req = bRequest (USB_ControlRequest s);
          to_host = bmRequestType (USB_ControlRequest s) = REQDIR_DEVICETOHOST OR REQTYPE_CLASS OR REQREC_INTERFACE;
          to_device = bmRequestType (USB_ControlRequest s) = REQDIR_HOSTTODEVICE OR REQTYPE_CLASS OR REQREC_INTERFACE
      in if req = HID_REQ_GetReport then
           if to_host then hid_GetReport E cb s else Some (Inr s)
         else if req = HID_REQ_SetReport then
           if to_device then hid_SetReport E cb junk s else Some (Inr s)
         else if req = HID_REQ_GetProtocol then
           if to_host then hid_answer E (of_bool (UsingReportProtocol (hid_State s))) s else Some (Inr s)
         else if req = HID_REQ_SetProtocol then
           if to_device then
             obind (Endpoint_ClearStatusStage E (Endpoint_ClearSETUP E s)) (\<lambda>s.
             Some (Inr (update_State (\<lambda>h. h\<lparr>UsingReportProtocol := wValue (USB_ControlRequest s) AND 0xFF \<noteq> 0\<rparr>) s)))
           else Some (Inr s)
         else if req = HID_REQ_Set_Idle then
           if to_device then
             obind (Endpoint_ClearStatusStage E (Endpoint_ClearSETUP E s)) (\<lambda>s.
             Some (Inr (update_State (\<lambda>h. h\<lparr>IdleCount := drop_bit 6 (wValue (USB_ControlRequest s) AND 0xFF00)\<rparr>) s)))
           else Some (Inr s)
         else if req = HID_REQ_GetIdle then
           if to_host then hid_answer E (ucast (drop_bit 2 (IdleCount (hid_State s)))) s else Some (Inr s)
         else Some (Inr s))"

definition HID_Device_ConfigureEndpoints ::
  "environment \<Rightarrow> 'a hid_usb_scheme \<Rightarrow> (bool \<times> 'a hid_usb_scheme) option" where
  "HID_Device_ConfigureEndpoints E s =
     (let s = s\<lparr>hid_State := \<lparr>UsingReportProtocol = True, PrevFrameNum = 0, IdleCount = 500, IdleMSRemaining = 0\<rparr>\<rparr>;
          s = s\<lparr>hid_Config := (hid_Config s)\<lparr>ReportINEndpoint := (ReportINEndpoint (hid_Config s))\<lparr>ep_Type := EP_TYPE_INTERRUPT\<rparr>\<rparr>\<rparr>
      in Endpoint_ConfigureEndpointTable E [ReportINEndpoint (hid_Config s)] s)"

text \<open>\<open>memcmp\<close> of the new report with the previous one.\<close>

definition report_changed :: "bytes \<Rightarrow> u16 \<Rightarrow> bytes \<Rightarrow> fault + bool" where
  "report_changed ReportINData ReportINSize buf =
     (if unat ReportINSize \<le> length ReportINData \<and> unat ReportINSize \<le> length buf
      then Inr (take (unat ReportINSize) ReportINData \<noteq> take (unat ReportINSize) buf)
      else Inl OutOfBounds)"

definition states_changed :: "bytes \<Rightarrow> u16 \<Rightarrow> 'a hid_usb_scheme \<Rightarrow> (bool \<times> 'a hid_usb_scheme) outcome" where
  "states_changed ReportINData ReportINSize s =
     (case PrevReportINBuffer (hid_Config s) of
        None \<Rightarrow> Some (Inr (False, s))
      | Some buf \<Rightarrow>
          obind (Some (report_changed ReportINData ReportINSize buf)) (\<lambda>changed.
          obind (keep_report ReportINData s) (\<lambda>s. Some (Inr (changed, s)))))"

definition send_report ::
  "environment \<Rightarrow> 'a hid_usb_scheme application \<Rightarrow> u8 \<Rightarrow> bytes \<Rightarrow> u16 \<Rightarrow> 'a hid_usb_scheme \<Rightarrow> 'a hid_usb_scheme outcome" where
  "send_report E app ReportID ReportINData ReportINSize s =
     (let s = update_State (\<lambda>h. h\<lparr>IdleMSRemaining := IdleCount h\<rparr>) s;
          s = Endpoint_SelectEndpoint (ep_Address (ReportINEndpoint (hid_Config s))) s;
          s = (if ReportID \<noteq> 0 then Endpoint_Write_8 ReportID s else s)
      in obind (Endpoint_Write_Stream_LE E app ReportINData ReportINSize None s) (\<lambda>(_, _, _, s).
         Some (Inr (Endpoint_ClearIN E s))))"

definition HID_Device_USBTask ::
  "environment \<Rightarrow> 'a hid_usb_scheme application \<Rightarrow> 'a hid_usb_scheme hid_application \<Rightarrow> 'a hid_usb_scheme \<Rightarrow>
   'a hid_usb_scheme outcome" where
  "HID_Device_USBTask E app cb s =
     (let (d, s) = read_DeviceState E s in
      if d \<noteq> DEVICE_STATE_Configured then Some (Inr s) else
      let (frame, s) = USB_Device_GetFrameNumber E s in
      if PrevFrameNum (hid_State s) = frame then Some (Inr s) else
      let s = Endpoint_SelectEndpoint (ep_Address (ReportINEndpoint (hid_Config s))) s;
          (allowed, s) = Endpoint_IsReadWriteAllowed E s
      in if \<not> allowed then Some (Inr s) else
         let ReportINData = replicate (unat (PrevReportINBufferSize (hid_Config s))) 0 in
         obind (CreateHIDReport cb 0 HID_REPORT_ITEM_In ReportINData s) (\<lambda>(ForceSend, ReportID, ReportINData, ReportINSize, s).
         let IdlePeriodElapsed = IdleCount (hid_State s) \<noteq> 0 \<and> IdleMSRemaining (hid_State s) = 0 in
         obind (states_changed ReportINData ReportINSize s) (\<lambda>(StatesChanged, s).
         obind (if ReportINSize \<noteq> 0 \<and> (ForceSend \<or> StatesChanged \<or> IdlePeriodElapsed)
                then send_report E app ReportID ReportINData ReportINSize s else Some (Inr s)) (\<lambda>s.
         let (frame, s) = USB_Device_GetFrameNumber E s in
         Some (Inr (update_State (\<lambda>h. h\<lparr>PrevFrameNum := frame\<rparr>) s))))))"

definition HID_Device_MillisecondElapsed :: "'a hid_usb_scheme \<Rightarrow> 'a hid_usb_scheme" where
  "HID_Device_MillisecondElapsed s =
     (if IdleMSRemaining (hid_State s) \<noteq> 0
      then update_State (\<lambda>h. h\<lparr>IdleMSRemaining := IdleMSRemaining h - 1\<rparr>) s else s)"

section \<open>The callbacks of the joystick demo\<close>

text \<open>What \<open>Joystick_GetStatus\<close> and \<open>Buttons_GetStatus\<close> of the board report, at any moment.\<close>

record demo_board =
  joy_up :: "io list \<Rightarrow> bool"
  joy_down :: "io list \<Rightarrow> bool"
  joy_left :: "io list \<Rightarrow> bool"
  joy_right :: "io list \<Rightarrow> bool"
  joy_press :: "io list \<Rightarrow> bool"
  button1 :: "io list \<Rightarrow> bool"

text \<open>The report has four bytes: X, Y, Z and the buttons.\<close>

definition demo_CreateHIDReport ::
  "demo_board \<Rightarrow> u8 \<Rightarrow> u8 \<Rightarrow> bytes \<Rightarrow> 'a hid_usb_scheme \<Rightarrow> (bool \<times> u8 \<times> bytes \<times> u16 \<times> 'a hid_usb_scheme) outcome" where
  "demo_CreateHIDReport B ReportID ReportType ReportData s =
     (let l = io_log s;
          set = (\<lambda>i v D. store D i v);
          press = (\<lambda>b D. fbind (load D 3) (\<lambda>v. store D 3 (v OR b)))
      in Some (
         fbind (if joy_up B l then set 1 (- 100) ReportData else if joy_down B l then set 1 100 ReportData else Inr ReportData) (\<lambda>D.
         fbind (if joy_left B l then set 0 (- 100) D else if joy_right B l then set 0 100 D else Inr D) (\<lambda>D.
         fbind (if joy_press B l then press 2 D else Inr D) (\<lambda>D.
         fbind (if button1 B l then press 1 D else Inr D) (\<lambda>D.
         Inr (False, ReportID, D, 4, s)))))))"

definition demo_ProcessHIDReport :: "u8 \<Rightarrow> u8 \<Rightarrow> bytes \<Rightarrow> u16 \<Rightarrow> 'a hid_usb_scheme \<Rightarrow> 'a hid_usb_scheme outcome" where
  "demo_ProcessHIDReport ReportID ReportType ReportData ReportSize s = Some (Inr s)"

definition demo_callbacks :: "demo_board \<Rightarrow> 'a hid_usb_scheme hid_application" where
  "demo_callbacks B = \<lparr>CreateHIDReport = demo_CreateHIDReport B, ProcessHIDReport = demo_ProcessHIDReport\<rparr>"


section \<open>A control read stays in its buffer\<close>

definition R_view :: "bytes \<times> 'a usb_scheme \<Rightarrow> nat \<times> 'a" where
  "R_view = (\<lambda>(buf, s). (length buf, usb.more s))"

lemma R_view_simp [simp]: "R_view (buf, s) = (length buf, usb.more s)"
  by (simp add: R_view_def)

lemma control_drain_in:
  "i + n \<le> length buf \<Longrightarrow>
   \<exists>i' n' buf' s'. control_drain E (\<lambda>i. i) i n buf s = Inr (i', n', buf', s') \<and> i' + n' = i + n \<and>
     R_view (buf', s') = R_view (buf, s)"
proof (induction n arbitrary: i buf s)
  case (Suc n)
  let ?s = "snd (Endpoint_BytesInEndpoint E s)"
  let ?b = "fst (Endpoint_Read_8 E ?s)" and ?t = "snd (Endpoint_Read_8 E ?s)"
  have more: "usb.more ?s = usb.more s" "usb.more ?t = usb.more s" by (simp_all add: request_simps)
  show ?case
  proof (cases "fst (Endpoint_BytesInEndpoint E s) = 0")
    case True
    with more show ?thesis by (simp add: split_def)
  next
    case False
    with Suc.prems have "control_drain E (\<lambda>i. i) i (Suc n) buf s = control_drain E (\<lambda>i. i) (Suc i) n (buf[i := ?b]) ?t"
      by (simp add: split_def store_def Let_def)
    with Suc.IH [of "Suc i" "buf[i := ?b]" ?t] Suc.prems more show ?thesis by auto
  qed
qed simp

lemma control_drain_safe: "i + n \<le> length buf \<Longrightarrow> control_drain E (\<lambda>i. i) i n buf s \<noteq> Inl e"
  using control_drain_in [of i n buf E s] by auto

lemma control_drain_result:
  "control_drain E (\<lambda>i. i) i n buf s = Inr (i', n', buf', s') \<Longrightarrow> i + n \<le> length buf \<Longrightarrow>
   i' + n' = i + n \<and> length buf' = length buf \<and> usb.more s' = usb.more s"
  using control_drain_in [of i n buf E s] by auto

lemma calm_Read_Control_Stream_LE:
  assumes "unat Length \<le> length buf"
  shows "calm (R_view \<circ> snd) (R_view (buf, s)) (Endpoint_Read_Control_Stream_LE E buf Length s)"
proof -
  let ?v = "R_view (buf, s)" and ?step = "control_R_step E (\<lambda>i. i)"
  have data: "calm (R_view \<circ> snd) ?v (turn_loop ?step (0, unat Length) (buf, t))" if t: "usb.more t = usb.more s" for t
  proof (rule calm_turn_loop_inv [where I = "\<lambda>(i, n). i + n \<le> length buf"])
    fix c x d y assume c: "case c of (i, n) \<Rightarrow> i + n \<le> length buf" and x: "R_view x = ?v"
    obtain i n b u where cx: "c = (i, n)" "x = (b, u)" by (cases c, cases x) auto
    with c x show "calm (R_view \<circ> snd) ?v (?step c x)"
      by (auto simp: control_R_step_def split_def request_simps fbind_def control_drain_safe dest: control_drain_result split: sum.split)
    assume "?step c x = Some (Inr (Again d, y))"
    with c x cx show "case d of (i, n) \<Rightarrow> i + n \<le> length buf"
      by (auto simp: control_R_step_def split_def Let_def fbind_eq_Inr dest: control_drain_result split: if_splits)
  qed (use assms that in simp_all)
  have status: "calm (R_view \<circ> snd) ?v (turn_loop (control_R_status_step E) () x)" if "R_view x = ?v" for x
    by (rule calm_turn_loop) (use that in \<open>auto simp: control_R_status_step_def R_view_def split_def request_simps\<close>)
  show ?thesis
    unfolding Endpoint_Read_Control_Stream_LE_def Template_Endpoint_Control_R_def Let_def
    by (intro calm_after_loop data) (use status in \<open>auto intro!: calm_after_loop simp: request_simps\<close>)
qed


section \<open>The contract of the callbacks\<close>

text \<open>
  \<open>CreateHIDReport\<close> fills a buffer that has room for the largest report, keeps to it and leaves
  the configuration of the interface alone; \<open>ProcessHIDReport\<close> may read the bytes it is told of.
\<close>

locale hid_callbacks =
  fixes cb :: "'a hid_usb_scheme hid_application" and largest :: nat
  assumes create: "largest \<le> length D \<Longrightarrow>
      \<exists>force i' D' n s'. CreateHIDReport cb i ty D s = Some (Inr (force, i', D', n, s')) \<and>
        length D' = length D \<and> unat n \<le> largest \<and> hid_Config s' = hid_Config s"
    and process: "unat n \<le> length D \<Longrightarrow> ProcessHIDReport cb i ty D n s \<noteq> Some (Inl e)"

text \<open>A configuration whose buffers have room for the largest report.\<close>

definition config_fits :: "nat \<Rightarrow> HID_Config \<Rightarrow> bool" where
  "config_fits largest c \<longleftrightarrow>
     largest \<le> unat (PrevReportINBufferSize c) \<and>
     (case PrevReportINBuffer c of None \<Rightarrow> True | Some buf \<Rightarrow> unat (PrevReportINBufferSize c) \<le> length buf)"

lemma keep_report_in:
  assumes "config_fits k (hid_Config s)" "length D = unat (PrevReportINBufferSize (hid_Config s))"
  shows "keep_report D s \<noteq> Some (Inl e)"
  using assms by (auto simp: keep_report_def config_fits_def memcpy_def split: option.splits)

lemma hid_answer_safe: "hid_answer E b s \<noteq> Some (Inl e)"
proof -
  have "Endpoint_ClearStatusStage E t \<noteq> Some (Inl e)" for t :: "'a hid_usb_scheme"
    using calm_ClearStatusStage [of t E] by (auto simp: calm_iff)
  then show ?thesis by (auto simp: hid_answer_def obind_eq_Some returns_eq_Some Let_def)
qed

lemma hid_fields_event [simp]:
  "hid_Config (event e s) = hid_Config s" "hid_State (event e s) = hid_State s"
  by (simp_all add: event_def)

lemma hid_fields_wr [simp]:
  "hid_Config (wr r v s) = hid_Config s" "hid_State (wr r v s) = hid_State s"
  by (simp_all add: wr_def)

lemma hid_fields_read_DeviceState [simp]:
  "hid_Config (snd (read_DeviceState E s)) = hid_Config s" "hid_State (snd (read_DeviceState E s)) = hid_State s"
  by (simp_all add: read_DeviceState_def Let_def)

lemma low_byte_zero: "(ucast (w :: u16) :: u8) = 0 \<longleftrightarrow> w AND 0xFF = 0"
proof -
  have "w AND 0xFF = take_bit 8 w" by (simp add: take_bit_eq_mask mask_eq_exp_minus_1)
  moreover have "(ucast w :: u8) = 0 \<longleftrightarrow> take_bit 8 w = 0"
    by transfer (simp add: take_bit_take_bit)
  ultimately show ?thesis by simp
qed

lemma unat_pred: "(w :: u16) \<noteq> 0 \<Longrightarrow> unat (w - 1) = unat w - 1 \<and> 1 \<le> unat w"
  by (simp add: unat_sub word_le_nat_alt Suc_le_eq unat_gt_0)

text \<open>The host asks to set a report with an identifier, but sends no data.\<close>

definition empty_set_report :: "USB_Request_Header_t \<Rightarrow> bool" where
  "empty_set_report r \<longleftrightarrow> bRequest r = HID_REQ_SetReport \<and> wLength r = 0 \<and> wValue r AND 0xFF \<noteq> 0"

context hid_callbacks
begin

lemma GetReport_safe:
  assumes "config_fits largest (hid_Config s)"
  shows "hid_GetReport E cb s \<noteq> Some (Inl e)"
proof -
  let ?n = "unat (PrevReportINBufferSize (hid_Config s))"
  have size: "largest \<le> length (replicate ?n (0 :: u8))" using assms by (simp add: config_fits_def)
  let ?i = "ucast (wValue (USB_ControlRequest s) AND 0xFF) :: u8" and ?t = "ucast (drop_bit 8 (wValue (USB_ControlRequest s))) - 1 :: u8"
  from create [OF size, of ?i ?t s] obtain force i' D n s' where
    c: "CreateHIDReport cb ?i ?t (replicate ?n 0) s = Some (Inr (force, i', D, n, s'))" "length D = ?n" "unat n \<le> largest" "hid_Config s' = hid_Config s"
    by auto
  have "keep_report D s' \<noteq> Some (Inl e)" for e
    using keep_report_in [of largest s' D] assms c(2,4) by simp
  moreover have "Endpoint_Write_Control_Stream_LE E D n t \<noteq> Some (Inl e)" for t :: "'a hid_usb_scheme" and e
    using control_W_safe [of n "load D" E t] c(2,3) size unfolding Endpoint_Write_Control_Stream_LE_def by (auto simp: load_def)
  ultimately show ?thesis unfolding hid_GetReport_def Let_def c(1) by (auto simp: obind_eq_Some)
qed

lemma SetReport_safe:
  assumes "wLength (USB_ControlRequest s) \<noteq> 0 \<or> wValue (USB_ControlRequest s) AND 0xFF = 0"
  shows "hid_SetReport E cb junk s \<noteq> Some (Inl e)"
proof -
  let ?L = "wLength (USB_ControlRequest s)"
  let ?id = "(ucast (wValue (USB_ControlRequest s) AND 0xFF) :: u8) \<noteq> 0"
  have k: "unat (?L - (if ?id then 1 else 0)) \<le> unat ?L - (if ?id then 1 else 0)"
    using assms unat_pred [of ?L] by (cases "?L = 0") (simp_all add: low_byte_zero)
  have "calm (R_view \<circ> snd) (unat ?L, usb.more t) (Endpoint_Read_Control_Stream_LE E (map junk [0..<unat ?L]) ?L t)"
    for t :: "'a hid_usb_scheme" using calm_Read_Control_Stream_LE [of ?L "map junk [0..<unat ?L]" t E] by simp
  then show ?thesis
    unfolding hid_SetReport_def Let_def calm_iff
    using process k by (fastforce simp: obind_eq_Some R_view_def split: if_splits)
qed

theorem control_requests_safe:
  assumes "config_fits largest (hid_Config s)" "\<not> empty_set_report (USB_ControlRequest s)"
  shows "HID_Device_ProcessControlRequest E cb junk s \<noteq> Some (Inl e)"
proof -
  let ?s = "snd (Endpoint_IsSETUPReceived E s)"
  have same: "hid_Config ?s = hid_Config s" "USB_ControlRequest ?s = USB_ControlRequest s"
    by (simp_all add: request_simps)
  have status: "Endpoint_ClearStatusStage E t \<noteq> Some (Inl e)" for t :: "'a hid_usb_scheme"
    using calm_ClearStatusStage [of t E] by (auto simp: calm_iff)
  show ?thesis
    using assms GetReport_safe [of ?s E e] SetReport_safe [of ?s E junk e] hid_answer_safe status
    unfolding HID_Device_ProcessControlRequest_def Let_def split_def
    by (auto simp: same empty_set_report_def obind_eq_Some)
qed

end


section \<open>The joystick demo keeps the contract\<close>

definition demo_report :: "demo_board \<Rightarrow> io list \<Rightarrow> nat \<Rightarrow> bytes" where
  "demo_report B l n =
     [if joy_left B l then - 100 else if joy_right B l then 100 else 0,
      if joy_up B l then - 100 else if joy_down B l then 100 else 0, 0,
      (if joy_press B l then 2 else 0) OR (if button1 B l then 1 else 0)] @ replicate (n - 4) 0"

lemma demo_create:
  assumes "4 \<le> n"
  shows "demo_CreateHIDReport B i ty (replicate n 0) s = Some (Inr (False, i, demo_report B (io_log s) n, 4, s))"
proof -
  from assms obtain m where "n = 4 + m" using le_Suc_ex by blast
  then have "replicate n (0 :: u8) = 0 # 0 # 0 # 0 # replicate (n - 4) 0" by (simp add: eval_nat_numeral)
  then show ?thesis by (simp add: demo_CreateHIDReport_def demo_report_def Let_def store_def load_def)
qed


interpretation demo: hid_callbacks "demo_callbacks B" 4 for B :: demo_board
proof unfold_locales
  fix D :: bytes and i ty :: u8 and s :: "'a hid_usb_scheme"
  assume "4 \<le> length D"
  then have len: "\<exists>D'. store C j v = Inr D' \<and> length D' = length D"
    "\<exists>D'. fbind (load C 3) (\<lambda>w. store C 3 (w OR v)) = Inr D' \<and> length D' = length D"
    if "length C = length D" "j < 4" for C :: bytes and j v
    using that by (simp_all add: store_def load_def)
  let ?l = "io_log s"
  have "\<exists>C. (if joy_up B ?l then store D 1 (- 100) else if joy_down B ?l then store D 1 100 else Inr D) = Inr C \<and> length C = length D"
    using len(1) [of D 1 "- 100"] len(1) [of D 1 100] by auto
  then obtain D1 where 1: "(if joy_up B ?l then store D 1 (- 100) else if joy_down B ?l then store D 1 100 else Inr D) = Inr D1"
    "length D1 = length D" by blast
  have "\<exists>C. (if joy_left B ?l then store D1 0 (- 100) else if joy_right B ?l then store D1 0 100 else Inr D1) = Inr C \<and> length C = length D"
    using len(1) [of D1 0 "- 100"] len(1) [of D1 0 100] 1(2) by auto
  then obtain D2 where 2: "(if joy_left B ?l then store D1 0 (- 100) else if joy_right B ?l then store D1 0 100 else Inr D1) = Inr D2"
    "length D2 = length D" by blast
  have "\<exists>C. (if joy_press B ?l then fbind (load D2 3) (\<lambda>v. store D2 3 (v OR 2)) else Inr D2) = Inr C \<and> length C = length D"
    using len(2) [of D2 0 2] 2(2) by auto
  then obtain D3 where 3: "(if joy_press B ?l then fbind (load D2 3) (\<lambda>v. store D2 3 (v OR 2)) else Inr D2) = Inr D3"
    "length D3 = length D" by blast
  have "\<exists>C. (if button1 B ?l then fbind (load D3 3) (\<lambda>v. store D3 3 (v OR 1)) else Inr D3) = Inr C \<and> length C = length D"
    using len(2) [of D3 0 1] 3(2) by auto
  then obtain D4 where 4: "(if button1 B ?l then fbind (load D3 3) (\<lambda>v. store D3 3 (v OR 1)) else Inr D3) = Inr D4"
    "length D4 = length D" by blast
  have "CreateHIDReport (demo_callbacks B) i ty D s = Some (Inr (False, i, D4, 4, s))"
    unfolding demo_callbacks_def demo_CreateHIDReport_def hid_application.simps Let_def 1(1) fbind_Inr 2(1) 3(1) 4(1) ..
  with 4(2) show "\<exists>force i' D' n s'. CreateHIDReport (demo_callbacks B) i ty D s = Some (Inr (force, i', D', n, s')) \<and>
        length D' = length D \<and> unat n \<le> 4 \<and> hid_Config s' = hid_Config s" by auto
qed (simp add: demo_callbacks_def demo_ProcessHIDReport_def)


text \<open>The interface of the demo, asked for its idle rate, with the fire button held down.\<close>

definition demo_state :: "u16 \<Rightarrow> hid_usb" where
  "demo_state remaining = \<lparr>io_log = [], USB_DeviceState = DEVICE_STATE_Configured,
     USB_ControlRequest = \<lparr>bmRequestType = 0xA1, bRequest = HID_REQ_GetIdle, wValue = 0, wIndex = 0, wLength = 1\<rparr>,
     USB_Device_ConfigurationNumber = 1, USB_Device_CurrentlySelfPowered = False,
     USB_Device_RemoteWakeupEnabled = False, USB_IsInitialized = True,
     hid_Config = \<lparr>InterfaceNumber = 0, ReportINEndpoint = \<lparr>ep_Address = 0x81, ep_Size = 8, ep_Type = 3, ep_Banks = 1\<rparr>,
       PrevReportINBuffer = Some [0, 0, 0, 1], PrevReportINBufferSize = 4\<rparr>,
     hid_State = \<lparr>UsingReportProtocol = True, PrevFrameNum = 0, IdleCount = 500, IdleMSRemaining = remaining\<rparr>\<rparr>"

definition fire_held :: demo_board where
  "fire_held = \<lparr>joy_up = \<lambda>_. False, joy_down = \<lambda>_. False, joy_left = \<lambda>_. False, joy_right = \<lambda>_. False,
     joy_press = \<lambda>_. False, button1 = \<lambda>_. True\<rparr>"

definition demo_host :: environment where
  "demo_host = \<lparr>reg_value = \<lambda>_ _. 0xFF, frame_number = \<lambda>_. 7, isr_state = \<lambda>_. None, data_mem = \<lambda>_. 0, signature_byte = \<lambda>_. 0\<rparr>"

text \<open>
  C40. The control requests of a HID device never leave a buffer: whatever the host asks for,
  and whenever it breaks a transfer off, the driver with the callbacks of LUFA's joystick
  demo does not fault, if the buffers of the interface have room for the report of four
  bytes. The one exception is a request to set a report that has an identifier but no data.
\<close>

theorem hid_requests_safe:
  assumes "config_fits 4 (hid_Config s)" "\<not> empty_set_report (USB_ControlRequest s)"
  shows "HID_Device_ProcessControlRequest E (demo_callbacks B) junk s \<noteq> Some (Inl e)"
  using assms by (rule demo.control_requests_safe)

theorem hid_requests_safe_witness:
  "HID_Device_ProcessControlRequest demo_host (demo_callbacks fire_held) (\<lambda>_. 0xAA) (demo_state 0) \<noteq> Some (Inl OutOfBounds)"
  by (rule hid_requests_safe) (simp_all add: demo_state_def config_fits_def empty_set_report_def)

text \<open>
  In that exception the callback is told that 65535 bytes are there, behind the end of an
  array without elements.
\<close>

theorem empty_set_report_overrun:
  assumes "empty_set_report (USB_ControlRequest s)" "hid_SetReport E cb junk s = Some (Inr t)"
  shows "\<exists>u. ProcessHIDReport cb (ucast (wValue (USB_ControlRequest s) AND 0xFF))
    (ucast (drop_bit 8 (wValue (USB_ControlRequest s))) - 1) [] 0xFFFF u = Some (Inr t)"
proof -
  have id: "(ucast (wValue (USB_ControlRequest s) AND 0xFF) :: u8) \<noteq> 0" and L: "wLength (USB_ControlRequest s) = 0"
    using assms(1) by (simp_all add: empty_set_report_def low_byte_zero)
  have m1: "(- 1 :: u16) = 0xFFFF" by simp
  from assms(2) obtain r D u where read: "Endpoint_Read_Control_Stream_LE E [] 0 (Endpoint_ClearSETUP E s) = Some (Inr (r, D, u))"
    and run: "ProcessHIDReport cb (ucast (wValue (USB_ControlRequest s) AND 0xFF))
      (ucast (drop_bit 8 (wValue (USB_ControlRequest s))) - 1) (drop 1 D) 0xFFFF (Endpoint_ClearIN E u) = Some (Inr t)"
    unfolding hid_SetReport_def Let_def L using id by (auto simp: obind_eq_Some m1)
  have "calm (R_view \<circ> snd) (0, usb.more (Endpoint_ClearSETUP E s)) (Endpoint_Read_Control_Stream_LE E [] 0 (Endpoint_ClearSETUP E s))"
    using calm_Read_Control_Stream_LE [of 0 "[]" "Endpoint_ClearSETUP E s" E] by simp
  with read have "D = []" by (simp add: R_view_def)
  with run show ?thesis by auto
qed


section \<open>When the task sends a report\<close>

text \<open>What the report of the demo is compared with, and when one is due.\<close>

definition report_new :: "bytes \<Rightarrow> HID_Config \<Rightarrow> bool" where
  "report_new R c \<longleftrightarrow> (case PrevReportINBuffer c of None \<Rightarrow> False | Some buf \<Rightarrow> R \<noteq> take (length R) buf)"

definition report_due :: "bytes \<Rightarrow> 'a hid_usb_scheme \<Rightarrow> bool" where
  "report_due R s \<longleftrightarrow> report_new R (hid_Config s) \<or> IdleCount (hid_State s) \<noteq> 0 \<and> IdleMSRemaining (hid_State s) = 0"

text \<open>The state in which the task asks the application for a report.\<close>

definition task_asks :: "environment \<Rightarrow> 'a hid_usb_scheme \<Rightarrow> 'a hid_usb_scheme" where
  "task_asks E s = snd (Endpoint_IsReadWriteAllowed E (Endpoint_SelectEndpoint (ep_Address (ReportINEndpoint (hid_Config s)))
     (snd (USB_Device_GetFrameNumber E (snd (read_DeviceState E s))))))"

lemma length_demo_report: "4 \<le> n \<Longrightarrow> length (demo_report B l n) = n"
  by (simp add: demo_report_def)

lemma take_demo_report: "4 \<le> n \<Longrightarrow> take 4 (demo_report B l n) = demo_report B l 4"
  by (simp add: demo_report_def)

lemma states_changed_demo:
  assumes "config_fits 4 (hid_Config s)"
  obtains c where "states_changed (demo_report B l (unat (PrevReportINBufferSize (hid_Config s)))) 4 s =
      Some (Inr (report_new (demo_report B l 4) (hid_Config s), s\<lparr>hid_Config := c\<rparr>))"
    "ReportINEndpoint c = ReportINEndpoint (hid_Config s)" "\<not> report_new (demo_report B l 4) c"
proof (cases "PrevReportINBuffer (hid_Config s)")
  case None
  then show thesis using that [of "hid_Config s"] by (simp add: states_changed_def report_new_def)
next
  case (Some buf)
  let ?n = "unat (PrevReportINBufferSize (hid_Config s))"
  let ?D = "demo_report B l ?n"
  have n: "4 \<le> ?n" "?n \<le> length buf" using assms Some by (simp_all add: config_fits_def)
  have m: "memcpy buf 0 ?D ?n = Inr (?D @ drop ?n buf)"
    using n by (simp add: memcpy_def length_demo_report)
  have k: "keep_report ?D s = Some (Inr (s\<lparr>hid_Config := (hid_Config s)\<lparr>PrevReportINBuffer := Some (?D @ drop ?n buf)\<rparr>\<rparr>))"
    using Some m by (simp add: keep_report_def)
  have r: "report_changed ?D 4 buf = Inr (report_new (demo_report B l 4) (hid_Config s))"
    using n Some by (simp add: report_changed_def report_new_def length_demo_report take_demo_report)
  show thesis
    by (rule that [of "(hid_Config s)\<lparr>PrevReportINBuffer := Some (?D @ drop ?n buf)\<rparr>"])
      (use Some k r n in \<open>simp_all add: states_changed_def report_new_def length_demo_report take_demo_report\<close>)
qed


lemma send_report_accepting:
  assumes "IN_accepting E" "unat n \<le> length D" "ep_Address (ReportINEndpoint (hid_Config s)) = 0x81"
  obtains t where "send_report E app 0 D n s = Some (Inr t)"
    "written_to UEDATX (io_log t) = written_to UEDATX (io_log s) @ take (unat n) D"
    "hid_Config t = hid_Config s" "hid_State t = (hid_State s)\<lparr>IdleMSRemaining := IdleCount (hid_State s)\<rparr>"
proof -
  let ?s = "Endpoint_SelectEndpoint 0x81 (update_State (\<lambda>h. h\<lparr>IdleMSRemaining := IdleCount h\<rparr>) s)"
  have "current_ep (io_log ?s) = Some 1" by (simp add: endpoint_simps)
  from Write_Stream_LE_accepting [OF assms(1) this assms(2), of app] obtain t where
    t: "Endpoint_Write_Stream_LE E app D n None ?s = Some (Inr (ENDPOINT_RWSTREAM_NoError, None, D, t))"
      "io_st.more t = io_st.more ?s" "written (io_log t) = written (io_log ?s) @ map (Pair UEDATX) (take (unat n) D)" .
  have same: "hid_Config t = hid_Config ?s" "hid_State t = hid_State ?s"
    using t(2) by (cases t; cases ?s; simp)+
  show thesis
    by (rule that [of "Endpoint_ClearIN E t"])
      (use assms(3) t(1,3) same in \<open>simp_all add: send_report_def Let_def update_State_def endpoint_simps written_to_def o_def\<close>)
qed

lemma task_demo:
  assumes "ep_Address (ReportINEndpoint (hid_Config s)) = 0x81" "IN_accepting E"
    and "fst (read_DeviceState E s) = DEVICE_STATE_Configured"
    and "fst (USB_Device_GetFrameNumber E (snd (read_DeviceState E s))) \<noteq> PrevFrameNum (hid_State s)"
    and "4 \<le> unat (PrevReportINBufferSize (hid_Config s))"
    and D_def: "D = demo_report B (io_log (task_asks E s)) (unat (PrevReportINBufferSize (hid_Config s)))"
    and c: "states_changed D 4 (task_asks E s) = Some (Inr (report_new R (hid_Config s), c))"
  shows "HID_Device_USBTask E app (demo_callbacks B) s =
    obind (if report_due R s then send_report E app 0 D 4 c else Some (Inr c)) (\<lambda>u.
      Some (Inr (update_State (\<lambda>h. h\<lparr>PrevFrameNum := fst (USB_Device_GetFrameNumber E u)\<rparr>) (snd (USB_Device_GetFrameNumber E u)))))"
proof -
  let ?f = "snd (USB_Device_GetFrameNumber E (snd (read_DeviceState E s)))"
  let ?e = "Endpoint_SelectEndpoint 0x81 ?f"
  have "current_ep (io_log ?e) = Some 1" by (simp add: endpoint_simps)
  then have "fst (Endpoint_IsReadWriteAllowed E ?e)"
    using IN_accepting_now(2) [OF assms(2)] by (simp add: endpoint_simps)
  moreover have "snd (Endpoint_IsReadWriteAllowed E ?e) = task_asks E s" using assms(1) by (simp add: task_asks_def)
  moreover have "hid_Config ?f = hid_Config s" "hid_State ?f = hid_State s" by (simp_all add: endpoint_simps)
  moreover have "hid_Config (task_asks E s) = hid_Config s" "hid_State (task_asks E s) = hid_State s"
    using assms(1) by (simp_all add: task_asks_def endpoint_simps)
  moreover have "CreateHIDReport (demo_callbacks B) 0 0 (replicate (unat (PrevReportINBufferSize (hid_Config s))) 0) (task_asks E s) =
      Some (Inr (False, 0, D, 4, task_asks E s))"
    using assms(5) by (simp add: demo_callbacks_def demo_create D_def)
  ultimately show ?thesis
    using assms(1,3,4) c unfolding HID_Device_USBTask_def Let_def split_def report_due_def
    by (simp cong: if_cong)
qed




end
