(* ===== verification/HidParser.thy ===== *)
theory HidParser
  imports Descriptors
begin

text \<open>
  The HID report parser of LUFA (\<open>Drivers/USB/Class/Common/HIDParser.c\<close>): the parser
  for report descriptors and the functions that read and write a report item in a
  report. Pointers into the parser's own arrays are indices, a null pointer is
  \<open>None\<close>, and every array access is checked. The callback that filters report items
  belongs to the application and is an argument, as is the indeterminate content
  of the two fields of a new report item that the parser does not set.
\<close>

section \<open>Data structures\<close>

datatype HID_Parse_ErrorCodes_t =
  HID_PARSE_Successful | HID_PARSE_HIDStackOverflow | HID_PARSE_HIDStackUnderflow
| HID_PARSE_InsufficientReportItems | HID_PARSE_UnexpectedEndCollection
| HID_PARSE_InsufficientCollectionPaths | HID_PARSE_UsageListOverflow
| HID_PARSE_InsufficientReportIDItems | HID_PARSE_NoUnfilteredReportItems

abbreviation (input) HID_STATETABLE_STACK_DEPTH :: nat where "HID_STATETABLE_STACK_DEPTH \<equiv> 2"
abbreviation (input) HID_USAGE_STACK_DEPTH :: nat where "HID_USAGE_STACK_DEPTH \<equiv> 8"
abbreviation (input) HID_MAX_COLLECTIONS :: nat where "HID_MAX_COLLECTIONS \<equiv> 10"
abbreviation (input) HID_MAX_REPORTITEMS :: nat where "HID_MAX_REPORTITEMS \<equiv> 20"
abbreviation (input) HID_MAX_REPORT_IDS :: nat where "HID_MAX_REPORT_IDS \<equiv> 10"

record HID_MinMax_t =
  Minimum :: u32
  Maximum :: u32

record HID_Unit_t =
  unit_Type :: u32
  Exponent :: u8

record HID_Usage_t =
  Page :: u16
  Usage :: u16

record HID_CollectionPath_t =
  col_Type :: u8
  col_Usage :: HID_Usage_t
  Parent :: "nat option"

record HID_ReportItem_Attributes_t =
  BitSize :: u8
  attr_Usage :: HID_Usage_t
  attr_Unit :: HID_Unit_t
  Logical :: HID_MinMax_t
  Physical :: HID_MinMax_t

datatype HID_ReportItemTypes_t = HID_REPORT_ITEM_In | HID_REPORT_ITEM_Out | HID_REPORT_ITEM_Feature

fun item_type_value :: "HID_ReportItemTypes_t \<Rightarrow> nat" where
  "item_type_value HID_REPORT_ITEM_In = 0"
| "item_type_value HID_REPORT_ITEM_Out = 1"
| "item_type_value HID_REPORT_ITEM_Feature = 2"

record HID_ReportItem_t =
  BitOffset :: u16
  ItemType :: HID_ReportItemTypes_t
  ItemFlags :: u16
  item_ReportID :: u8
  CollectionPath :: "nat option"
  item_Attributes :: HID_ReportItem_Attributes_t
  Value :: u32
  PreviousValue :: u32

record HID_ReportSizeInfo_t =
  size_ReportID :: u8
  ReportSizeBits :: "u16 list"

record HID_ReportInfo_t =
  TotalReportItems :: nat
  ReportItems :: "HID_ReportItem_t list"
  CollectionPaths :: "HID_CollectionPath_t list"
  TotalDeviceReports :: nat
  ReportIDSizes :: "HID_ReportSizeInfo_t list"
  LargestReportSizeBits :: u16
  UsingReportIDs :: bool

record HID_StateTable_t =
  st_Attributes :: HID_ReportItem_Attributes_t
  ReportCount :: u8
  st_ReportID :: u8

text \<open>The variables of \<open>USB_ProcessHIDReport\<close>, with the structure it fills.\<close>

record hid_parser =
  ParserData :: HID_ReportInfo_t
  StateTable :: "HID_StateTable_t list"
  CurrStateTable :: nat
  CurrCollectionPath :: "nat option"
  CurrReportIDInfo :: nat
  UsageList :: "u16 list"
  UsageListSize :: nat
  UsageMinMax :: HID_MinMax_t

definition zero_attributes :: HID_ReportItem_Attributes_t where
  "zero_attributes = \<lparr>BitSize = 0, attr_Usage = \<lparr>Page = 0, Usage = 0\<rparr>,
     attr_Unit = \<lparr>unit_Type = 0, Exponent = 0\<rparr>,
     Logical = \<lparr>Minimum = 0, Maximum = 0\<rparr>, Physical = \<lparr>Minimum = 0, Maximum = 0\<rparr>\<rparr>"

definition zero_item :: HID_ReportItem_t where
  "zero_item = \<lparr>BitOffset = 0, ItemType = HID_REPORT_ITEM_In, ItemFlags = 0, item_ReportID = 0,
     CollectionPath = None, item_Attributes = zero_attributes, Value = 0, PreviousValue = 0\<rparr>"

definition zero_size_info :: HID_ReportSizeInfo_t where
  "zero_size_info = \<lparr>size_ReportID = 0, ReportSizeBits = [0, 0, 0]\<rparr>"

definition zero_table :: HID_StateTable_t where
  "zero_table = \<lparr>st_Attributes = zero_attributes, ReportCount = 0, st_ReportID = 0\<rparr>"

text \<open>The variables after the three calls of \<open>memset\<close>; the second state table and the
  usage list are written before they are read.\<close>

definition parser_init :: hid_parser where
  "parser_init =
     \<lparr>ParserData =
        \<lparr>TotalReportItems = 0, ReportItems = replicate HID_MAX_REPORTITEMS zero_item,
         CollectionPaths = replicate HID_MAX_COLLECTIONS
           \<lparr>col_Type = 0, col_Usage = \<lparr>Page = 0, Usage = 0\<rparr>, Parent = None\<rparr>,
         TotalDeviceReports = 1, ReportIDSizes = replicate HID_MAX_REPORT_IDS zero_size_info,
         LargestReportSizeBits = 0, UsingReportIDs = False\<rparr>,
      StateTable = replicate HID_STATETABLE_STACK_DEPTH zero_table, CurrStateTable = 0,
      CurrCollectionPath = None, CurrReportIDInfo = 0,
      UsageList = replicate HID_USAGE_STACK_DEPTH 0, UsageListSize = 0,
      UsageMinMax = \<lparr>Minimum = 0, Maximum = 0\<rparr>\<rparr>"

section \<open>Items\<close>

text \<open>The outcome of an item: an error code the parser returns with, or none.\<close>

type_synonym parsing = "fault + HID_Parse_ErrorCodes_t option \<times> hid_parser"

abbreviation (input) proceed :: "hid_parser \<Rightarrow> parsing" where "proceed p \<equiv> Inr (None, p)"
abbreviation (input) fail_with :: "HID_Parse_ErrorCodes_t \<Rightarrow> hid_parser \<Rightarrow> parsing" where
  "fail_with e p \<equiv> Inr (Some e, p)"

definition update_table :: "(HID_StateTable_t \<Rightarrow> HID_StateTable_t) \<Rightarrow> hid_parser \<Rightarrow> parsing" where
  "update_table f p =
     fbind (load (StateTable p) (CurrStateTable p)) (\<lambda>t.
     fbind (store (StateTable p) (CurrStateTable p) (f t)) (\<lambda>ts.
     proceed (p\<lparr>StateTable := ts\<rparr>)))"

definition update_attributes ::
  "(HID_ReportItem_Attributes_t \<Rightarrow> HID_ReportItem_Attributes_t) \<Rightarrow> hid_parser \<Rightarrow> parsing" where
  "update_attributes f = update_table (\<lambda>t. t\<lparr>st_Attributes := f (st_Attributes t)\<rparr>)"

definition item_PUSH :: "hid_parser \<Rightarrow> parsing" where
  "item_PUSH p =
     (if CurrStateTable p = HID_STATETABLE_STACK_DEPTH - 1 then fail_with HID_PARSE_HIDStackOverflow p
      else fbind (load (StateTable p) (CurrStateTable p)) (\<lambda>t.
        fbind (store (StateTable p) (CurrStateTable p + 1) t) (\<lambda>ts.
        proceed (p\<lparr>StateTable := ts, CurrStateTable := CurrStateTable p + 1\<rparr>))))"

definition item_POP :: "hid_parser \<Rightarrow> parsing" where
  "item_POP p =
     (if CurrStateTable p = 0 then fail_with HID_PARSE_HIDStackUnderflow p
      else proceed (p\<lparr>CurrStateTable := CurrStateTable p - 1\<rparr>))"

text \<open>The loop that looks for the report ID among those known.\<close>

fun find_report_id :: "HID_ReportSizeInfo_t list \<Rightarrow> u8 \<Rightarrow> nat \<Rightarrow> nat \<Rightarrow> fault + nat option" where
  "find_report_id infos rid i 0 = Inr None"
| "find_report_id infos rid i (Suc n) =
     fbind (load infos i) (\<lambda>info.
     if size_ReportID info = rid then Inr (Some i) else find_report_id infos rid (i + 1) n)"

text \<open>\<open>if (ParserData->UsingReportIDs) { ... }\<close>: an error, or the index of the size information.\<close>

definition select_report_id ::
  "u8 \<Rightarrow> HID_ReportInfo_t \<Rightarrow> nat \<Rightarrow> fault + HID_ReportInfo_t \<times> nat option" where
  "select_report_id rid d cur =
     (if \<not> UsingReportIDs d then Inr (d, Some cur)
      else fbind (find_report_id (ReportIDSizes d) rid 0 (TotalDeviceReports d)) (\<lambda>found.
        case found of Some i \<Rightarrow> Inr (d, Some i)
        | None \<Rightarrow>
            if TotalDeviceReports d = HID_MAX_REPORT_IDS then Inr (d, None)
            else let i = TotalDeviceReports d in
              fbind (store (ReportIDSizes d) i zero_size_info) (\<lambda>infos.
              Inr (d\<lparr>TotalDeviceReports := i + 1, ReportIDSizes := infos\<rparr>, Some i))))"

definition item_REPORT_ID :: "u32 \<Rightarrow> hid_parser \<Rightarrow> parsing" where
  "item_REPORT_ID v p =
     fbind (update_table (\<lambda>t. t\<lparr>st_ReportID := ucast v\<rparr>) p) (\<lambda>(_, p).
     fbind (load (StateTable p) (CurrStateTable p)) (\<lambda>t.
     fbind (select_report_id (st_ReportID t) (ParserData p) (CurrReportIDInfo p)) (\<lambda>(d, cur).
     case cur of
       None \<Rightarrow> fail_with HID_PARSE_InsufficientReportIDItems p
     | Some i \<Rightarrow>
         fbind (load (ReportIDSizes d) i) (\<lambda>info.
         fbind (store (ReportIDSizes d) i (info\<lparr>size_ReportID := st_ReportID t\<rparr>)) (\<lambda>infos.
         proceed (p\<lparr>ParserData := d\<lparr>UsingReportIDs := True, ReportIDSizes := infos\<rparr>,
           CurrReportIDInfo := i\<rparr>))))))"

definition item_USAGE :: "u8 \<Rightarrow> u32 \<Rightarrow> hid_parser \<Rightarrow> parsing" where
  "item_USAGE HIDReportItem v p =
     (if UsageListSize p = HID_USAGE_STACK_DEPTH then fail_with HID_PARSE_UsageListOverflow p
      else
        fbind (if HIDReportItem AND 0x03 = 0x03
               then update_attributes (\<lambda>a. a\<lparr>attr_Usage := (attr_Usage a)\<lparr>Page := ucast (drop_bit 16 v)\<rparr>\<rparr>) p
               else proceed p) (\<lambda>(_, p).
        fbind (store (UsageList p) (UsageListSize p) (ucast v)) (\<lambda>us.
        proceed (p\<lparr>UsageList := us, UsageListSize := UsageListSize p + 1\<rparr>))))"

text \<open>
  Taking the next usage, which collections and report items do alike: the head of
  the usage list, or the next one of the range, or the usage there was.
\<close>

definition shift_usages :: "nat \<Rightarrow> u16 list \<Rightarrow> u16 list" where
  "shift_usages n us = fold (\<lambda>i us. us[i - 1 := us ! i]) [1..<n] us"

definition next_usage :: "u16 \<Rightarrow> hid_parser \<Rightarrow> fault + u16 \<times> hid_parser" where
  "next_usage old p =
     (if UsageListSize p \<noteq> 0 then
        fbind (load (UsageList p) 0) (\<lambda>u.
        Inr (u, p\<lparr>UsageList := shift_usages (UsageListSize p) (UsageList p),
                  UsageListSize := UsageListSize p - 1\<rparr>))
      else if Minimum (UsageMinMax p) \<le> Maximum (UsageMinMax p) then
        Inr (ucast (Minimum (UsageMinMax p)),
             p\<lparr>UsageMinMax := (UsageMinMax p)\<lparr>Minimum := Minimum (UsageMinMax p) + 1\<rparr>\<rparr>)
      else Inr (old, p))"

text \<open>
  \<open>while (CurrCollectionPath->Parent != NULL)\<close>: the first free collection from \<open>i\<close> on,
  with the number of those up to the last one as the bound of the recursion.
\<close>

fun free_collection :: "HID_CollectionPath_t list \<Rightarrow> nat \<Rightarrow> nat \<Rightarrow> fault + nat option" where
  "free_collection cs i n =
     fbind (load cs i) (\<lambda>c.
     case Parent c of
       None \<Rightarrow> Inr (Some i)
     | Some _ \<Rightarrow> (case n of 0 \<Rightarrow> Inr None | Suc n \<Rightarrow> free_collection cs (i + 1) n))"

declare free_collection.simps [simp del]

definition open_collection ::
  "HID_CollectionPath_t list \<Rightarrow> nat option \<Rightarrow> fault + HID_CollectionPath_t list \<times> nat option" where
  "open_collection cs cur =
     (case cur of
        None \<Rightarrow> Inr (cs, Some 0)
      | Some parent \<Rightarrow>
          fbind (free_collection cs 1 (HID_MAX_COLLECTIONS - 2)) (\<lambda>free.
          case free of
            None \<Rightarrow> Inr (cs, None)
          | Some i \<Rightarrow>
              fbind (load cs i) (\<lambda>c.
              fbind (store cs i (c\<lparr>Parent := Some parent\<rparr>)) (\<lambda>cs. Inr (cs, Some i)))))"

definition item_COLLECTION :: "u32 \<Rightarrow> hid_parser \<Rightarrow> parsing" where
  "item_COLLECTION v p =
     fbind (open_collection (CollectionPaths (ParserData p)) (CurrCollectionPath p)) (\<lambda>(cs, cur).
     case cur of
       None \<Rightarrow> fail_with HID_PARSE_InsufficientCollectionPaths p
     | Some i \<Rightarrow>
         fbind (load cs i) (\<lambda>c.
         fbind (load (StateTable p) (CurrStateTable p)) (\<lambda>t.
         fbind (next_usage (Usage (col_Usage c)) p) (\<lambda>(u, p).
         fbind (store cs i (c\<lparr>col_Type := ucast v,
           col_Usage := \<lparr>Page = Page (attr_Usage (st_Attributes t)), Usage = u\<rparr>\<rparr>)) (\<lambda>cs.
         proceed (p\<lparr>ParserData := (ParserData p)\<lparr>CollectionPaths := cs\<rparr>, CurrCollectionPath := Some i\<rparr>))))))"

definition item_END_COLLECTION :: "hid_parser \<Rightarrow> parsing" where
  "item_END_COLLECTION p =
     (case CurrCollectionPath p of
        None \<Rightarrow> fail_with HID_PARSE_UnexpectedEndCollection p
      | Some i \<Rightarrow>
          fbind (load (CollectionPaths (ParserData p)) i) (\<lambda>c.
          proceed (p\<lparr>CurrCollectionPath := Parent c\<rparr>)))"

text \<open>One turn of the loop over the report count of an input, output or feature item.\<close>

definition main_item ::
  "(HID_ReportItem_t \<Rightarrow> bool) \<Rightarrow> u32 \<times> u32 \<Rightarrow> HID_ReportItemTypes_t \<Rightarrow> u32 \<Rightarrow> hid_parser \<Rightarrow> parsing" where
  "main_item Filter junk ty v p =
     fbind (load (StateTable p) (CurrStateTable p)) (\<lambda>t.
     let attr = st_Attributes t in
     fbind (next_usage (Usage (attr_Usage attr)) p) (\<lambda>(u, p).
     fbind (load (ReportIDSizes (ParserData p)) (CurrReportIDInfo p)) (\<lambda>info.
     fbind (load (ReportSizeBits info) (item_type_value ty)) (\<lambda>offset.
     let NewReportItem = \<lparr>BitOffset = offset, ItemType = ty, ItemFlags = ucast v,
           item_ReportID = st_ReportID t, CollectionPath = CurrCollectionPath p,
           item_Attributes = attr\<lparr>attr_Usage := (attr_Usage attr)\<lparr>Usage := u\<rparr>\<rparr>,
           Value = fst junk, PreviousValue = snd junk\<rparr>;
         bits = offset + ucast (BitSize attr)
     in
     fbind (store (ReportSizeBits info) (item_type_value ty) bits) (\<lambda>sizes.
     fbind (store (ReportIDSizes (ParserData p)) (CurrReportIDInfo p) (info\<lparr>ReportSizeBits := sizes\<rparr>)) (\<lambda>infos.
     let d = (ParserData p)\<lparr>ReportIDSizes := infos,
               LargestReportSizeBits := max (LargestReportSizeBits (ParserData p)) bits\<rparr>
     in
     if TotalReportItems d = HID_MAX_REPORTITEMS
     then fail_with HID_PARSE_InsufficientReportItems (p\<lparr>ParserData := d\<rparr>)
     else
       fbind (store (ReportItems d) (TotalReportItems d) NewReportItem) (\<lambda>items.
       let d = d\<lparr>ReportItems := items\<rparr> in
       proceed (p\<lparr>ParserData :=
         (if v AND 1 = 0 \<and> Filter NewReportItem
          then d\<lparr>TotalReportItems := TotalReportItems d + 1\<rparr> else d)\<rparr>))))))))"

fun main_items ::
  "(HID_ReportItem_t \<Rightarrow> bool) \<Rightarrow> u32 \<times> u32 \<Rightarrow> HID_ReportItemTypes_t \<Rightarrow> u32 \<Rightarrow> nat \<Rightarrow> hid_parser \<Rightarrow> parsing" where
  "main_items Filter junk ty v 0 p = proceed p"
| "main_items Filter junk ty v (Suc n) p =
     fbind (main_item Filter junk ty v p) (\<lambda>(e, p).
     case e of Some e \<Rightarrow> fail_with e p | None \<Rightarrow> main_items Filter junk ty v n p)"

definition item_MAIN ::
  "(HID_ReportItem_t \<Rightarrow> bool) \<Rightarrow> u32 \<times> u32 \<Rightarrow> HID_ReportItemTypes_t \<Rightarrow> u32 \<Rightarrow> hid_parser \<Rightarrow> parsing" where
  "item_MAIN Filter junk ty v p =
     fbind (load (StateTable p) (CurrStateTable p)) (\<lambda>t.
     main_items Filter junk ty v (unat (ReportCount t)) p)"

section \<open>The parser\<close>

text \<open>The type and tag of an item, as the macros of \<open>HIDReportData.h\<close> build them.\<close>

abbreviation (input) TAG_INPUT :: u8 where "TAG_INPUT \<equiv> 0x80"
abbreviation (input) TAG_OUTPUT :: u8 where "TAG_OUTPUT \<equiv> 0x90"
abbreviation (input) TAG_COLLECTION :: u8 where "TAG_COLLECTION \<equiv> 0xA0"
abbreviation (input) TAG_FEATURE :: u8 where "TAG_FEATURE \<equiv> 0xB0"
abbreviation (input) TAG_END_COLLECTION :: u8 where "TAG_END_COLLECTION \<equiv> 0xC0"
abbreviation (input) TAG_USAGE_PAGE :: u8 where "TAG_USAGE_PAGE \<equiv> 0x04"
abbreviation (input) TAG_LOGICAL_MINIMUM :: u8 where "TAG_LOGICAL_MINIMUM \<equiv> 0x14"
abbreviation (input) TAG_LOGICAL_MAXIMUM :: u8 where "TAG_LOGICAL_MAXIMUM \<equiv> 0x24"
abbreviation (input) TAG_PHYSICAL_MINIMUM :: u8 where "TAG_PHYSICAL_MINIMUM \<equiv> 0x34"
abbreviation (input) TAG_PHYSICAL_MAXIMUM :: u8 where "TAG_PHYSICAL_MAXIMUM \<equiv> 0x44"
abbreviation (input) TAG_UNIT_EXPONENT :: u8 where "TAG_UNIT_EXPONENT \<equiv> 0x54"
abbreviation (input) TAG_UNIT :: u8 where "TAG_UNIT \<equiv> 0x64"
abbreviation (input) TAG_REPORT_SIZE :: u8 where "TAG_REPORT_SIZE \<equiv> 0x74"
abbreviation (input) TAG_REPORT_ID :: u8 where "TAG_REPORT_ID \<equiv> 0x84"
abbreviation (input) TAG_REPORT_COUNT :: u8 where "TAG_REPORT_COUNT \<equiv> 0x94"
abbreviation (input) TAG_PUSH :: u8 where "TAG_PUSH \<equiv> 0xA4"
abbreviation (input) TAG_POP :: u8 where "TAG_POP \<equiv> 0xB4"
abbreviation (input) TAG_USAGE :: u8 where "TAG_USAGE \<equiv> 0x08"
abbreviation (input) TAG_USAGE_MINIMUM :: u8 where "TAG_USAGE_MINIMUM \<equiv> 0x18"
abbreviation (input) TAG_USAGE_MAXIMUM :: u8 where "TAG_USAGE_MAXIMUM \<equiv> 0x28"

text \<open>The data of an item and the number of its bytes.\<close>

definition item_data :: "u8 \<Rightarrow> bytes \<Rightarrow> fault + u32 \<times> nat" where
  "item_data HIDReportItem D =
     (let sz = HIDReportItem AND 0x03 in
      if sz = 0x03 then
        fbind (load D 3) (\<lambda>b3. fbind (load D 2) (\<lambda>b2. fbind (load D 1) (\<lambda>b1. fbind (load D 0) (\<lambda>b0.
        Inr (push_bit 24 (ucast b3) OR push_bit 16 (ucast b2) OR push_bit 8 (ucast b1) OR ucast b0, 4)))))
      else if sz = 0x02 then
        fbind (load D 1) (\<lambda>b1. fbind (load D 0) (\<lambda>b0. Inr (push_bit 8 (ucast b1) OR ucast b0, 2)))
      else if sz = 0x01 then fbind (load D 0) (\<lambda>b0. Inr (ucast b0, 1))
      else Inr (0, 0))"

definition process_item ::
  "(HID_ReportItem_t \<Rightarrow> bool) \<Rightarrow> u32 \<times> u32 \<Rightarrow> u8 \<Rightarrow> u32 \<Rightarrow> hid_parser \<Rightarrow> parsing" where
  "process_item Filter junk HIDReportItem v p =
     (let tag = HIDReportItem AND (0x0C OR 0xF0) in
      if tag = TAG_PUSH then item_PUSH p
      else if tag = TAG_POP then item_POP p
      else if tag = TAG_USAGE_PAGE then
        update_attributes (\<lambda>a. a\<lparr>attr_Usage := (attr_Usage a)\<lparr>Page := ucast v\<rparr>\<rparr>) p
      else if tag = TAG_LOGICAL_MINIMUM then
        update_attributes (\<lambda>a. a\<lparr>Logical := (Logical a)\<lparr>Minimum := v\<rparr>\<rparr>) p
      else if tag = TAG_LOGICAL_MAXIMUM then
        update_attributes (\<lambda>a. a\<lparr>Logical := (Logical a)\<lparr>Maximum := v\<rparr>\<rparr>) p
      else if tag = TAG_PHYSICAL_MINIMUM then
        update_attributes (\<lambda>a. a\<lparr>Physical := (Physical a)\<lparr>Minimum := v\<rparr>\<rparr>) p
      else if tag = TAG_PHYSICAL_MAXIMUM then
        update_attributes (\<lambda>a. a\<lparr>Physical := (Physical a)\<lparr>Maximum := v\<rparr>\<rparr>) p
      else if tag = TAG_UNIT_EXPONENT then
        update_attributes (\<lambda>a. a\<lparr>attr_Unit := (attr_Unit a)\<lparr>Exponent := ucast v\<rparr>\<rparr>) p
      else if tag = TAG_UNIT then
        update_attributes (\<lambda>a. a\<lparr>attr_Unit := (attr_Unit a)\<lparr>unit_Type := v\<rparr>\<rparr>) p
      else if tag = TAG_REPORT_SIZE then update_attributes (\<lambda>a. a\<lparr>BitSize := ucast v\<rparr>) p
      else if tag = TAG_REPORT_COUNT then update_table (\<lambda>t. t\<lparr>ReportCount := ucast v\<rparr>) p
      else if tag = TAG_REPORT_ID then item_REPORT_ID v p
      else if tag = TAG_USAGE then item_USAGE HIDReportItem v p
      else if tag = TAG_USAGE_MINIMUM then proceed (p\<lparr>UsageMinMax := (UsageMinMax p)\<lparr>Minimum := v\<rparr>\<rparr>)
      else if tag = TAG_USAGE_MAXIMUM then proceed (p\<lparr>UsageMinMax := (UsageMinMax p)\<lparr>Maximum := v\<rparr>\<rparr>)
      else if tag = TAG_COLLECTION then item_COLLECTION v p
      else if tag = TAG_END_COLLECTION then item_END_COLLECTION p
      else if tag = TAG_INPUT then item_MAIN Filter junk HID_REPORT_ITEM_In v p
      else if tag = TAG_OUTPUT then item_MAIN Filter junk HID_REPORT_ITEM_Out v p
      else if tag = TAG_FEATURE then item_MAIN Filter junk HID_REPORT_ITEM_Feature v p
      else proceed p)"

definition end_item :: "u8 \<Rightarrow> hid_parser \<Rightarrow> hid_parser" where
  "end_item HIDReportItem p =
     (if HIDReportItem AND 0x0C = HID_RI_TYPE_MAIN
      then p\<lparr>UsageMinMax := \<lparr>Minimum = 0, Maximum = 0\<rparr>, UsageListSize := 0\<rparr> else p)"

text \<open>
  The loop over the items. \<open>ReportData\<close> is the rest of the buffer; \<open>ReportSize\<close> is the
  16-bit counter, which an item that is cut off takes below zero.
\<close>

fun parse_items ::
  "(HID_ReportItem_t \<Rightarrow> bool) \<Rightarrow> u32 \<times> u32 \<Rightarrow> u16 \<Rightarrow> bytes \<Rightarrow> hid_parser \<Rightarrow> parsing" where
  "parse_items Filter junk ReportSize ReportData p =
     (if ReportSize = 0 then proceed p
      else case ReportData of
        [] \<Rightarrow> Inl OutOfBounds
      | HIDReportItem # rest \<Rightarrow>
          fbind (item_data HIDReportItem rest) (\<lambda>(v, n).
          fbind (process_item Filter junk HIDReportItem v p) (\<lambda>(e, p).
          case e of
            Some e \<Rightarrow> fail_with e p
          | None \<Rightarrow> parse_items Filter junk (ReportSize - 1 - of_nat n) (drop n rest)
                      (end_item HIDReportItem p))))"

declare parse_items.simps [simp del]

definition USB_ProcessHIDReport ::
  "(HID_ReportItem_t \<Rightarrow> bool) \<Rightarrow> u32 \<times> u32 \<Rightarrow> bytes \<Rightarrow> u16 \<Rightarrow> fault + HID_Parse_ErrorCodes_t \<times> HID_ReportInfo_t" where
  "USB_ProcessHIDReport Filter junk ReportData ReportSize =
     fbind (parse_items Filter junk ReportSize ReportData parser_init) (\<lambda>(e, p).
     Inr (case e of
            Some e \<Rightarrow> e
          | None \<Rightarrow> if TotalReportItems (ParserData p) = 0 then HID_PARSE_NoUnfilteredReportItems
                    else HID_PARSE_Successful,
          ParserData p))"

fun report_size_loop :: "HID_ReportSizeInfo_t list \<Rightarrow> u8 \<Rightarrow> nat \<Rightarrow> nat \<Rightarrow> nat \<Rightarrow> fault + u16" where
  "report_size_loop infos rid ty i 0 = Inr 0"
| "report_size_loop infos rid ty i (Suc n) =
     fbind (load infos i) (\<lambda>info.
     fbind (load (ReportSizeBits info) ty) (\<lambda>bits.
     if size_ReportID info = rid then Inr (bits div 8 + (if bits mod 8 \<noteq> 0 then 1 else 0))
     else report_size_loop infos rid ty (i + 1) n))"

definition USB_GetHIDReportSize :: "HID_ReportInfo_t \<Rightarrow> u8 \<Rightarrow> u8 \<Rightarrow> fault + u16" where
  "USB_GetHIDReportSize d ReportID ReportType =
     report_size_loop (ReportIDSizes d) ReportID (unat ReportType) 0 HID_MAX_REPORT_IDS"

section \<open>Items in a report\<close>

fun get_bits :: "bytes \<Rightarrow> nat \<Rightarrow> u16 \<Rightarrow> u32 \<Rightarrow> u32 \<Rightarrow> fault + u32" where
  "get_bits ReportData 0 CurrentBit BitMask val = Inr val"
| "get_bits ReportData (Suc DataBitsRem) CurrentBit BitMask val =
     fbind (load ReportData (unat (CurrentBit div 8))) (\<lambda>b.
     get_bits ReportData DataBitsRem (CurrentBit + 1) (push_bit 1 BitMask)
       (if b AND push_bit (unat (CurrentBit mod 8)) 1 \<noteq> 0 then val OR BitMask else val))"

definition USB_GetHIDReportItemInfo ::
  "bytes \<Rightarrow> HID_ReportItem_t option \<Rightarrow> fault + bool \<times> HID_ReportItem_t option" where
  "USB_GetHIDReportItemInfo ReportData ReportItem =
     (case ReportItem of
        None \<Rightarrow> Inr (False, None)
      | Some item \<Rightarrow>
          let get = (\<lambda>ReportData.
                fbind (get_bits ReportData (unat (BitSize (item_Attributes item))) (BitOffset item) 1 0) (\<lambda>val.
                Inr (True, Some (item\<lparr>PreviousValue := Value item, Value := val\<rparr>))))
          in if item_ReportID item \<noteq> 0 then
               fbind (load ReportData 0) (\<lambda>rid.
               if item_ReportID item \<noteq> rid then Inr (False, Some item) else get (tl ReportData))
             else get ReportData)"

fun set_bits_loop :: "bytes \<Rightarrow> nat \<Rightarrow> u16 \<Rightarrow> u32 \<Rightarrow> u32 \<Rightarrow> fault + bytes" where
  "set_bits_loop ReportData 0 CurrentBit BitMask val = Inr ReportData"
| "set_bits_loop ReportData (Suc DataBitsRem) CurrentBit BitMask val =
     fbind (if val AND BitMask \<noteq> 0 then
              fbind (load ReportData (unat (CurrentBit div 8))) (\<lambda>b.
              store ReportData (unat (CurrentBit div 8)) (b OR push_bit (unat (CurrentBit mod 8)) 1))
            else Inr ReportData) (\<lambda>ReportData.
     set_bits_loop ReportData DataBitsRem (CurrentBit + 1) (push_bit 1 BitMask) val)"

definition USB_SetHIDReportItemInfo ::
  "bytes \<Rightarrow> HID_ReportItem_t option \<Rightarrow> fault + bytes \<times> HID_ReportItem_t option" where
  "USB_SetHIDReportItemInfo ReportData ReportItem =
     (case ReportItem of
        None \<Rightarrow> Inr (ReportData, None)
      | Some item \<Rightarrow>
          let put = (\<lambda>ReportData.
                set_bits_loop ReportData (unat (BitSize (item_Attributes item))) (BitOffset item) 1 (Value item));
              item' = item\<lparr>PreviousValue := Value item\<rparr>
          in if item_ReportID item \<noteq> 0 then
               fbind (store ReportData 0 (item_ReportID item)) (\<lambda>ReportData.
               fbind (put (tl ReportData)) (\<lambda>rest. Inr (hd ReportData # rest, Some item')))
             else fbind (put ReportData) (\<lambda>ReportData. Inr (ReportData, Some item')))"

end
