(* ===== verification/HidReports.thy ===== *)
theory HidReports
  imports HidParser
begin

text \<open>
  Properties of the HID report parser. First the bit fields of reports, then the
  invariant of the parser and its memory safety, then the firmware's own report
  descriptor.
\<close>

section \<open>Bit fields of a report\<close>

definition report_bit :: "bytes \<Rightarrow> nat \<Rightarrow> bool" where
  "report_bit D k \<longleftrightarrow> bit (D ! (k div 8)) (k mod 8)"

lemma unat_div_mod_8:
  assumes "k < 65536"
  shows "unat ((of_nat k :: u16) div 8) = k div 8" "unat ((of_nat k :: u16) mod 8) = k mod 8"
  using assms by (simp_all add: unat_div unat_mod unat_of_nat)

lemma get_bits_spec:
  "off + n \<le> 8 * length D \<Longrightarrow> off + n < 65536 \<Longrightarrow>
   \<exists>r. get_bits D n (of_nat off) (push_bit j 1) val = Inr r \<and>
     (\<forall>i. bit r i \<longleftrightarrow> bit val i \<or> j \<le> i \<and> i < j + n \<and> i < 32 \<and> report_bit D (off + (i - j)))"
proof (induction n arbitrary: off j val)
  case (Suc n)
  let ?v = "if bit (D ! (off div 8)) (off mod 8) then val OR push_bit j 1 else val"
  have "off div 8 < length D" using Suc.prems by (simp add: less_mult_imp_div_less)
  with Suc.prems have step: "get_bits D (Suc n) (of_nat off) (push_bit j 1) val =
      get_bits D n (of_nat (off + 1)) (push_bit (j + 1) 1) ?v"
    by (simp add: load_def unat_div_mod_8 and_exp_eq_0_iff_not_bit ac_simps)
  from Suc.IH [of "off + 1" "j + 1" ?v] Suc.prems obtain r where
    r: "get_bits D n (of_nat (off + 1)) (push_bit (j + 1) 1) ?v = Inr r"
    "\<And>i. bit r i \<longleftrightarrow> bit ?v i \<or> j + 1 \<le> i \<and> i < j + 1 + n \<and> i < 32 \<and> report_bit D (off + 1 + (i - (j + 1)))"
    by auto
  have "bit r i \<longleftrightarrow> bit val i \<or> j \<le> i \<and> i < j + Suc n \<and> i < 32 \<and> report_bit D (off + (i - j))" for i
  proof (cases "j < i")
    case True
    then have "off + 1 + (i - (j + 1)) = off + (i - j)" by simp
    with True show ?thesis by (auto simp: r(2) bit_simps)
  next
    case False
    then show ?thesis by (auto simp: r(2) report_bit_def bit_simps)
  qed
  with step r(1) show ?case by auto
qed auto

lemma set_bits_spec:
  "off + n \<le> 8 * length D \<Longrightarrow> off + n < 65536 \<Longrightarrow>
   \<exists>D'. set_bits_loop D n (of_nat off) (push_bit j 1) val = Inr D' \<and> length D' = length D \<and>
     (\<forall>k < 8 * length D. report_bit D' k \<longleftrightarrow> report_bit D k \<or> off \<le> k \<and> k < off + n \<and> bit val (j + (k - off)))"
proof (induction n arbitrary: off j D)
  case (Suc n)
  let ?i = "off div 8"
  define E where "E = (if bit val j then D[?i := D ! ?i OR push_bit (off mod 8) 1] else D)"
  have i: "?i < length D" using Suc.prems by (simp add: less_mult_imp_div_less)
  with Suc.prems have step: "set_bits_loop D (Suc n) (of_nat off) (push_bit j 1) val =
      set_bits_loop E n (of_nat (off + 1)) (push_bit (j + 1) 1) val"
    by (simp add: E_def load_def store_def unat_div_mod_8 and_exp_eq_0_iff_not_bit ac_simps)
  have len: "length E = length D" by (simp add: E_def)
  have bits: "report_bit E k \<longleftrightarrow> report_bit D k \<or> k = off \<and> bit val j" for k
  proof -
    have "k = off \<longleftrightarrow> k div 8 = off div 8 \<and> k mod 8 = off mod 8" by (metis div_mult_mod_eq)
    with i show ?thesis by (auto simp: E_def report_bit_def nth_list_update bit_simps)
  qed
  from Suc.IH [of "off + 1" E "j + 1"] Suc.prems obtain D' where
    r: "set_bits_loop E n (of_nat (off + 1)) (push_bit (j + 1) 1) val = Inr D'" "length D' = length D"
    "\<And>k. k < 8 * length D \<Longrightarrow>
       report_bit D' k \<longleftrightarrow> report_bit E k \<or> off + 1 \<le> k \<and> k < off + 1 + n \<and> bit val (j + 1 + (k - (off + 1)))"
    unfolding len by auto
  have "report_bit D' k \<longleftrightarrow> report_bit D k \<or> off \<le> k \<and> k < off + Suc n \<and> bit val (j + (k - off))"
    if "k < 8 * length D" for k
  proof (cases "off < k")
    case True
    then have "j + 1 + (k - (off + 1)) = j + (k - off)" by simp
    with True r(3) [OF that] bits [of k] show ?thesis by auto
  next
    case False
    then show ?thesis using r(3) [OF that] bits [of k] by auto
  qed
  with step r(1,2) show ?case by auto
qed auto

text \<open>
  The report of an item without its ID byte; the item lies in it if its bits do, and
  its bits are clear before it is written.
\<close>

definition item_payload :: "HID_ReportItem_t \<Rightarrow> bytes \<Rightarrow> bytes" where
  "item_payload item D = (if item_ReportID item \<noteq> 0 then tl D else D)"

abbreviation item_bits :: "HID_ReportItem_t \<Rightarrow> nat" where
  "item_bits item \<equiv> unat (BitSize (item_Attributes item))"

definition item_inside :: "HID_ReportItem_t \<Rightarrow> bytes \<Rightarrow> bool" where
  "item_inside item D \<longleftrightarrow> D \<noteq> [] \<and> unat (BitOffset item) + item_bits item < 65536 \<and>
     unat (BitOffset item) + item_bits item \<le> 8 * length (item_payload item D)"

lemma GetHIDReportItemInfo_spec:
  assumes "item_inside item D" "item_ReportID item \<noteq> 0 \<longrightarrow> hd D = item_ReportID item"
  shows "\<exists>r. USB_GetHIDReportItemInfo D (Some item) =
      Inr (True, Some (item\<lparr>PreviousValue := Value item, Value := r\<rparr>)) \<and>
    (\<forall>i. bit r i \<longleftrightarrow> i < item_bits item \<and> i < 32 \<and>
       report_bit (item_payload item D) (unat (BitOffset item) + i))"
proof -
  from get_bits_spec [of "unat (BitOffset item)" "item_bits item" "item_payload item D" 0 0] assms(1)
  obtain r where r: "get_bits (item_payload item D) (item_bits item) (BitOffset item) 1 0 = Inr r"
    "\<And>i. bit r i \<longleftrightarrow> i < item_bits item \<and> i < 32 \<and>
       report_bit (item_payload item D) (unat (BitOffset item) + i)"
    by (auto simp: item_inside_def)
  with assms show ?thesis
    by (auto simp: USB_GetHIDReportItemInfo_def item_payload_def item_inside_def load_def hd_conv_nth)
qed

lemma SetHIDReportItemInfo_spec:
  assumes "item_inside item D"
  shows "\<exists>D'. USB_SetHIDReportItemInfo D (Some item) = Inr (D', Some (item\<lparr>PreviousValue := Value item\<rparr>)) \<and>
    length D' = length D \<and> (item_ReportID item \<noteq> 0 \<longrightarrow> hd D' = item_ReportID item) \<and>
    (\<forall>k < 8 * length (item_payload item D). report_bit (item_payload item D') k \<longleftrightarrow>
       report_bit (item_payload item D) k \<or>
       unat (BitOffset item) \<le> k \<and> k < unat (BitOffset item) + item_bits item \<and>
       bit (Value item) (k - unat (BitOffset item)))"
proof -
  from set_bits_spec [of "unat (BitOffset item)" "item_bits item" "item_payload item D" 0 "Value item"] assms
  obtain P where P: "set_bits_loop (item_payload item D) (item_bits item) (BitOffset item) 1 (Value item) = Inr P"
    "length P = length (item_payload item D)"
    "\<forall>k < 8 * length (item_payload item D). report_bit P k \<longleftrightarrow> report_bit (item_payload item D) k \<or>
       unat (BitOffset item) \<le> k \<and> k < unat (BitOffset item) + item_bits item \<and>
       bit (Value item) (k - unat (BitOffset item))"
    by (auto simp: item_inside_def)
  obtain d ds where D: "D = d # ds" using assms by (auto simp: item_inside_def neq_Nil_conv)
  show ?thesis
  proof (cases "item_ReportID item = 0")
    case True
    then show ?thesis using P D by (simp add: USB_SetHIDReportItemInfo_def item_payload_def)
  next
    case False
    then show ?thesis using P D
      by (intro exI [of _ "item_ReportID item # P"])
        (simp add: USB_SetHIDReportItemInfo_def item_payload_def store_def)
  qed
qed

text \<open>
  C29. Writing and reading a report item. Writing the value of an item into a report
  whose bits for it are clear, and reading it back, gives the low bits of the value,
  as many as the item has. No other item of the report changes, and neither function
  leaves the report.
\<close>

theorem report_item_roundtrip:
  assumes "item_inside item D"
    and "\<forall>k < item_bits item. \<not> report_bit (item_payload item D) (unat (BitOffset item) + k)"
  shows "\<exists>D'. USB_SetHIDReportItemInfo D (Some item) = Inr (D', Some (item\<lparr>PreviousValue := Value item\<rparr>)) \<and>
    USB_GetHIDReportItemInfo D' (Some item) = Inr (True, Some (item\<lparr>PreviousValue := Value item,
      Value := take_bit (item_bits item) (Value item)\<rparr>)) \<and>
    (\<forall>k < 8 * length (item_payload item D). k < unat (BitOffset item) \<or> unat (BitOffset item) + item_bits item \<le> k \<longrightarrow>
       report_bit (item_payload item D') k = report_bit (item_payload item D) k)"
proof -
  let ?off = "unat (BitOffset item)"
  from SetHIDReportItemInfo_spec [OF assms(1)] obtain D' where
    s: "USB_SetHIDReportItemInfo D (Some item) = Inr (D', Some (item\<lparr>PreviousValue := Value item\<rparr>))"
      "length D' = length D" "item_ReportID item \<noteq> 0 \<longrightarrow> hd D' = item_ReportID item"
    and bits: "\<And>k. k < 8 * length (item_payload item D) \<Longrightarrow> report_bit (item_payload item D') k \<longleftrightarrow>
       report_bit (item_payload item D) k \<or> ?off \<le> k \<and> k < ?off + item_bits item \<and> bit (Value item) (k - ?off)"
    by blast
  have "item_inside item D'" using assms(1) s(2) by (auto simp: item_inside_def item_payload_def)
  from GetHIDReportItemInfo_spec [OF this s(3)] obtain r where
    g: "USB_GetHIDReportItemInfo D' (Some item) =
      Inr (True, Some (item\<lparr>PreviousValue := Value item, Value := r\<rparr>))"
    "\<And>i. bit r i \<longleftrightarrow> i < item_bits item \<and> i < 32 \<and> report_bit (item_payload item D') (?off + i)"
    by blast
  have "r = take_bit (item_bits item) (Value item)"
  proof (rule bit_word_eqI)
    fix i assume "i < LENGTH(32)"
    then show "bit r i \<longleftrightarrow> bit (take_bit (item_bits item) (Value item)) i"
      using bits [of "?off + i"] assms by (auto simp: g(2) bit_simps item_inside_def)
  qed
  with s(1) g(1) bits show ?thesis by auto
qed


text \<open>The second axis of input report \<open>0x30\<close>.\<close>

definition axis_item :: HID_ReportItem_t where
  "axis_item = zero_item\<lparr>BitOffset := 32, ItemFlags := 2, item_ReportID := 0x30,
     item_Attributes := zero_attributes\<lparr>BitSize := 16\<rparr>, Value := 0x56789\<rparr>"

theorem report_item_roundtrip_witness:
  "\<exists>D'. USB_SetHIDReportItemInfo (replicate 64 0) (Some axis_item) =
      Inr (D', Some (axis_item\<lparr>PreviousValue := 0x56789\<rparr>)) \<and>
    USB_GetHIDReportItemInfo D' (Some axis_item) =
      Inr (True, Some (axis_item\<lparr>PreviousValue := 0x56789, Value := 0x6789\<rparr>))"
proof -
  have v: "item_ReportID axis_item = 0x30" "unat (BitOffset axis_item) = 32" "item_bits axis_item = 16"
    "Value axis_item = 0x56789" "take_bit 16 (0x56789 :: u32) = 0x6789"
    by (simp_all add: axis_item_def)
  have p: "item_payload axis_item (replicate 64 0) = replicate 63 0" using v(1) by (simp add: item_payload_def)
  have "item_inside axis_item (replicate 64 0)" using v p by (simp add: item_inside_def)
  moreover have "\<forall>k < item_bits axis_item. \<not> report_bit (item_payload axis_item (replicate 64 0))
      (unat (BitOffset axis_item) + k)"
    unfolding p v report_bit_def by (simp add: less_mult_imp_div_less)
  ultimately show ?thesis using report_item_roundtrip [of axis_item "replicate 64 0"] v by auto
qed


section \<open>The invariant of the parser\<close>

text \<open>
  Collections are taken in order, so those in use are the first ones, and a parent
  comes before its children: following the parents always ends at the root.
\<close>

definition wf_collections :: "HID_CollectionPath_t list \<Rightarrow> bool" where
  "wf_collections cs \<longleftrightarrow> length cs = HID_MAX_COLLECTIONS \<and>
     (\<forall>i < HID_MAX_COLLECTIONS. \<forall>j. Parent (cs ! i) = Some j \<longrightarrow> j < i) \<and>
     (\<forall>j < HID_MAX_COLLECTIONS. \<forall>i < j. 1 \<le> i \<longrightarrow> Parent (cs ! j) \<noteq> None \<longrightarrow> Parent (cs ! i) \<noteq> None)"

definition in_use :: "HID_CollectionPath_t list \<Rightarrow> nat option \<Rightarrow> bool" where
  "in_use cs c \<longleftrightarrow> (case c of None \<Rightarrow> True
     | Some i \<Rightarrow> i < HID_MAX_COLLECTIONS \<and> (i = 0 \<or> Parent (cs ! i) \<noteq> None))"

definition wf_info :: "HID_ReportInfo_t \<Rightarrow> bool" where
  "wf_info d \<longleftrightarrow> wf_collections (CollectionPaths d) \<and>
     length (ReportItems d) = HID_MAX_REPORTITEMS \<and> TotalReportItems d \<le> HID_MAX_REPORTITEMS \<and>
     (\<forall>it \<in> set (ReportItems d). in_use (CollectionPaths d) (CollectionPath it)) \<and>
     length (ReportIDSizes d) = HID_MAX_REPORT_IDS \<and> TotalDeviceReports d \<le> HID_MAX_REPORT_IDS \<and>
     (\<forall>s \<in> set (ReportIDSizes d). length (ReportSizeBits s) = 3)"

definition parser_inv :: "hid_parser \<Rightarrow> bool" where
  "parser_inv p \<longleftrightarrow> wf_info (ParserData p) \<and>
     length (StateTable p) = HID_STATETABLE_STACK_DEPTH \<and> CurrStateTable p < HID_STATETABLE_STACK_DEPTH \<and>
     in_use (CollectionPaths (ParserData p)) (CurrCollectionPath p) \<and>
     CurrReportIDInfo p < HID_MAX_REPORT_IDS \<and>
     length (UsageList p) = HID_USAGE_STACK_DEPTH \<and> UsageListSize p \<le> HID_USAGE_STACK_DEPTH"

text \<open>An outcome within the arrays that keeps the invariant; the parser does not return early with success.\<close>

definition good :: "parsing \<Rightarrow> bool" where
  "good r \<longleftrightarrow> (case r of Inl _ \<Rightarrow> False | Inr (e, p) \<Rightarrow> e \<noteq> Some HID_PARSE_Successful \<and> parser_inv p)"

lemma good_Inr [simp]: "good (Inr (e, p)) \<longleftrightarrow> e \<noteq> Some HID_PARSE_Successful \<and> parser_inv p"
  by (simp add: good_def)

lemma good_Inl [simp]: "\<not> good (Inl f)"
  by (simp add: good_def)

lemma good_fbind:
  "good r \<Longrightarrow> (\<And>e p. e \<noteq> Some HID_PARSE_Successful \<Longrightarrow> parser_inv p \<Longrightarrow> good (f (e, p))) \<Longrightarrow> good (fbind r f)"
  by (cases r) auto

lemma fbind_load: "i < length xs \<Longrightarrow> fbind (load xs i) f = f (xs ! i)"
  by (simp add: load_def)

lemma fbind_store: "i < length xs \<Longrightarrow> fbind (store xs i v) f = f (xs[i := v])"
  by (simp add: store_def)

lemmas fbind_mem = fbind_load fbind_store

lemma good_update_table: "parser_inv p \<Longrightarrow> good (update_table f p)"
  by (simp add: parser_inv_def update_table_def fbind_mem)

lemma good_update_attributes: "parser_inv p \<Longrightarrow> good (update_attributes f p)"
  unfolding update_attributes_def by (rule good_update_table)

lemma good_item_PUSH: "parser_inv p \<Longrightarrow> good (item_PUSH p)"
  by (auto simp: item_PUSH_def fbind_mem parser_inv_def)

lemma good_item_POP: "parser_inv p \<Longrightarrow> good (item_POP p)"
  by (auto simp: item_POP_def parser_inv_def)

lemma good_item_USAGE: "parser_inv p \<Longrightarrow> good (item_USAGE it v p)"
  unfolding item_USAGE_def
  by (auto simp: parser_inv_def update_attributes_def update_table_def fbind_mem)

lemma length_shift_usages [simp]: "length (shift_usages n us) = length us"
proof -
  have "length (fold (\<lambda>i us. us[i - 1 := us ! i]) is us) = length us" for "is"
    by (induction "is" arbitrary: us) simp_all
  then show ?thesis by (simp add: shift_usages_def)
qed

lemma next_usage_form:
  assumes "parser_inv p"
  obtains u us n mm where "next_usage old p =
      Inr (u, p\<lparr>UsageList := us, UsageListSize := n, UsageMinMax := mm\<rparr>)"
    "length us = HID_USAGE_STACK_DEPTH" "n \<le> HID_USAGE_STACK_DEPTH"
proof -
  have len: "length (UsageList p) = 8" "UsageListSize p \<le> 8" using assms by (auto simp: parser_inv_def)
  consider "UsageListSize p \<noteq> 0" | "UsageListSize p = 0" "Minimum (UsageMinMax p) \<le> Maximum (UsageMinMax p)"
    | "UsageListSize p = 0" "\<not> Minimum (UsageMinMax p) \<le> Maximum (UsageMinMax p)" by blast
  then show ?thesis
  proof cases
    case 1
    with len show ?thesis
      by (intro that [of "UsageList p ! 0" "UsageMinMax p" "UsageListSize p - 1"
            "shift_usages (UsageListSize p) (UsageList p)"]) (auto simp: next_usage_def fbind_mem)
  next
    case 2
    with len show ?thesis
      by (intro that [of "ucast (Minimum (UsageMinMax p))"
            "(UsageMinMax p)\<lparr>Minimum := Minimum (UsageMinMax p) + 1\<rparr>" 0 "UsageList p"]) (auto simp: next_usage_def)
  next
    case 3
    with len show ?thesis
      by (intro that [of old "UsageMinMax p" 0 "UsageList p"]) (auto simp: next_usage_def)
  qed
qed

lemma parser_inv_usage:
  "parser_inv p \<Longrightarrow> length us = HID_USAGE_STACK_DEPTH \<Longrightarrow> n \<le> HID_USAGE_STACK_DEPTH \<Longrightarrow>
   parser_inv (p\<lparr>UsageList := us, UsageListSize := n, UsageMinMax := mm\<rparr>)"
  by (simp add: parser_inv_def)

lemma find_report_id_in:
  "i + n \<le> length infos \<Longrightarrow> \<exists>r. find_report_id infos rid i n = Inr r \<and> (\<forall>k. r = Some k \<longrightarrow> k < length infos)"
  by (induction infos rid i n rule: find_report_id.induct) (auto simp: fbind_mem)

lemma in_set_update: "x \<in> set (xs[i := v]) \<Longrightarrow> x = v \<or> x \<in> set xs"
  by (metis insertE set_update_subset_insert subsetD)

lemma select_report_id_in:
  assumes "wf_info d" "cur < HID_MAX_REPORT_IDS"
  shows "\<exists>d' r. select_report_id rid d cur = Inr (d', r) \<and> wf_info d' \<and>
    CollectionPaths d' = CollectionPaths d \<and> (\<forall>k. r = Some k \<longrightarrow> k < HID_MAX_REPORT_IDS)"
proof -
  have len: "length (ReportIDSizes d) = 10" "TotalDeviceReports d \<le> 10" using assms by (auto simp: wf_info_def)
  with find_report_id_in [of 0 "TotalDeviceReports d" "ReportIDSizes d" rid] obtain r where
    r: "find_report_id (ReportIDSizes d) rid 0 (TotalDeviceReports d) = Inr r" "\<forall>k. r = Some k \<longrightarrow> k < 10" by auto
  show ?thesis
  proof (cases r)
    case (Some k)
    with r assms show ?thesis by (auto simp: select_report_id_def)
  next
    case None
    with r assms len show ?thesis
      by (auto simp: select_report_id_def Let_def fbind_mem wf_info_def zero_size_info_def dest!: in_set_update)
  qed
qed


lemma update_table_form:
  assumes "parser_inv p"
  obtains ts where "update_table f p = Inr (None, p\<lparr>StateTable := ts\<rparr>)" "length ts = HID_STATETABLE_STACK_DEPTH"
  using assms
  by (intro that [of "(StateTable p)[CurrStateTable p := f (StateTable p ! CurrStateTable p)]"])
    (simp_all add: parser_inv_def update_table_def fbind_mem)

lemma good_item_REPORT_ID:
  assumes "parser_inv p"
  shows "good (item_REPORT_ID v p)"
proof -
  from assms obtain ts where
    u: "update_table (\<lambda>t. t\<lparr>st_ReportID := ucast v\<rparr>) p = Inr (None, p\<lparr>StateTable := ts\<rparr>)" "length ts = 2"
    by (rule update_table_form)
  let ?id = "st_ReportID (ts ! CurrStateTable p)"
  have w: "wf_info (ParserData p)" "CurrReportIDInfo p < 10" "CurrStateTable p < length ts"
    using assms u(2) by (simp_all add: parser_inv_def)
  from select_report_id_in [OF w(1,2)] obtain d r where
    d: "select_report_id ?id (ParserData p) (CurrReportIDInfo p) = Inr (d, r)" "wf_info d"
      "CollectionPaths d = CollectionPaths (ParserData p)" "\<forall>k. r = Some k \<longrightarrow> k < 10" by blast
  show ?thesis
  proof (cases r)
    case None
    with d u w assms show ?thesis by (simp add: item_REPORT_ID_def fbind_mem parser_inv_def)
  next
    case (Some i)
    let ?s = "ReportIDSizes d"
    have len: "length ?s = 10" using d(2) by (simp add: wf_info_def)
    have "\<forall>s \<in> set (?s[i := (?s ! i)\<lparr>size_ReportID := ?id\<rparr>]). length (ReportSizeBits s) = 3"
      using d(2,4) Some len by (auto simp: wf_info_def dest!: in_set_update)
    with Some d u w len assms show ?thesis by (simp add: item_REPORT_ID_def fbind_mem parser_inv_def wf_info_def)
  qed
qed

lemma free_collection_in:
  "i + n < length cs \<Longrightarrow> \<exists>r. free_collection cs i n = Inr r \<and>
    (\<forall>k. r = Some k \<longrightarrow> i \<le> k \<and> k \<le> i + n \<and> Parent (cs ! k) = None \<and> (\<forall>l. i \<le> l \<and> l < k \<longrightarrow> Parent (cs ! l) \<noteq> None))"
proof (induction n arbitrary: i)
  case 0
  then show ?case by (subst free_collection.simps) (auto simp: fbind_mem split: option.splits)
next
  case (Suc m)
  then have i: "i < length cs" by simp
  show ?case
  proof (cases "Parent (cs ! i)")
    case None
    with i show ?thesis by (subst free_collection.simps) (auto simp: fbind_mem)
  next
    case (Some j)
    from Suc.IH [of "i + 1"] Suc.prems obtain r where
      r: "free_collection cs (i + 1) m = Inr r"
      "\<forall>k. r = Some k \<longrightarrow> i + 1 \<le> k \<and> k \<le> i + 1 + m \<and> Parent (cs ! k) = None \<and>
        (\<forall>l. i + 1 \<le> l \<and> l < k \<longrightarrow> Parent (cs ! l) \<noteq> None)" by auto
    have "free_collection cs i (Suc m) = Inr r"
      using i Some r(1) by (subst free_collection.simps) (simp add: fbind_mem)
    moreover have "Parent (cs ! l) \<noteq> None" if "i \<le> l" "l < k" "r = Some k" for k l
      using r(2) that Some by (cases "l = i") auto
    ultimately show ?thesis using r(2) by auto
  qed
qed

text \<open>A parent in use comes before the first free collection.\<close>

lemma parent_before:
  assumes "wf_collections cs" "in_use cs (Some j)" "1 \<le> i" "i < HID_MAX_COLLECTIONS" "Parent (cs ! i) = None"
  shows "j < i"
proof (rule ccontr)
  assume "\<not> j < i"
  then consider "j = i" | "i < j" by linarith
  then show False
  proof cases
    case 1
    with assms show ?thesis by (simp add: in_use_def)
  next
    case 2
    with assms(2,3) have "j < 10" "Parent (cs ! j) \<noteq> None" by (auto simp: in_use_def)
    with 2 assms(1,3) have "Parent (cs ! i) \<noteq> None" unfolding wf_collections_def by blast
    with assms(5) show ?thesis by blast
  qed
qed

lemma wf_collections_open:
  assumes "wf_collections cs" "j < i" "1 \<le> i" "i < HID_MAX_COLLECTIONS"
    and "\<forall>l. 1 \<le> l \<and> l < i \<longrightarrow> Parent (cs ! l) \<noteq> None" "Parent c = Some j"
  shows "wf_collections (cs[i := c])"
proof -
  have p: "Parent (cs[i := c] ! k) = (if k = i then Some j else Parent (cs ! k))" for k
    using assms by (simp add: wf_collections_def nth_list_update)
  have "Parent (cs[i := c] ! k) = Some l \<Longrightarrow> l < k" if "k < 10" for k l
    using assms(1,2) that by (auto simp: p wf_collections_def split: if_splits)
  moreover have "Parent (cs[i := c] ! l) \<noteq> None" if "k < 10" "l < k" "1 \<le> l" "Parent (cs[i := c] ! k) \<noteq> None" for k l
  proof (cases "k = i")
    case True
    with that assms(5) show ?thesis by (simp add: p)
  next
    case False
    with that have "Parent (cs ! k) \<noteq> None" by (simp add: p)
    with that assms(1) have "Parent (cs ! l) \<noteq> None" unfolding wf_collections_def by blast
    then show ?thesis by (simp add: p)
  qed
  ultimately show ?thesis using assms(1) by (auto simp: wf_collections_def)
qed

lemma wf_collections_same:
  assumes "wf_collections cs" "i < HID_MAX_COLLECTIONS" "Parent c = Parent (cs ! i)"
  shows "wf_collections (cs[i := c])"
proof -
  have "Parent (cs[i := c] ! k) = Parent (cs ! k)" for k
    using assms by (simp add: wf_collections_def nth_list_update)
  with assms(1) show ?thesis by (simp add: wf_collections_def)
qed

lemma in_use_update:
  assumes "in_use cs c" "Parent (cs ! i) = None \<or> Parent d \<noteq> None" "length cs = HID_MAX_COLLECTIONS"
  shows "in_use (cs[i := d]) c"
proof (cases c)
  case (Some a)
  with assms show ?thesis by (cases "i = a") (auto simp: in_use_def)
qed (simp add: in_use_def)


lemma open_collection_in:
  assumes "wf_collections cs" "in_use cs cur"
  shows "\<exists>cs' r. open_collection cs cur = Inr (cs', r) \<and> wf_collections cs' \<and>
    (\<forall>c. in_use cs c \<longrightarrow> in_use cs' c) \<and> in_use cs' r"
proof (cases cur)
  case None
  with assms show ?thesis by (simp add: open_collection_def in_use_def)
next
  case (Some j)
  have len: "length cs = 10" using assms(1) by (simp add: wf_collections_def)
  with free_collection_in [of 1 8 cs] obtain r where r: "free_collection cs 1 8 = Inr r"
    "\<And>k. r = Some k \<Longrightarrow> 1 \<le> k \<and> k \<le> 9 \<and> Parent (cs ! k) = None \<and> (\<forall>l. 1 \<le> l \<and> l < k \<longrightarrow> Parent (cs ! l) \<noteq> None)"
    by auto
  show ?thesis
  proof (cases r)
    case None
    with Some r assms show ?thesis by (simp add: open_collection_def in_use_def)
  next
    case (Some i)
    let ?cs = "cs[i := (cs ! i)\<lparr>Parent := Some j\<rparr>]"
    have i: "1 \<le> i" "i < 10" "Parent (cs ! i) = None" "\<forall>l. 1 \<le> l \<and> l < i \<longrightarrow> Parent (cs ! l) \<noteq> None"
      using r(2) [OF Some] by auto
    have "j < i" using parent_before [OF assms(1) _ i(1,2,3)] assms(2) \<open>cur = Some j\<close> by simp
    from wf_collections_open [OF assms(1) this i(1,2,4)] have "wf_collections ?cs" by simp
    moreover have "in_use ?cs c" if "in_use cs c" for c using in_use_update [OF that _ len, of i] i(3) by simp
    moreover have "in_use ?cs (Some i)" using i len by (simp add: in_use_def)
    moreover have "open_collection cs cur = Inr (?cs, Some i)"
      using Some r(1) i len \<open>cur = Some j\<close> by (simp add: open_collection_def fbind_mem)
    ultimately show ?thesis by blast
  qed
qed

lemma good_item_COLLECTION:
  assumes "parser_inv p"
  shows "good (item_COLLECTION v p)"
proof -
  let ?cs = "CollectionPaths (ParserData p)"
  have w: "wf_info (ParserData p)" "wf_collections ?cs" "in_use ?cs (CurrCollectionPath p)"
    using assms by (simp_all add: parser_inv_def wf_info_def)
  from open_collection_in [OF w(2,3)] obtain cs r where
    o: "open_collection ?cs (CurrCollectionPath p) = Inr (cs, r)" "wf_collections cs"
      "\<And>c. in_use ?cs c \<Longrightarrow> in_use cs c" "in_use cs r" by blast
  show ?thesis
  proof (cases r)
    case None
    with o(1) assms show ?thesis by (simp add: item_COLLECTION_def)
  next
    case (Some i)
    have len: "length cs = 10" "i < 10" using o(2,4) Some by (simp_all add: wf_collections_def in_use_def)
    let ?t = "StateTable p ! CurrStateTable p"
    from assms obtain u us n mm where
      u: "next_usage (Usage (col_Usage (cs ! i))) p = Inr (u, p\<lparr>UsageList := us, UsageListSize := n, UsageMinMax := mm\<rparr>)"
      "length us = 8" "n \<le> 8" by (rule next_usage_form)
    define c where "c = (cs ! i)\<lparr>col_Type := ucast v,
      col_Usage := \<lparr>Page = Page (attr_Usage (st_Attributes ?t)), Usage = u\<rparr>\<rparr>"
    have c: "Parent c = Parent (cs ! i)" by (simp add: c_def)
    have wf: "wf_collections (cs[i := c])" by (rule wf_collections_same [OF o(2) len(2) c])
    have same: "in_use (cs[i := c]) x = in_use cs x" for x
      using len c by (cases x) (auto simp: in_use_def nth_list_update)
    have eq: "item_COLLECTION v p = Inr (None, p\<lparr>UsageList := us, UsageListSize := n, UsageMinMax := mm,
        ParserData := (ParserData p)\<lparr>CollectionPaths := cs[i := c]\<rparr>, CurrCollectionPath := Some i\<rparr>)"
      using Some o(1) u(1) len assms by (simp add: item_COLLECTION_def fbind_mem parser_inv_def c_def)
    show ?thesis unfolding eq good_Inr
      using assms wf o(3) o(4) Some u(2,3) by (simp add: parser_inv_def wf_info_def same)
  qed
qed

lemma good_item_END_COLLECTION:
  assumes "parser_inv p"
  shows "good (item_END_COLLECTION p)"
proof (cases "CurrCollectionPath p")
  case None
  with assms show ?thesis by (simp add: item_END_COLLECTION_def)
next
  case (Some i)
  let ?cs = "CollectionPaths (ParserData p)"
  have w: "wf_collections ?cs" "i < 10" "i < length ?cs" using assms Some
    by (auto simp: parser_inv_def wf_info_def in_use_def wf_collections_def)
  have "in_use ?cs (Parent (?cs ! i))"
  proof (cases "Parent (?cs ! i)")
    case (Some j)
    with w have "j < i" by (auto simp: wf_collections_def)
    moreover have "Parent (?cs ! j) \<noteq> None" if "1 \<le> j"
      using w Some \<open>j < i\<close> that unfolding wf_collections_def by (metis option.distinct(1))
    ultimately show ?thesis using Some w(2) by (cases "j = 0") (auto simp: in_use_def)
  qed (simp add: in_use_def)
  with assms Some w(3) show ?thesis by (simp add: item_END_COLLECTION_def fbind_mem parser_inv_def)
qed


text \<open>What a turn of the loop over the report count leaves behind.\<close>

definition item_added ::
  "hid_parser \<Rightarrow> HID_ReportSizeInfo_t list \<Rightarrow> u16 \<Rightarrow> HID_ReportItem_t \<Rightarrow> bool \<Rightarrow> parsing" where
  "item_added p infos largest it keep =
     (let d = (ParserData p)\<lparr>ReportIDSizes := infos, LargestReportSizeBits := largest\<rparr> in
      if TotalReportItems d = HID_MAX_REPORTITEMS
      then fail_with HID_PARSE_InsufficientReportItems (p\<lparr>ParserData := d\<rparr>)
      else proceed (p\<lparr>ParserData :=
        (if keep then d\<lparr>ReportItems := (ReportItems d)[TotalReportItems d := it], TotalReportItems := TotalReportItems d + 1\<rparr>
         else d\<lparr>ReportItems := (ReportItems d)[TotalReportItems d := it]\<rparr>)\<rparr>))"

lemma good_item_added:
  assumes "parser_inv p" "length infos = HID_MAX_REPORT_IDS" "\<forall>s \<in> set infos. length (ReportSizeBits s) = 3"
    and "CollectionPath it = CurrCollectionPath p"
  shows "good (item_added p infos largest it keep)"
proof -
  let ?d = "ParserData p"
  have "\<forall>x \<in> set ((ReportItems ?d)[k := it]). in_use (CollectionPaths ?d) (CollectionPath x)" for k
    using assms(1,4) by (auto simp: parser_inv_def wf_info_def dest!: in_set_update)
  with assms(1-3) show ?thesis by (auto simp: item_added_def Let_def parser_inv_def wf_info_def)
qed

lemma main_item_form:
  assumes "parser_inv p"
  obtains us n mm infos largest it keep where
    "main_item Filter junk ty v p =
       item_added (p\<lparr>UsageList := us, UsageListSize := n, UsageMinMax := mm\<rparr>) infos largest it keep"
    "length us = HID_USAGE_STACK_DEPTH" "n \<le> HID_USAGE_STACK_DEPTH"
    "length infos = HID_MAX_REPORT_IDS" "\<forall>s \<in> set infos. length (ReportSizeBits s) = 3"
    "CollectionPath it = CurrCollectionPath p"
proof -
  let ?t = "StateTable p ! CurrStateTable p" and ?d = "ParserData p"
  let ?i = "CurrReportIDInfo p" and ?s = "ReportIDSizes (ParserData p)" and ?k = "item_type_value ty"
  have t: "CurrStateTable p < length (StateTable p)" using assms by (simp add: parser_inv_def)
  from assms obtain u us n mm where
    u: "next_usage (Usage (attr_Usage (st_Attributes ?t))) p =
      Inr (u, p\<lparr>UsageList := us, UsageListSize := n, UsageMinMax := mm\<rparr>)"
    "length us = 8" "n \<le> 8" by (rule next_usage_form)
  have s: "?i < length ?s" "length ?s = 10" "length (ReportSizeBits (?s ! ?i)) = 3"
    and items: "length (ReportItems ?d) = 20" "TotalReportItems ?d \<le> 20"
    using assms by (auto simp: parser_inv_def wf_info_def)
  have ty: "?k < 3" by (cases ty) simp_all
  define offset where "offset = ReportSizeBits (?s ! ?i) ! ?k"
  define bits where "bits = offset + ucast (BitSize (st_Attributes ?t))"
  define infos where "infos = ?s[?i := (?s ! ?i)\<lparr>ReportSizeBits := (ReportSizeBits (?s ! ?i))[?k := bits]\<rparr>]"
  define it where "it = \<lparr>BitOffset = offset, ItemType = ty, ItemFlags = ucast v,
     item_ReportID = st_ReportID ?t, CollectionPath = CurrCollectionPath p,
     item_Attributes = (st_Attributes ?t)\<lparr>attr_Usage := (attr_Usage (st_Attributes ?t))\<lparr>Usage := u\<rparr>\<rparr>,
     Value = fst junk, PreviousValue = snd junk\<rparr>"
  have "main_item Filter junk ty v p =
       item_added (p\<lparr>UsageList := us, UsageListSize := n, UsageMinMax := mm\<rparr>) infos
         (max (LargestReportSizeBits ?d) bits) it (v AND 1 = 0 \<and> Filter it)"
    using t u(1) s ty items
    by (simp add: main_item_def item_added_def fbind_mem Let_def offset_def bits_def infos_def it_def)
  moreover have "length infos = 10" "\<forall>x \<in> set infos. length (ReportSizeBits x) = 3"
    using assms s by (auto simp: infos_def parser_inv_def wf_info_def dest!: in_set_update)
  moreover have "CollectionPath it = CurrCollectionPath p" by (simp add: it_def)
  ultimately show ?thesis using u(2,3) that by blast
qed

lemma good_main_item:
  assumes "parser_inv p"
  shows "good (main_item Filter junk ty v p)"
proof -
  from assms obtain us n mm infos largest it keep where
    eq: "main_item Filter junk ty v p =
       item_added (p\<lparr>UsageList := us, UsageListSize := n, UsageMinMax := mm\<rparr>) infos largest it keep"
    and f: "length us = 8" "n \<le> 8" "length infos = 10" "\<forall>s \<in> set infos. length (ReportSizeBits s) = 3"
      "CollectionPath it = CurrCollectionPath p" by (rule main_item_form)
  from parser_inv_usage [OF assms f(1,2)] f show ?thesis unfolding eq by (intro good_item_added) simp_all
qed

lemma good_main_items: "parser_inv p \<Longrightarrow> good (main_items Filter junk ty v n p)"
proof (induction n arbitrary: p)
  case (Suc n)
  have "good (fbind (main_item Filter junk ty v p)
      (\<lambda>(e, p). case e of Some e \<Rightarrow> fail_with e p | None \<Rightarrow> main_items Filter junk ty v n p))"
    by (rule good_fbind [OF good_main_item [OF Suc.prems]]) (auto simp: Suc.IH split: option.splits)
  then show ?case by simp
qed simp

lemma good_item_MAIN: "parser_inv p \<Longrightarrow> good (item_MAIN Filter junk ty v p)"
  by (simp add: item_MAIN_def fbind_mem good_main_items parser_inv_def [of p])

lemmas good_items = good_update_table good_update_attributes good_item_PUSH good_item_POP good_item_USAGE
  good_item_REPORT_ID good_item_COLLECTION good_item_END_COLLECTION good_item_MAIN

lemma good_process_item:
  assumes "parser_inv p"
  shows "good (process_item Filter junk it v p)"
proof -
  have "parser_inv (p\<lparr>UsageMinMax := mm\<rparr>)" for mm using assms by (simp add: parser_inv_def)
  with assms show ?thesis by (simp add: process_item_def Let_def good_items)
qed

lemma parser_inv_end_item: "parser_inv p \<Longrightarrow> parser_inv (end_item it p)"
  by (simp add: end_item_def parser_inv_def)

lemma parser_inv_init: "parser_inv parser_init"
  by (auto simp: parser_inv_def parser_init_def wf_info_def wf_collections_def in_use_def zero_item_def zero_size_info_def)

section \<open>Memory safety of the parser\<close>

text \<open>The bytes of data an item announces; a descriptor is complete if no item is cut off.\<close>

definition item_length :: "u8 \<Rightarrow> nat" where
  "item_length it = (let sz = it AND 0x03 in if sz = 3 then 4 else unat sz)"

fun complete :: "bytes \<Rightarrow> bool" where
  "complete [] \<longleftrightarrow> True"
| "complete (it # D) \<longleftrightarrow> item_length it \<le> length D \<and> complete (drop (item_length it) D)"

lemma item_data_length:
  "\<exists>v. item_data it D = (if item_length it \<le> length D then Inr (v, item_length it) else Inl OutOfBounds)"
proof -
  have "it AND 3 < 4" by (rule order_le_less_trans [OF word_and_le1]) simp
  then have "unat (it AND 3) < 4" by (simp add: word_less_nat_alt)
  then have "it AND 3 = 0 \<or> it AND 3 = 1 \<or> it AND 3 = 2 \<or> it AND 3 = 3"
    by (auto simp: word_unat_eq_iff)
  then show ?thesis
    by (auto simp: item_data_def item_length_def Let_def load_def; cases D; simp)
qed

text \<open>The loop on a complete descriptor, and on one that is cut off.\<close>

lemma parse_items_Cons:
  "rs \<noteq> 0 \<Longrightarrow> item_data it D = Inr (v, n) \<Longrightarrow> parse_items Filter junk rs (it # D) p =
    fbind (process_item Filter junk it v p) (\<lambda>(e, p). case e of Some e \<Rightarrow> fail_with e p
      | None \<Rightarrow> parse_items Filter junk (rs - 1 - of_nat n) (drop n D) (end_item it p))"
  by (subst parse_items.simps) simp

lemma parse_items_complete:
  assumes "complete D" "length D < 65536" "parser_inv p"
  shows "good (parse_items Filter junk (of_nat (length D)) D p)"
  using assms
proof (induction D arbitrary: p rule: complete.induct)
  case 1
  then show ?case by (simp add: parse_items.simps)
next
  case (2 it D)
  let ?n = "item_length it"
  have n: "?n \<le> length D" using 2 by simp
  with item_data_length [of it D] obtain v where v: "item_data it D = Inr (v, ?n)" by auto
  have sz: "(of_nat (length (it # D)) :: u16) \<noteq> 0" using 2 by (simp add: word_unat_eq_iff unat_of_nat del: of_nat_Suc)
  have rest: "of_nat (length (it # D)) - 1 - of_nat ?n = (of_nat (length (drop ?n D)) :: u16)"
    using n by (simp add: of_nat_diff)
  have "good (fbind (process_item Filter junk it v p) (\<lambda>(e, p). case e of Some e \<Rightarrow> fail_with e p
      | None \<Rightarrow> parse_items Filter junk (of_nat (length (drop ?n D))) (drop ?n D) (end_item it p)))"
    by (rule good_fbind [OF good_process_item [OF 2(4)]])
      (use 2 in \<open>auto simp: parser_inv_end_item split: option.splits\<close>)
  then show ?case unfolding parse_items_Cons [OF sz v] rest .
qed


lemma parse_items_cut:
  assumes "\<not> complete D" "length D < 65536" "parser_inv p"
  shows "parse_items Filter junk (of_nat (length D)) D p = Inl OutOfBounds \<or>
    (\<exists>e q. parse_items Filter junk (of_nat (length D)) D p = Inr (Some e, q) \<and> e \<noteq> HID_PARSE_Successful)"
  using assms
proof (induction D arbitrary: p rule: complete.induct)
  case (2 it D)
  let ?n = "item_length it"
  have sz: "(of_nat (length (it # D)) :: u16) \<noteq> 0" using 2 by (simp add: word_unat_eq_iff unat_of_nat del: of_nat_Suc)
  show ?case
  proof (cases "?n \<le> length D")
    case False
    with item_data_length [of it D] have "item_data it D = Inl OutOfBounds" by auto
    with sz show ?thesis by (subst (1) parse_items.simps) simp
  next
    case True
    with item_data_length [of it D] obtain v where v: "item_data it D = Inr (v, ?n)" by auto
    have rest: "of_nat (length (it # D)) - 1 - of_nat ?n = (of_nat (length (drop ?n D)) :: u16)"
      using True by (simp add: of_nat_diff)
    obtain e q where q: "process_item Filter junk it v p = Inr (e, q)" "e \<noteq> Some HID_PARSE_Successful" "parser_inv q"
      using good_process_item [OF 2(4), of Filter junk it v] by (auto simp: good_def split: sum.splits)
    show ?thesis
      using 2(1) [of "end_item it q"] 2(2,3) q True parser_inv_end_item [OF q(3), of it]
      unfolding parse_items_Cons [OF sz v] rest by (cases e) auto
  qed
qed simp

lemma ProcessHIDReport_complete:
  assumes "complete D" "length D < 65536"
  shows "\<exists>e d. USB_ProcessHIDReport Filter junk D (of_nat (length D)) = Inr (e, d) \<and> wf_info d"
proof -
  from parse_items_complete [OF assms parser_inv_init, of Filter junk] obtain e p where
    "parse_items Filter junk (of_nat (length D)) D parser_init = Inr (e, p)" "parser_inv p"
    by (auto simp: good_def split: sum.splits)
  then show ?thesis by (simp add: USB_ProcessHIDReport_def parser_inv_def)
qed

text \<open>
  C28. Memory safety of the report descriptor parser. On a descriptor whose last item is
  not cut off, and with any filter, the parser returns and never leaves the descriptor
  or one of its arrays. The structure it fills is well formed, whatever the code it
  returns: at most 20 items and 10 report IDs, items that point to a collection in
  use, and parents that come before their children. On a descriptor that is cut off it
  reads beyond the end of the buffer or returns an error; it never succeeds.
\<close>

theorem ProcessHIDReport_safe:
  assumes "length D < 65536"
  shows "(complete D \<longrightarrow> (\<exists>e d. USB_ProcessHIDReport Filter junk D (of_nat (length D)) = Inr (e, d) \<and> wf_info d)) \<and>
    (\<not> complete D \<longrightarrow> USB_ProcessHIDReport Filter junk D (of_nat (length D)) = Inl OutOfBounds \<or>
      (\<exists>e d. USB_ProcessHIDReport Filter junk D (of_nat (length D)) = Inr (e, d) \<and> e \<noteq> HID_PARSE_Successful))"
  using ProcessHIDReport_complete [OF _ assms, of Filter junk]
    parse_items_cut [OF _ assms parser_inv_init, of Filter junk]
  by (auto simp: USB_ProcessHIDReport_def)

text \<open>The firmware's own descriptor is complete; without its last two bytes it ends in the
  middle of an item.\<close>

theorem ProcessHIDReport_safe_witness:
  "complete JoystickReport \<and> \<not> complete (take 201 JoystickReport) \<and>
   (\<exists>e d. USB_ProcessHIDReport (\<lambda>_. True) (0, 0) JoystickReport 203 = Inr (e, d) \<and> wf_info d)"
proof -
  have c: "complete JoystickReport" "\<not> complete (take 201 JoystickReport)" by code_simp+
  have "length JoystickReport < 65536" by (simp add: length_JoystickReport)
  from ProcessHIDReport_safe [OF this, of "\<lambda>_. True" "(0, 0)"] c show ?thesis by (simp add: length_JoystickReport)
qed

end
