(* ===== verification/HidJoystick.thy ===== *)
theory HidJoystick
  imports HidReports Response
begin

text \<open>
  The report descriptor of the firmware under LUFA's own parser. The descriptor
  declares its vendor reports as constant fields of 63 bytes each; the parser runs
  over them one by one, and a closed form of that loop makes the evaluation short.
\<close>

section \<open>Constant fields\<close>

text \<open>
  After the usages are used up, a turn of the loop over a constant field only moves the
  bit offset and overwrites the item behind the last one kept.
\<close>

definition skippable :: "HID_ReportItemTypes_t \<Rightarrow> u32 \<Rightarrow> nat \<Rightarrow> hid_parser \<Rightarrow> bool" where
  "skippable ty v n p \<longleftrightarrow>
     v AND 1 \<noteq> 0 \<and> UsageListSize p = 0 \<and> \<not> Minimum (UsageMinMax p) \<le> Maximum (UsageMinMax p) \<and>
     CurrStateTable p < length (StateTable p) \<and>
     TotalReportItems (ParserData p) < length (ReportItems (ParserData p)) \<and>
     TotalReportItems (ParserData p) < HID_MAX_REPORTITEMS \<and>
     (let i = CurrReportIDInfo p; infos = ReportIDSizes (ParserData p) in
      i < length infos \<and> item_type_value ty < length (ReportSizeBits (infos ! i)) \<and>
      uint (ReportSizeBits (infos ! i) ! item_type_value ty) +
        int n * uint (BitSize (st_Attributes (StateTable p ! CurrStateTable p))) < 65536)"

definition skip_items :: "u32 \<times> u32 \<Rightarrow> HID_ReportItemTypes_t \<Rightarrow> u32 \<Rightarrow> nat \<Rightarrow> hid_parser \<Rightarrow> hid_parser" where
  "skip_items junk ty v n p =
     (let t = StateTable p ! CurrStateTable p;
          d = ParserData p;
          i = CurrReportIDInfo p;
          info = ReportIDSizes d ! i;
          offset = ReportSizeBits info ! item_type_value ty;
          size = ucast (BitSize (st_Attributes t));
          bits = offset + of_nat n * size;
          it = \<lparr>BitOffset = offset + of_nat (n - 1) * size, ItemType = ty, ItemFlags = ucast v,
            item_ReportID = st_ReportID t, CollectionPath = CurrCollectionPath p,
            item_Attributes = st_Attributes t, Value = fst junk, PreviousValue = snd junk\<rparr>
      in p\<lparr>ParserData := d\<lparr>ReportItems := (ReportItems d)[TotalReportItems d := it],
           ReportIDSizes := (ReportIDSizes d)[i := info\<lparr>ReportSizeBits := (ReportSizeBits info)[item_type_value ty := bits]\<rparr>],
           LargestReportSizeBits := max (LargestReportSizeBits d) bits\<rparr>\<rparr>)"

lemma main_item_skip:
  assumes "skippable ty v n p" 
  shows "main_item Filter junk ty v p = Inr (None, skip_items junk ty v 1 p)"
  using assms by (simp add: skippable_def main_item_def skip_items_def next_usage_def fbind_mem Let_def)

lemma unat_offset:
  "unat off + k * unat (w :: u8) < 65536 \<Longrightarrow> unat (off + of_nat k * ucast w :: u16) = unat off + k * unat w"
proof -
  assume "unat off + k * unat w < 65536"
  moreover have "off + of_nat k * ucast w = (of_nat (unat off + k * unat w) :: u16)" by simp
  ultimately show ?thesis by (simp only:) (subst unat_of_nat, simp)
qed

lemma max_offset:
  assumes "unat off + Suc n * unat (w :: u8) < 65536"
  shows "max (max l (off + ucast w)) (off + of_nat (Suc n) * ucast w) = max l (off + of_nat (Suc n) * ucast w :: u16)"
proof -
  have "unat off + 1 * unat w < 65536" using assms by (simp add: algebra_simps)
  from unat_offset [OF this] unat_offset [OF assms] have "off + ucast w \<le> off + of_nat (Suc n) * ucast w"
    by (simp add: word_le_nat_alt)
  then show ?thesis by (simp only: max.assoc max.absorb2)
qed

lemma skip_items_add:
  assumes "skippable ty v (Suc n) p" "0 < n"
  shows "skippable ty v n (skip_items junk ty v 1 p)"
    and "skip_items junk ty v n (skip_items junk ty v 1 p) = skip_items junk ty v (Suc n) p"
proof -
  let ?i = "CurrReportIDInfo p" and ?k = "item_type_value ty"
  let ?infos = "ReportIDSizes (ParserData p)"
  define off where "off = ReportSizeBits (?infos ! ?i) ! ?k"
  define w where "w = BitSize (st_Attributes (StateTable p ! CurrStateTable p))"
  have sk: "?i < length ?infos" "?k < length (ReportSizeBits (?infos ! ?i))"
    and b: "uint off + int (Suc n) * uint w < 65536"
    using assms by (simp_all add: skippable_def Let_def off_def w_def)
  then have b: "unat off + Suc n * unat w < 65536" by (simp only: uint_nat of_nat_mult [symmetric] of_nat_add [symmetric])
  have "unat (off + ucast w) = unat off + unat w" using unat_offset [of off 1 w] b by (simp add: algebra_simps)
  then have 1: "uint (off + ucast w) = uint off + uint w" by (simp only: uint_nat of_nat_add)
  show "skippable ty v n (skip_items junk ty v 1 p)"
    using assms sk b 1 by (simp add: skippable_def skip_items_def Let_def off_def [symmetric] w_def [symmetric] algebra_simps)
  obtain m where m: "n = Suc m" using assms(2) gr0_implies_Suc by blast
  have 2: "off + ucast w + of_nat m * ucast w = off + (1 + of_nat m) * (ucast w :: u16)"
    "off + ucast w + (1 + of_nat m) * ucast w = off + (2 + of_nat m) * (ucast w :: u16)"
    by (simp_all add: algebra_simps)
  have 3: "max (max l (off + ucast w)) (off + (2 + of_nat m) * ucast w) = max l (off + (2 + of_nat m) * ucast w)" for l
    using max_offset [OF b, of l] m by simp
  show "skip_items junk ty v n (skip_items junk ty v 1 p) = skip_items junk ty v (Suc n) p"
    using sk by (simp add: skip_items_def Let_def off_def [symmetric] w_def [symmetric] m 2 3)
qed

lemma main_items_skip:
  "skippable ty v n p \<Longrightarrow> 0 < n \<Longrightarrow> main_items Filter junk ty v n p = Inr (None, skip_items junk ty v n p)"
proof (induction n arbitrary: p)
  case (Suc n)
  show ?case
  proof (cases "n = 0")
    case True
    with main_item_skip [OF Suc.prems(1)] show ?thesis by simp
  next
    case False
    with skip_items_add [OF Suc.prems(1), of junk] Suc.IH main_item_skip [OF Suc.prems(1)] show ?thesis by simp
  qed
qed simp

lemma main_items_code [code]:
  "main_items Filter junk ty v n p =
     (if n = 0 then Inr (None, p)
      else if skippable ty v n p then Inr (None, skip_items junk ty v n p)
      else fbind (main_item Filter junk ty v p) (\<lambda>(e, p).
        case e of Some e \<Rightarrow> Inr (Some e, p) | None \<Rightarrow> main_items Filter junk ty v (n - 1) p))"
proof (cases n)
  case (Suc m)
  then have m: "n - 1 = m" by simp
  show ?thesis unfolding m using main_items_skip [of ty v n p Filter junk] Suc by auto
qed simp

definition buttons :: "HID_ReportItem_t \<Rightarrow> bool" where
  "buttons it \<longleftrightarrow> Page (attr_Usage (item_Attributes it)) = 9"


lemma joystick_parse:
  "map_sum id (\<lambda>(e, d). (e,
       map (\<lambda>it. (item_ReportID it, BitOffset it, Usage (attr_Usage (item_Attributes it)))) (take (TotalReportItems d) (ReportItems d)),
       map (\<lambda>(rid, ty). USB_GetHIDReportSize d rid ty) [(0x30, 0), (0x21, 0), (0x81, 0), (0x01, 1), (0x10, 1), (0x80, 1), (0x82, 1)]))
     (USB_ProcessHIDReport buttons (x, y) JoystickReport 203) =
   Inr (HID_PARSE_Successful,
     [(48, 0, 1), (48, 1, 2), (48, 2, 3), (48, 3, 4), (48, 4, 5), (48, 5, 6), (48, 6, 7), (48, 7, 8), (48, 8, 9),
      (48, 9, 10), (48, 10, 11), (48, 11, 12), (48, 12, 13), (48, 13, 14), (48, 84, 15), (48, 85, 16), (48, 86, 17), (48, 87, 18)],
     [Inr 63, Inr 63, Inr 63, Inr 63, Inr 63, Inr 63, Inr 63])"
  by code_simp


section \<open>Properties\<close>


text \<open>
  A second top-level collection. Opening a collection outside of any other one always
  takes the first entry of the table and replaces its type; the report items stay as
  they are, so those of an earlier top-level collection now point to the later one.
\<close>

theorem top_level_collection:
  assumes "parser_inv p" "CurrCollectionPath p = None"
  shows "\<exists>q. item_COLLECTION v p = Inr (None, q) \<and> CurrCollectionPath q = Some 0 \<and>
    ReportItems (ParserData q) = ReportItems (ParserData p) \<and>
    col_Type (CollectionPaths (ParserData q) ! 0) = ucast v \<and>
    Page (col_Usage (CollectionPaths (ParserData q) ! 0)) =
      Page (attr_Usage (st_Attributes (StateTable p ! CurrStateTable p)))"
proof -
  let ?cs = "CollectionPaths (ParserData p)"
  from assms(1) obtain u us n mm where
    u: "next_usage (Usage (col_Usage (?cs ! 0))) p = Inr (u, p\<lparr>UsageList := us, UsageListSize := n, UsageMinMax := mm\<rparr>)"
    by (rule next_usage_form)
  have "0 < length ?cs" "CurrStateTable p < length (StateTable p)"
    using assms(1) by (auto simp: parser_inv_def wf_info_def wf_collections_def)
  with u assms(2) show ?thesis by (simp add: item_COLLECTION_def open_collection_def fbind_mem)
qed

text \<open>A keyboard with one key followed by a mouse with one button: the key is said to be of the mouse.\<close>

definition keyboard_and_mouse :: bytes where
  "keyboard_and_mouse =
     HID_RI_USAGE_PAGE B8 1 @ HID_RI_USAGE B8 6 @ HID_RI_COLLECTION B8 1 @
       HID_RI_REPORT_SIZE B8 8 @ HID_RI_REPORT_COUNT B8 1 @ HID_RI_INPUT B8 2 @ HID_RI_END_COLLECTION B0 0 @
     HID_RI_USAGE B8 2 @ HID_RI_COLLECTION B8 1 @ HID_RI_INPUT B8 2 @ HID_RI_END_COLLECTION B0 0"

lemma keyboard_and_mouse_parsed:
  "map_sum id (\<lambda>(e, d). (e, map CollectionPath (take (TotalReportItems d) (ReportItems d)),
       Usage (col_Usage (CollectionPaths d ! 0))))
     (USB_ProcessHIDReport (\<lambda>_. True) (0, 0) keyboard_and_mouse 20) = Inr (HID_PARSE_Successful, [Some 0, Some 0], 2)"
  by code_simp

theorem top_level_collection_witness:
  "(\<exists>q. item_COLLECTION 1 parser_init = Inr (None, q) \<and> CurrCollectionPath q = Some 0) \<and>
   map_sum id (\<lambda>(e, d). (e, map CollectionPath (take (TotalReportItems d) (ReportItems d)),
       Usage (col_Usage (CollectionPaths d ! 0))))
     (USB_ProcessHIDReport (\<lambda>_. True) (0, 0) keyboard_and_mouse 20) = Inr (HID_PARSE_Successful, [Some 0, Some 0], 2)"
proof -
  have "CurrCollectionPath parser_init = None" by (simp add: parser_init_def)
  from top_level_collection [OF parser_inv_init this, of 1] keyboard_and_mouse_parsed show ?thesis by blast
qed

end
