(* ===== verification/RingBuffer.thy ===== *)
theory RingBuffer
  imports Prelude
begin

text \<open>
  The lightweight ring buffer of LUFA (\<open>LUFA/Drivers/Misc/RingBuffer.h\<close>). Pointers
  are offsets into the storage array, which is part of the record; the count is a
  16-bit word. The interrupt lock around the count makes each access to it one
  step, so insertion and removal are each two steps, moving the data and
  adjusting the count, and the last section interleaves them.
\<close>

section \<open>Operations\<close>

record RingBuffer_t =
  In :: nat
  Out :: nat
  Start :: nat
  End :: nat
  Size :: u16
  Count :: u16
  storage :: bytes

definition RingBuffer_InitBuffer :: "bytes \<Rightarrow> u16 \<Rightarrow> RingBuffer_t" where
  "RingBuffer_InitBuffer DataPtr sz =
     \<lparr>In = 0, Out = 0, Start = 0, End = unat sz, Size = sz, Count = 0, storage = DataPtr\<rparr>"

definition RingBuffer_GetCount :: "RingBuffer_t \<Rightarrow> u16" where
  "RingBuffer_GetCount r = Count r"

definition RingBuffer_GetFreeCount :: "RingBuffer_t \<Rightarrow> u16" where
  "RingBuffer_GetFreeCount r = Size r - RingBuffer_GetCount r"

definition RingBuffer_IsEmpty :: "RingBuffer_t \<Rightarrow> bool" where
  "RingBuffer_IsEmpty r \<longleftrightarrow> RingBuffer_GetCount r = 0"

definition RingBuffer_IsFull :: "RingBuffer_t \<Rightarrow> bool" where
  "RingBuffer_IsFull r \<longleftrightarrow> RingBuffer_GetCount r = Size r"

text \<open>\<open>if (++Buffer->P == Buffer->End) Buffer->P = Buffer->Start\<close>\<close>

definition advance :: "RingBuffer_t \<Rightarrow> nat \<Rightarrow> nat" where
  "advance r p = (if p + 1 = End r then Start r else p + 1)"

definition insert_data :: "u8 \<Rightarrow> RingBuffer_t \<Rightarrow> fault + RingBuffer_t" where
  "insert_data d r =
     fbind (store (storage r) (In r) d) (\<lambda>m. Inr (r\<lparr>storage := m, In := advance r (In r)\<rparr>))"

definition insert_count :: "RingBuffer_t \<Rightarrow> RingBuffer_t" where
  "insert_count r = r\<lparr>Count := Count r + 1\<rparr>"

definition RingBuffer_Insert :: "u8 \<Rightarrow> RingBuffer_t \<Rightarrow> fault + RingBuffer_t" where
  "RingBuffer_Insert d r = fbind (insert_data d r) (\<lambda>r. Inr (insert_count r))"

definition remove_data :: "RingBuffer_t \<Rightarrow> fault + u8 \<times> RingBuffer_t" where
  "remove_data r =
     fbind (load (storage r) (Out r)) (\<lambda>d. Inr (d, r\<lparr>Out := advance r (Out r)\<rparr>))"

definition remove_count :: "RingBuffer_t \<Rightarrow> RingBuffer_t" where
  "remove_count r = r\<lparr>Count := Count r - 1\<rparr>"

definition RingBuffer_Remove :: "RingBuffer_t \<Rightarrow> fault + u8 \<times> RingBuffer_t" where
  "RingBuffer_Remove r = fbind (remove_data r) (\<lambda>(d, r). Inr (d, remove_count r))"

definition RingBuffer_Peek :: "RingBuffer_t \<Rightarrow> fault + u8" where
  "RingBuffer_Peek r = load (storage r) (Out r)"

section \<open>What the pointers delimit\<close>

text \<open>The \<open>n\<close> bytes from \<open>Out\<close> on, and that they are exactly those before \<open>In\<close>.\<close>

definition ring :: "RingBuffer_t \<Rightarrow> nat \<Rightarrow> bytes" where
  "ring r n = map (\<lambda>i. storage r ! ((Out r + i) mod End r)) [0..<n]"

definition holds :: "RingBuffer_t \<Rightarrow> nat \<Rightarrow> bool" where
  "holds r n \<longleftrightarrow> Start r = 0 \<and> End r = unat (Size r) \<and> 0 < End r \<and> End r \<le> length (storage r) \<and>
     Out r < End r \<and> In r = (Out r + n) mod End r \<and> n \<le> End r"

lemma length_ring [simp]: "length (ring r n) = n"
  by (simp add: ring_def)

lemma advance_mod: "holds r n \<Longrightarrow> p < End r \<Longrightarrow> advance r p = (p + 1) mod End r"
  by (auto simp: advance_def holds_def)

lemma mod_add_inj:
  assumes "(a + i) mod s = (a + n) mod s" "i \<le> n" "n < i + s"
  shows "i = (n :: nat)"
proof -
  have "s dvd (a + n) - (a + i)" using assms(1,2) by (subst mod_eq_dvd_iff_nat [symmetric]) simp_all
  then have "s dvd n - i" by simp
  moreover have "n - i < s" using assms(2,3) by linarith
  ultimately have "n - i = 0" by (metis nat_dvd_not_less neq0_conv)
  with assms(2) show ?thesis by simp
qed

lemma insert_data_ring:
  assumes "holds r n" "n < End r"
  shows "\<exists>r'. insert_data d r = Inr r' \<and> holds r' (n + 1) \<and> ring r' (n + 1) = ring r n @ [d] \<and>
    Count r' = Count r \<and> Size r' = Size r"
proof -
  let ?s = "End r" and ?p = "(Out r + n) mod End r"
  let ?r = "r\<lparr>storage := (storage r)[?p := d], In := (?p + 1) mod ?s\<rparr>"
  from assms(1) have s: "In r = ?p" "0 < ?s" "?s \<le> length (storage r)" by (simp_all add: holds_def)
  have p: "In r = ?p" "?p < length (storage r)" "?p < ?s"
    using s(1) mod_less_divisor [OF s(2), of "Out r + n"] s(3) by linarith+
  have "insert_data d r = Inr ?r"
    using p advance_mod [OF assms(1) p(3)] by (simp add: insert_data_def store_def)
  moreover have "holds ?r (n + 1)" using assms by (simp add: holds_def mod_Suc_eq)
  moreover have "ring ?r (n + 1) = ring r n @ [d]"
  proof -
    have "?p \<noteq> (Out r + i) mod ?s" if "i < n" for i
      using mod_add_inj [of "Out r" i ?s n] that assms(2) by auto
    with p(2) show ?thesis by (auto simp: ring_def)
  qed
  ultimately show ?thesis by (intro exI [of _ ?r]) simp
qed

lemma remove_data_ring:
  assumes "holds r n" "0 < n"
  shows "\<exists>r'. remove_data r = Inr (hd (ring r n), r') \<and> holds r' (n - 1) \<and> ring r' (n - 1) = tl (ring r n) \<and>
    Count r' = Count r \<and> Size r' = Size r"
proof -
  let ?r = "r\<lparr>Out := (Out r + 1) mod End r\<rparr>"
  obtain k where k: "n = Suc k" using assms(2) gr0_implies_Suc by blast
  have o: "Out r < End r" "Out r < length (storage r)" using assms(1) by (auto simp: holds_def)
  have hd: "ring r n = storage r ! Out r # ring ?r k"
    using o(1) unfolding k ring_def upt_conv_Cons [OF zero_less_Suc] map_Suc_upt [symmetric]
    by (simp add: mod_add_left_eq)
  have "remove_data r = Inr (storage r ! Out r, ?r)"
    using o advance_mod [OF assms(1) o(1)] by (simp add: remove_data_def load_def)
  moreover have "holds ?r k" using assms k by (simp add: holds_def mod_add_left_eq)
  ultimately show ?thesis using hd k by (intro exI [of _ ?r]) simp
qed

section \<open>First in, first out\<close>

text \<open>
  The contract of a bounded queue and a client that, as the documentation asks,
  tests for space before it inserts and for data before it removes.
\<close>

datatype 'e queue_op = Put 'e | Get

fun guarded_step ::
  "('q \<Rightarrow> bool) \<Rightarrow> ('q \<Rightarrow> bool) \<Rightarrow> ('e \<Rightarrow> 'q \<Rightarrow> fault + 'q) \<Rightarrow> ('q \<Rightarrow> fault + 'e \<times> 'q) \<Rightarrow>
   'e queue_op \<Rightarrow> 'e list \<times> 'q \<Rightarrow> fault + 'e list \<times> 'q" where
  "guarded_step is_full is_empty ins rem (Put e) (out, q) =
     (if is_full q then Inr (out, q) else fbind (ins e q) (\<lambda>q. Inr (out, q)))"
| "guarded_step is_full is_empty ins rem Get (out, q) =
     (if is_empty q then Inr (out, q) else fbind (rem q) (\<lambda>(e, q). Inr (out @ [e], q)))"

fun fifo_step :: "nat \<Rightarrow> 'e queue_op \<Rightarrow> 'e list \<times> 'e list \<Rightarrow> 'e list \<times> 'e list" where
  "fifo_step cap (Put e) (out, xs) = (out, if length xs < cap then xs @ [e] else xs)"
| "fifo_step cap Get (out, xs) = (case xs of [] \<Rightarrow> (out, []) | x # xs \<Rightarrow> (out @ [x], xs))"

locale bounded_queue =
  fixes wf :: "'q \<Rightarrow> bool" and contents :: "'q \<Rightarrow> 'e list" and cap :: "'q \<Rightarrow> nat"
    and is_full :: "'q \<Rightarrow> bool" and is_empty :: "'q \<Rightarrow> bool"
    and ins :: "'e \<Rightarrow> 'q \<Rightarrow> fault + 'q" and rem :: "'q \<Rightarrow> fault + 'e \<times> 'q"
  assumes full_iff: "wf q \<Longrightarrow> is_full q \<longleftrightarrow> \<not> length (contents q) < cap q"
    and empty_iff: "wf q \<Longrightarrow> is_empty q \<longleftrightarrow> contents q = []"
    and ins_law: "wf q \<Longrightarrow> \<not> is_full q \<Longrightarrow>
      \<exists>q'. ins e q = Inr q' \<and> wf q' \<and> contents q' = contents q @ [e] \<and> cap q' = cap q"
    and rem_law: "wf q \<Longrightarrow> \<not> is_empty q \<Longrightarrow>
      \<exists>q'. rem q = Inr (hd (contents q), q') \<and> wf q' \<and> contents q' = tl (contents q) \<and> cap q' = cap q"
begin

lemma step_fifo:
  assumes "wf q"
  shows "\<exists>out' q'. guarded_step is_full is_empty ins rem op (out, q) = Inr (out', q') \<and> wf q' \<and> cap q' = cap q \<and>
    (out', contents q') = fifo_step (cap q) op (out, contents q)"
proof (cases op)
  case (Put e)
  with assms ins_law [OF assms, of e] full_iff [OF assms] show ?thesis by auto
next
  case Get
  with assms rem_law [OF assms] empty_iff [OF assms] show ?thesis by (auto split: list.split)
qed

lemma run_fifo:
  assumes "wf q"
  shows "\<exists>out' q'. frun (guarded_step is_full is_empty ins rem) ops (out, q) = Inr (out', q') \<and> wf q' \<and>
    (out', contents q') = fold (fifo_step (cap q)) ops (out, contents q)"
  using assms
proof (induction ops arbitrary: out q)
  case (Cons op ops)
  from step_fifo [OF Cons.prems, of op out] obtain out' q' where
    q: "guarded_step is_full is_empty ins rem op (out, q) = Inr (out', q')" "wf q'" "cap q' = cap q"
       "(out', contents q') = fifo_step (cap q) op (out, contents q)" by blast
  from Cons.IH [OF q(2), of out'] q show ?case by auto
qed simp

end

definition contents :: "RingBuffer_t \<Rightarrow> bytes" where
  "contents r = ring r (unat (Count r))"

definition wf_ring :: "RingBuffer_t \<Rightarrow> bool" where
  "wf_ring r \<longleftrightarrow> holds r (unat (Count r))"

lemma IsFull_iff: "wf_ring r \<Longrightarrow> RingBuffer_IsFull r \<longleftrightarrow> \<not> length (contents r) < unat (Size r)"
  by (auto simp: wf_ring_def holds_def RingBuffer_IsFull_def RingBuffer_GetCount_def contents_def
      word_unat_eq_iff)

lemma IsEmpty_iff: "wf_ring r \<Longrightarrow> RingBuffer_IsEmpty r \<longleftrightarrow> contents r = []"
  by (simp add: contents_def ring_def RingBuffer_IsEmpty_def RingBuffer_GetCount_def unat_eq_0)

lemma unat_add_1: "unat (w :: u16) < unat (v :: u16) \<Longrightarrow> unat (w + 1) = unat w + 1"
proof -
  have "unat v < 2 ^ 16" by (rule order_less_le_trans [OF unsigned_less]) simp
  moreover assume "unat w < unat v"
  ultimately show ?thesis by (simp add: unat_word_ariths)
qed

lemma unat_minus_1: "0 < unat (w :: u16) \<Longrightarrow> unat (w - 1) = unat w - 1"
  by (simp add: unat_minus_one unat_gt_0)

lemma Insert_law:
  assumes "wf_ring r" "\<not> RingBuffer_IsFull r"
  shows "\<exists>r'. RingBuffer_Insert d r = Inr r' \<and> wf_ring r' \<and> contents r' = contents r @ [d] \<and>
    unat (Size r') = unat (Size r)"
proof -
  have n: "unat (Count r) < unat (Size r)" "End r = unat (Size r)" "holds r (unat (Count r))"
    using assms IsFull_iff [OF assms(1)] by (auto simp: contents_def wf_ring_def holds_def)
  from insert_data_ring [OF n(3), of d] n obtain r' where r: "insert_data d r = Inr r'"
    "holds r' (unat (Count r) + 1)" "ring r' (unat (Count r) + 1) = contents r @ [d]"
    "Count r' = Count r" "Size r' = Size r" by (auto simp: contents_def)
  with unat_add_1 [OF n(1)] show ?thesis
    by (simp add: RingBuffer_Insert_def insert_count_def wf_ring_def contents_def holds_def ring_def)
qed

lemma Remove_law:
  assumes "wf_ring r" "\<not> RingBuffer_IsEmpty r"
  shows "\<exists>r'. RingBuffer_Remove r = Inr (hd (contents r), r') \<and> wf_ring r' \<and>
    contents r' = tl (contents r) \<and> unat (Size r') = unat (Size r)"
proof -
  have n: "0 < unat (Count r)" "holds r (unat (Count r))"
    using assms by (auto simp: RingBuffer_IsEmpty_def RingBuffer_GetCount_def wf_ring_def unat_gt_0)
  from remove_data_ring [OF n(2,1)] obtain r' where r: "remove_data r = Inr (hd (contents r), r')"
    "holds r' (unat (Count r) - 1)" "ring r' (unat (Count r) - 1) = tl (contents r)"
    "Count r' = Count r" "Size r' = Size r" by (auto simp: contents_def)
  with unat_minus_1 [OF n(1)] show ?thesis
    by (simp add: RingBuffer_Remove_def remove_count_def wf_ring_def contents_def holds_def ring_def)
qed

interpretation rb: bounded_queue wf_ring contents "\<lambda>r. unat (Size r)"
  RingBuffer_IsFull RingBuffer_IsEmpty RingBuffer_Insert RingBuffer_Remove
  by unfold_locales (simp_all add: IsFull_iff IsEmpty_iff Insert_law Remove_law)

lemma wf_InitBuffer:
  "0 < sz \<Longrightarrow> unat sz \<le> length m \<Longrightarrow> wf_ring (RingBuffer_InitBuffer m sz)"
  by (simp add: wf_ring_def holds_def RingBuffer_InitBuffer_def unat_gt_0 word_gt_0)

lemma contents_InitBuffer: "contents (RingBuffer_InitBuffer m sz) = []"
  by (simp add: contents_def ring_def RingBuffer_InitBuffer_def)

abbreviation ring_step :: "u8 queue_op \<Rightarrow> bytes \<times> RingBuffer_t \<Rightarrow> fault + bytes \<times> RingBuffer_t" where
  "ring_step \<equiv> guarded_step RingBuffer_IsFull RingBuffer_IsEmpty RingBuffer_Insert RingBuffer_Remove"

text \<open>
  C22. The ring buffer is a bounded queue. From its initialisation on, any sequence of
  insertions and removals, each after the test the documentation asks for, stays
  within the storage array, hands out the bytes in the order they went in, and
  holds exactly the bytes not yet handed out.
\<close>

theorem RingBuffer_fifo:
  assumes "0 < sz" "unat sz \<le> length m"
  shows "\<exists>out r. frun ring_step ops ([], RingBuffer_InitBuffer m sz) = Inr (out, r) \<and>
    (out, contents r) = fold (fifo_step (unat sz)) ops ([], [])"
proof -
  have "Size (RingBuffer_InitBuffer m sz) = sz" by (simp add: RingBuffer_InitBuffer_def)
  with rb.run_fifo [OF wf_InitBuffer [OF assms], of ops "[]"] show ?thesis
    by (auto simp: contents_InitBuffer)
qed

theorem RingBuffer_fifo_witness:
  "\<exists>out r. frun ring_step [Put 1, Put 2, Put 3, Get, Put 4, Get] ([], RingBuffer_InitBuffer [0, 0] 2) = Inr (out, r) \<and>
    (out, contents r) = ([1, 2], [4])"
  using RingBuffer_fifo [of 2 "[0, 0]" "[Put 1, Put 2, Put 3, Get, Put 4, Get]"] by simp

section \<open>Producer and consumer interrupting each other\<close>

text \<open>
  One context inserts, another removes, and either may run between the two steps
  of the other. The histories record what was given to the buffer and what was
  taken from it.
\<close>

record ring_sys =
  buffer :: RingBuffer_t
  stored :: bool
  fetched :: bool
  given :: bytes
  taken :: bytes

inductive ring_sys_step :: "ring_sys \<Rightarrow> ring_sys \<Rightarrow> bool" where
  InsertData: "ring_sys_step s (s\<lparr>buffer := b, stored := True, given := given s @ [d]\<rparr>)"
    if "\<not> stored s" "\<not> RingBuffer_IsFull (buffer s)" "insert_data d (buffer s) = Inr b"
| InsertCount: "ring_sys_step s (s\<lparr>buffer := insert_count (buffer s), stored := False\<rparr>)"
    if "stored s"
| RemoveData: "ring_sys_step s (s\<lparr>buffer := b, fetched := True, taken := taken s @ [d]\<rparr>)"
    if "\<not> fetched s" "\<not> RingBuffer_IsEmpty (buffer s)" "remove_data (buffer s) = Inr (d, b)"
| RemoveCount: "ring_sys_step s (s\<lparr>buffer := remove_count (buffer s), fetched := False\<rparr>)"
    if "fetched s"

definition ring_start :: "bytes \<Rightarrow> u16 \<Rightarrow> ring_sys" where
  "ring_start m sz = \<lparr>buffer = RingBuffer_InitBuffer m sz, stored = False, fetched = False, given = [], taken = []\<rparr>"

text \<open>The bytes in the buffer: the count, plus a byte stored but not yet counted,
  minus one fetched but still counted.\<close>

definition sys_inv :: "ring_sys \<Rightarrow> nat \<Rightarrow> bool" where
  "sys_inv s n \<longleftrightarrow> holds (buffer s) n \<and> given s = taken s @ ring (buffer s) n \<and>
     n + of_bool (fetched s) = unat (Count (buffer s)) + of_bool (stored s) \<and>
     unat (Count (buffer s)) + of_bool (stored s) \<le> unat (Size (buffer s)) \<and>
     of_bool (fetched s) \<le> unat (Count (buffer s))"

lemma holds_count [simp]: "holds (r\<lparr>Count := c\<rparr>) n = holds r n" "ring (r\<lparr>Count := c\<rparr>) n = ring r n"
  by (simp_all add: holds_def ring_def)

lemma End_Size: "holds r n \<Longrightarrow> End r = unat (Size r)"
  by (simp add: holds_def)

lemma sys_can_insert:
  assumes "sys_inv s n" "\<not> stored s" "\<not> RingBuffer_IsFull (buffer s)"
  shows "unat (Count (buffer s)) < unat (Size (buffer s))" "n < End (buffer s)"
  using assms End_Size [of "buffer s" n]
  by (auto simp: sys_inv_def RingBuffer_IsFull_def RingBuffer_GetCount_def le_less word_unat_eq_iff)

lemma sys_can_remove:
  assumes "sys_inv s n" "\<not> fetched s" "\<not> RingBuffer_IsEmpty (buffer s)"
  shows "0 < n"
  using assms by (auto simp: sys_inv_def RingBuffer_IsEmpty_def RingBuffer_GetCount_def unat_gt_0)

lemma sys_inv_step:
  assumes "ring_sys_step s t" "sys_inv s n"
  shows "\<exists>m. sys_inv t m"
  using assms
proof (induction rule: ring_sys_step.induct)
  case (InsertData s d b)
  note c = sys_can_insert [OF InsertData.prems InsertData.hyps(1,2)]
  from InsertData insert_data_ring [OF _ c(2), of d] c(1) have "sys_inv
      (s\<lparr>buffer := b, stored := True, given := given s @ [d]\<rparr>) (n + 1)" by (auto simp: sys_inv_def)
  then show ?case ..
next
  case (InsertCount s)
  then have c: "unat (Count (buffer s)) < unat (Size (buffer s))" by (simp add: sys_inv_def)
  from InsertCount unat_add_1 [OF c] have
    "sys_inv (s\<lparr>buffer := insert_count (buffer s), stored := False\<rparr>) n"
    by (simp add: sys_inv_def insert_count_def)
  then show ?case ..
next
  case (RemoveData s d b)
  note c = sys_can_remove [OF RemoveData.prems RemoveData.hyps(1,2)]
  have "ring (buffer s) n \<noteq> []" using c by (metis length_ring length_greater_0_conv)
  moreover have "0 < unat (Count (buffer s))"
    using RemoveData.hyps(2) by (simp add: RingBuffer_IsEmpty_def RingBuffer_GetCount_def unat_gt_0)
  ultimately have "sys_inv
      (s\<lparr>buffer := b, fetched := True, taken := taken s @ [d]\<rparr>) (n - 1)"
    using RemoveData remove_data_ring [OF _ c, of "buffer s"] c
    by (auto simp: sys_inv_def)
  then show ?case ..
next
  case (RemoveCount s)
  then have c: "0 < unat (Count (buffer s))" by (auto simp: sys_inv_def)
  from RemoveCount unat_minus_1 [OF c] c have
    "sys_inv (s\<lparr>buffer := remove_count (buffer s), fetched := False\<rparr>) n"
    by (auto simp: sys_inv_def remove_count_def)
  then show ?case ..
qed

lemma sys_inv_run:
  assumes "ring_sys_step\<^sup>*\<^sup>* (ring_start m sz) s" "0 < sz" "unat sz \<le> length m"
  shows "\<exists>n. sys_inv s n"
  using assms(1)
proof (induction rule: rtranclp_induct)
  case base
  have "sys_inv (ring_start m sz) 0"
    using assms(2,3) wf_InitBuffer [OF assms(2,3)]
    by (simp add: sys_inv_def ring_start_def wf_ring_def RingBuffer_InitBuffer_def ring_def)
  then show ?case ..
next
  case (step s t)
  then show ?case using sys_inv_step by blast
qed

text \<open>
  C23. Insertion and removal from different contexts. However the two steps of a
  producer and of a consumer interleave, nothing is lost, repeated or reordered:
  what was given is what was taken followed by what is between the pointers. The
  next guarded access of either side stays inside the storage array.
\<close>

theorem RingBuffer_interleaving:
  assumes "0 < sz" "unat sz \<le> length m" "ring_sys_step\<^sup>*\<^sup>* (ring_start m sz) s"
  shows "(\<exists>n. given s = taken s @ ring (buffer s) n \<and>
      n + of_bool (fetched s) = unat (Count (buffer s)) + of_bool (stored s)) \<and>
    (\<not> stored s \<longrightarrow> \<not> RingBuffer_IsFull (buffer s) \<longrightarrow> (\<exists>b. insert_data d (buffer s) = Inr b)) \<and>
    (\<not> fetched s \<longrightarrow> \<not> RingBuffer_IsEmpty (buffer s) \<longrightarrow> (\<exists>e b. remove_data (buffer s) = Inr (e, b)))"
proof -
  from sys_inv_run [OF assms(3,1,2)] obtain n where n: "sys_inv s n" ..
  then have h: "holds (buffer s) n" by (simp add: sys_inv_def)
  from n have "\<exists>n. given s = taken s @ ring (buffer s) n \<and>
    n + of_bool (fetched s) = unat (Count (buffer s)) + of_bool (stored s)"
    by (auto simp: sys_inv_def)
  moreover have "\<exists>b. insert_data d (buffer s) = Inr b" if "\<not> stored s" "\<not> RingBuffer_IsFull (buffer s)"
    using insert_data_ring [OF h sys_can_insert(2) [OF n that], of d] by blast
  moreover have "\<exists>e b. remove_data (buffer s) = Inr (e, b)" if "\<not> fetched s" "\<not> RingBuffer_IsEmpty (buffer s)"
    using remove_data_ring [OF h sys_can_remove [OF n that]] by blast
  ultimately show ?thesis by blast
qed

text \<open>A consumer fetches a byte while a second one is stored and not yet counted.\<close>

lemma interleaving_example:
  "\<exists>s. ring_sys_step\<^sup>*\<^sup>* (ring_start [0, 0] 2) s \<and> stored s \<and> fetched s \<and> given s = [7, 8] \<and> taken s = [7] \<and>
    \<not> RingBuffer_IsFull (buffer s)"
proof -
  let ?r = "\<lambda>i j c m. \<lparr>In = i, Out = j, Start = 0, End = 2, Size = 2, Count = c, storage = m\<rparr>"
  let ?s = "\<lambda>b p q x y. \<lparr>buffer = b, stored = p, fetched = q, given = x, taken = y\<rparr>"
  note defs = RingBuffer_IsFull_def RingBuffer_IsEmpty_def RingBuffer_GetCount_def insert_data_def
    remove_data_def store_def load_def advance_def insert_count_def
  have 0: "ring_start [0, 0] 2 = ?s (?r 0 0 0 [0, 0]) False False [] []"
    by (simp add: ring_start_def RingBuffer_InitBuffer_def)
  have 1: "ring_sys_step (?s (?r 0 0 0 [0, 0]) False False [] []) (?s (?r 1 0 0 [7, 0]) True False [7] [])"
    using ring_sys_step.InsertData [of "?s (?r 0 0 0 [0, 0]) False False [] []" 7 "?r 1 0 0 [7, 0]"]
    by (simp add: defs)
  have 2: "ring_sys_step (?s (?r 1 0 0 [7, 0]) True False [7] []) (?s (?r 1 0 1 [7, 0]) False False [7] [])"
    using ring_sys_step.InsertCount [of "?s (?r 1 0 0 [7, 0]) True False [7] []"] by (simp add: defs)
  have 3: "ring_sys_step (?s (?r 1 0 1 [7, 0]) False False [7] []) (?s (?r 0 0 1 [7, 8]) True False [7, 8] [])"
    using ring_sys_step.InsertData [of "?s (?r 1 0 1 [7, 0]) False False [7] []" 8 "?r 0 0 1 [7, 8]"]
    by (simp add: defs)
  have 4: "ring_sys_step (?s (?r 0 0 1 [7, 8]) True False [7, 8] []) (?s (?r 0 1 1 [7, 8]) True True [7, 8] [7])"
    using ring_sys_step.RemoveData [of "?s (?r 0 0 1 [7, 8]) True False [7, 8] []" 7 "?r 0 1 1 [7, 8]"]
    by (simp add: defs)
  have "ring_sys_step\<^sup>*\<^sup>* (ring_start [0, 0] 2) (?s (?r 0 1 1 [7, 8]) True True [7, 8] [7])"
    unfolding 0 by (rule converse_rtranclp_into_rtranclp, rule 1, rule converse_rtranclp_into_rtranclp, rule 2,
        rule converse_rtranclp_into_rtranclp, rule 3, rule r_into_rtranclp, rule 4)
  then show ?thesis by (intro exI conjI) (assumption, simp_all add: defs)
qed

theorem RingBuffer_interleaving_witness:
  "\<exists>(s :: ring_sys) n. given s = [7, 8] \<and> taken s = [7] \<and> given s = taken s @ ring (buffer s) n \<and> stored s \<and> fetched s"
proof -
  from interleaving_example obtain s where s: "ring_sys_step\<^sup>*\<^sup>* (ring_start [0, 0] 2) s"
    "stored s" "fetched s" "given s = [7, 8]" "taken s = [7]" by blast
  have "0 < (2 :: u16)" "unat (2 :: u16) \<le> length [0, 0 :: u8]" by simp_all
  from RingBuffer_interleaving [OF this s(1), of 0] s(2-) show ?thesis by blast
qed

end
