(* ===== verification/Spec2Isabelle.thy ===== *)
theory Spec2Isabelle
  imports Bridge DiscordBot Launcher Enumeration ConfigDescriptors Endianness HidDevice HidJoystick RingBuffer
begin

text \<open>
  \<^bold>\<open>The program.\<close> The repository turns a PC into a controller for the Nintendo Switch. The
  firmware (\<open>src/Firmware\<close>) runs on the USB chip of an Arduino Uno (ATmega16U2): to the
  console it is a wired Pro Controller, on its UART it receives packets of eight bytes and a
  checksum. It is written in C on top of the USB library LUFA, of which the repository has
  a copy. The bridge (\<open>src/xInput2Serial/xinput2serial.py\<close>) reads a gamepad, the keyboard and
  mouse, or a TCP socket, and writes the packets to the serial port. The Discord bot
  (\<open>src/discord_input/discord_input_bot.py\<close>) sends commands of a Discord channel to that socket.
  The user interface (\<open>src/gui/SwitchAutomationGui.py\<close>) edits settings, and the launcher
  (\<open>src/Playnite Launcher Scripts/switch_launcher.py\<close>) starts OBS and the bridge for a session.

  \<^bold>\<open>How C is modelled.\<close> Integers are words of their width (\<open>u8\<close>, \<open>u16\<close>, \<open>u32\<close>), structures are
  records, buffers are lists of bytes whose accesses are checked: a function that leaves an
  array or follows a null pointer has the result \<open>Inl\<close> of a \<open>fault\<close> (\<open>Prelude\<close>). A register read
  returns what an \<open>environment\<close> decides, an arbitrary function of the whole history of
  accesses (\<open>Hardware\<close>), so every statement holds for every peripheral, host and UART peer
  unless a hypothesis says otherwise. Loops that wait for hardware are \<open>turn_loop\<close> (\<open>Loops\<close>), a
  partial function into options in which \<open>None\<close> is a loop that never ends. No fuel is used:
  where a theorem says that a loop returns, it is shown to be \<open>Some\<close>.

  \<^bold>\<open>How Python is modelled.\<close> A computation \<open>('a, 's) py\<close> returns or raises on an explicit state
  (\<open>Python\<close>); floats are IEEE doubles with the rounding written out (\<open>PyFloat\<close>). What devices,
  clocks, the operating system and packages outside \<open>src\<close> return is a parameter (\<open>world\<close>, \<open>host\<close>,
  \<open>platform\<close>), an arbitrary function of the number of accesses made so far. Texts have the
  characters up to code point 255.

  \<^bold>\<open>Theories of the firmware.\<close>
  \<^item> \<open>Prelude\<close>, \<open>Loops\<close>, \<open>Hardware\<close>: words, buffers, faults, loops with their invariant, fault and
    termination rules, registers and the history of accesses.
  \<^item> \<open>Board\<close>: \<open>avr.h\<close> and the LEDs. \<open>Datatypes\<close>: \<open>datatypes.h\<close>. \<open>EmulatedSPI\<close>: \<open>EmulatedSPI.c\<close>.
  \<^item> \<open>Response\<close>: \<open>Response.c\<close>, the replies to the console. The locales \<open>reply_op\<close>, \<open>answering_op\<close> and
    \<open>reply_family\<close> state what every \<open>prepare_\<close> function promises and are interpreted on each of
    them; \<open>process_OUT_report\<close> refines an abstract specification of requests and replies.
  \<^item> \<open>Crc\<close>: the checksum of the firmware and of the bridge, that they agree, and the errors it
    detects. \<open>Receiver\<close>: the receive interrupt of \<open>Joystick.c\<close> and the selection of reports.
    \<open>Session\<close>: the receiver refines an abstract protocol machine; the handshake, recovery from
    lost synchronisation, corrupted packets and the timeline of a lost connection.
  \<^item> \<open>Endpoint\<close>, \<open>ControlStream\<close>, \<open>EndpointStream\<close>, \<open>DeviceRequests\<close>, \<open>UsbController\<close>: LUFA's endpoints,
    transfers, standard requests and USB interrupt, in the configuration of this firmware. The
    locale \<open>device_application\<close> is LUFA's contract with the application's callbacks; \<open>Firmware\<close>
    interprets it on the callbacks of \<open>Joystick.c\<close>.
  \<^item> \<open>Descriptors\<close>: \<open>Descriptors.c\<close> with LUFA's macros. \<open>Joystick\<close>: \<open>main\<close>, the HID task, and the
    transition system in which interrupts run between the tasks of the main loop.
  \<^item> \<open>Firmware\<close>, \<open>System\<close>: the invariant of all reachable states, exactly which requests make a turn
    of the main loop fault, that requests are answered and packets reach the console, start-up.
    \<open>Enumeration\<close>: what the host sees during enumeration.
  \<^item> \<open>HidParser\<close>, \<open>HidReports\<close>, \<open>HidJoystick\<close>: LUFA's HID report parser, its memory safety, and its
    result on the firmware's own report descriptor. \<open>HidDevice\<close>: LUFA's driver for HID devices;
    the locale \<open>hid_callbacks\<close> is its contract with an application, interpreted on the callbacks
    of LUFA's joystick demo. It shows when reports are sent and that requests stay within the
    buffers. \<open>ConfigDescriptors\<close>, \<open>Endianness\<close>,
    \<open>RingBuffer\<close>: further parts of LUFA; the locale \<open>bounded_queue\<close> is interpreted on the ring
    buffer, whose insertions and removals are also interleaved.

  \<^bold>\<open>Theories of the programs on the PC.\<close>
  \<^item> \<open>SocketPad\<close>: class \<open>PadSocket\<close>, whose server threads run between the accesses of the bridge.
    \<open>Gamepads\<close>: the other backends, \<open>build_packet\<close> and \<open>Packet.pack\<close>. \<open>ControllerPackets\<close>: the state
    of a controller reaches the console, every backend gives well-formed packets, what the
    socket pad can and cannot press. This theory joins both halves: its statements run the
    bytes of the bridge through the receiver and the USB task of the firmware.
  \<^item> \<open>Bridge\<close>: the handshake, the choice of a controller and the main loop, with the reachable
    states \<open>bridge_run\<close>. Whatever the devices do, the firmware accepts every packet and stays
    synchronised; nothing of the controller is sent while the window lacks focus.
  \<^item> \<open>EnvFile\<close>: the \<open>.env\<close> file, written by the user interface and read by the bot.
    \<open>DiscordBot\<close>: configuration, commands, and \<open>on_message\<close> as a step relation \<open>bot_step\<close> with one
    step for each part between two \<open>await\<close>s and for each thread. Authorisation, cooldown and the
    log hold for every interleaving, and a command reaches the pad of the bridge.
  \<^item> \<open>Launcher\<close>: the launcher, its two waiting loops and its \<open>finally\<close> clause. It stops what it
    started however it ends, and it does not wait forever for the projector.

  \<^bold>\<open>Bounds.\<close> Termination statements about clocks assume that time passes: \<open>time_passes\<close> (\<open>Bridge\<close>)
  and \<open>deadlines_pass\<close> (\<open>Launcher\<close>) say within how many accesses a deadline is reached, for the
  accesses the run can make; their witnesses have such clocks. The launcher's bound of 20
  accesses beyond \<open>N\<close> covers the accesses between its start and its second deadline.

  \<^bold>\<open>Not modelled.\<close>
  \<^item> The rest of LUFA: host mode and pipes, which the ATmega16U2 does not have; the other class
    drivers, boards, peripherals and architectures (XMEGA, UC3), the rest of the
    demos, projects and bootloaders. Nothing of it is compiled into the firmware. \<open>USB_Host_GetDeviceConfigDescriptor\<close>
    is of this kind. The watchdog and the electrical side of USB are hardware.
  \<^item> The text of JSON and of time stamps, decoding of UTF-8, sockets, \<open>discord\<close>, \<open>pygame\<close>,
    \<open>keyboard\<close>, \<open>mouse\<close>, \<open>pyserial\<close>, \<open>win32gui\<close>, \<open>simpleobsws\<close>: parameters, of which each statement
    names what it uses.
  \<^item> Messages and log files of the bridge, its status file, \<open>--diagnose\<close>, and the parsers of
    command lines (\<open>argparse\<close>): the arguments are records.
  \<^item> The windows of the user interface (\<open>tkinter\<close>), its JSON settings and its processes; the
    PowerShell and command scripts, which call Windows and Playnite; \<open>start_obs_fullscreen.py\<close>,
    which makes two calls to OBS and to Windows.
\<close>

end
